(* ===== verification/Prelude.thy ===== *)
theory Prelude
  imports Main "HOL-Library.Word" "HOL-Library.List_Lexorder" "HOL-Library.Sublist"
begin

text \<open>
  Shared vocabulary of the development.  It holds the names of the machine types the Go code
  uses (\<open>byte\<close>, \<open>uint32\<close>, \<open>uint64\<close>), the result type in which every error return and every
  run-time panic is a value, the fixed-width byte encodings of \<open>encoding/binary\<close>, the
  effect of Go's \<open>copy\<close> into a zeroed array, and the generic lemmas on lists, byte strings and
  their lexicographic order that the component theories share.
\<close>

section \<open>Machine types and results\<close>

type_synonym byte = "8 word"
type_synonym bytes = "byte list"
type_synonym u16 = "16 word"
type_synonym u32 = "32 word"
type_synonym u64 = "64 word"

text \<open>
  A Go function of type \<open>(T, error)\<close> returns \<open>Inr v\<close>, or \<open>Inl (Err msg)\<close> for a non-nil error.
  A run-time panic (index or slice bounds, slice-to-array conversion, a logged panic) is
  \<open>Inl (Panic msg)\<close>.
\<close>

datatype go_error = Err string | Panic string

type_synonym 'a res = "go_error + 'a"

named_theorems res_simps \<open>evaluation of the result monad\<close>
named_theorems len_simps \<open>lengths of encoded byte strings\<close>

fun bindR :: "'a res \<Rightarrow> ('a \<Rightarrow> 'b res) \<Rightarrow> 'b res" where
  "bindR (Inl e) f = Inl e"
| "bindR (Inr a) f = f a"

fun mapR :: "('a \<Rightarrow> 'b res) \<Rightarrow> 'a list \<Rightarrow> 'b list res" where
  "mapR f [] = Inr []"
| "mapR f (x # xs) = bindR (f x) (\<lambda>y. bindR (mapR f xs) (\<lambda>ys. Inr (y # ys)))"

text \<open>\<open>fmt.Errorf("m: %w", err)\<close>, or with \<open>%v\<close>\<close>

fun wrapf :: "string \<Rightarrow> 'a res \<Rightarrow> 'a res" where
  "wrapf m (Inl (Err e)) = Inl (Err (m @ '': '' @ e))"
| "wrapf m r = r"

lemma wrapf_Inr [simp]: "wrapf m r = Inr x \<longleftrightarrow> r = Inr x"
  by (cases "(m, r)" rule: wrapf.cases) simp_all

lemma bindR_assoc: "bindR (bindR r f) g = bindR r (\<lambda>x. bindR (f x) g)"
  by (cases r) simp_all

lemma bindR_Inr_iff [simp]: "bindR r f = Inr y \<longleftrightarrow> (\<exists>x. r = Inr x \<and> f x = Inr y)"
  by (cases r) auto

lemma bindR_split_Inl: "bindR r f = Inl e \<longleftrightarrow> (r = Inl e \<or> (\<exists>x. r = Inr x \<and> f x = Inl e))"
  by (cases r) auto

lemma bindR_cong [fundef_cong]:
  "r = r' \<Longrightarrow> (\<And>x. r' = Inr x \<Longrightarrow> f x = g x) \<Longrightarrow> bindR r f = bindR r' g"
  by (cases r') auto

lemma mapR_Inr: "(\<And>x. x \<in> set xs \<Longrightarrow> f x = Inr (g x)) \<Longrightarrow> mapR f xs = Inr (map g xs)"
  by (induction xs) auto

lemma mapR_length: "mapR f xs = Inr ys \<Longrightarrow> length ys = length xs"
  by (induction xs arbitrary: ys) auto

lemma mapR_append:
  "mapR f (xs @ ys) = bindR (mapR f xs) (\<lambda>a. bindR (mapR f ys) (\<lambda>b. Inr (a @ b)))"
proof (induction xs)
  case Nil
  then show ?case by (cases "mapR f ys") auto
next
  case (Cons x xs)
  then show ?case by (cases "f x"; cases "mapR f xs"; cases "mapR f ys") auto
qed

lemma mapR_all: "mapR f xs = Inr ys \<Longrightarrow> x \<in> set xs \<Longrightarrow> \<exists>y \<in> set ys. f x = Inr y"
  by (induction xs arbitrary: ys) auto

lemma mapR_from: "mapR f xs = Inr ys \<Longrightarrow> y \<in> set ys \<Longrightarrow> \<exists>x \<in> set xs. f x = Inr y"
  by (induction xs arbitrary: ys) fastforce+

lemma mapR_ok: "\<forall>x \<in> set xs. \<exists>y. f x = Inr y \<Longrightarrow> \<exists>ys. mapR f xs = Inr ys"
  by (induction xs) auto

section \<open>Fixed-width byte strings\<close>

text \<open>
  \<open>copy(k[a:a+n], src)\<close> into a freshly made (zeroed) slice: at most \<open>n\<close> bytes of the source,
  the rest of the field stays zero.
\<close>

definition fit :: "nat \<Rightarrow> bytes \<Rightarrow> bytes" where
  "fit n src = take n src @ replicate (n - length src) 0"

lemma length_fit [simp, len_simps]: "length (fit n xs) = n"
  by (simp add: fit_def)

lemma fit_id [simp]: "length xs = n \<Longrightarrow> fit n xs = xs"
  by (simp add: fit_def)

lemma fit_long: "n \<le> length xs \<Longrightarrow> fit n xs = take n xs"
  by (simp add: fit_def)

lemma fit_fit [simp]: "fit n (fit n xs) = fit n xs"
  by simp

text \<open>Big-endian digits of a number in base 256, \<open>n\<close> of them, and their value.\<close>

fun be_nat :: "nat \<Rightarrow> nat \<Rightarrow> bytes" where
  "be_nat 0 v = []"
| "be_nat (Suc n) v = of_nat (v div 256 ^ n) # be_nat n v"

fun nat_be :: "bytes \<Rightarrow> nat" where
  "nat_be [] = 0"
| "nat_be (b # bs) = unat b * 256 ^ length bs + nat_be bs"

lemma length_be_nat [simp, len_simps]: "length (be_nat n v) = n"
  by (induction n) auto

lemma unat_byte_lt: "unat (b :: byte) < 256"
  using unsigned_less [of b] by simp

lemma nat_be_less: "nat_be bs < 256 ^ length bs"
proof (induction bs)
  case Nil
  then show ?case by simp
next
  case (Cons b bs)
  have "unat b * 256 ^ length bs + nat_be bs < (unat b + 1) * 256 ^ length bs"
    using Cons.IH by simp
  also have "\<dots> \<le> 256 * 256 ^ length bs"
    using unat_byte_lt [of b] by (intro mult_le_mono1) simp
  finally show ?case by simp
qed

lemma nat_be_be_nat: "nat_be (be_nat n v) = v mod 256 ^ n"
proof (induction n)
  case 0
  then show ?case by simp
next
  case (Suc n)
  have "unat (of_nat (v div 256 ^ n) :: byte) = v div 256 ^ n mod 256"
    by (simp add: unat_of_nat)
  then have "nat_be (be_nat (Suc n) v) = v div 256 ^ n mod 256 * 256 ^ n + v mod 256 ^ n"
    using Suc by simp
  also have "\<dots> = v mod (256 ^ n * 256)"
    using mod_mult2_eq [of v "256 ^ n" 256] by (simp add: mult.commute)
  finally show ?case by (simp add: mult.commute)
qed

lemma nat_be_inj: "length xs = length ys \<Longrightarrow> nat_be xs = nat_be ys \<Longrightarrow> xs = ys"
proof (induction xs ys rule: list_induct2)
  case Nil
  then show ?case by simp
next
  case (Cons x xs y ys)
  let ?B = "256 ^ length ys :: nat"
  have lt: "nat_be xs < ?B" "nat_be ys < ?B"
    using nat_be_less [of xs] nat_be_less [of ys] Cons.hyps by simp_all
  have eq: "unat x * ?B + nat_be xs = unat y * ?B + nat_be ys"
    using Cons.prems Cons.hyps by simp
  have "unat x = (unat x * ?B + nat_be xs) div ?B" using lt by simp
  also have "\<dots> = unat y" using lt eq by simp
  finally have "unat x = unat y" .
  with eq have "nat_be xs = nat_be ys" by simp
  then show ?case using Cons.IH \<open>unat x = unat y\<close> by (simp add: word_unat_eq_iff)
qed

lemma be_nat_nat_be: "be_nat (length bs) (nat_be bs) = bs"
  by (rule nat_be_inj) (simp_all add: nat_be_be_nat nat_be_less)

text \<open>Byte strings of one length compare lexicographically as the numbers they encode.\<close>

lemma nat_be_less_iff: "length xs = length ys \<Longrightarrow> nat_be xs < nat_be ys \<longleftrightarrow> xs < ys"
proof (induction xs ys rule: list_induct2)
  case Nil
  then show ?case by simp
next
  case (Cons x xs y ys)
  let ?B = "256 ^ length ys :: nat"
  have lt: "nat_be xs < ?B" "nat_be ys < ?B"
    using nat_be_less [of xs] nat_be_less [of ys] Cons.hyps by simp_all
  consider "x < y" | "x = y" | "y < x" by fastforce
  then show ?case
  proof cases
    case 1
    then have "unat x + 1 \<le> unat y" by (simp add: word_less_nat_alt Suc_leI)
    then have "(unat x + 1) * ?B \<le> unat y * ?B" by (rule mult_le_mono1)
    then have "unat x * ?B + nat_be xs < unat y * ?B + nat_be ys" using lt by simp
    with 1 show ?thesis using Cons.hyps by simp
  next
    case 2
    then show ?thesis using Cons by simp
  next
    case 3
    then have "unat y + 1 \<le> unat x" by (simp add: word_less_nat_alt Suc_leI)
    then have "(unat y + 1) * ?B \<le> unat x * ?B" by (rule mult_le_mono1)
    then have "unat y * ?B + nat_be ys < unat x * ?B + nat_be xs" using lt by simp
    with 3 show ?thesis using Cons.hyps by auto
  qed
qed


text \<open>
  \<open>binary.BigEndian.PutUint32\<close>, \<open>PutUint64\<close> and \<open>binary.LittleEndian.PutUint64\<close> write the
  digits; \<open>Uint32\<close> and \<open>Uint64\<close> read the first four or eight bytes of a slice and panic on
  a shorter one.
\<close>

definition put_be32 :: "u32 \<Rightarrow> bytes" where
  "put_be32 u = be_nat 4 (unat u)"

definition put_be64 :: "u64 \<Rightarrow> bytes" where
  "put_be64 u = be_nat 8 (unat u)"

definition put_le32 :: "u32 \<Rightarrow> bytes" where
  "put_le32 u = rev (be_nat 4 (unat u))"

definition put_le64 :: "u64 \<Rightarrow> bytes" where
  "put_le64 u = rev (be_nat 8 (unat u))"

definition get_be32 :: "bytes \<Rightarrow> u32 res" where
  "get_be32 bs = (if length bs < 4 then Inl (Panic ''index out of range'')
     else Inr (of_nat (nat_be (take 4 bs))))"

definition get_be64 :: "bytes \<Rightarrow> u64 res" where
  "get_be64 bs = (if length bs < 8 then Inl (Panic ''index out of range'')
     else Inr (of_nat (nat_be (take 8 bs))))"

definition get_le32 :: "bytes \<Rightarrow> u32 res" where
  "get_le32 bs = (if length bs < 4 then Inl (Panic ''index out of range'')
     else Inr (of_nat (nat_be (rev (take 4 bs)))))"

definition get_le64 :: "bytes \<Rightarrow> u64 res" where
  "get_le64 bs = (if length bs < 8 then Inl (Panic ''index out of range'')
     else Inr (of_nat (nat_be (rev (take 8 bs)))))"

lemma length_put [simp, len_simps]:
  "length (put_be32 u) = 4" "length (put_be64 v) = 8"
  "length (put_le32 u) = 4" "length (put_le64 v) = 8"
  by (simp_all add: put_be32_def put_be64_def put_le32_def put_le64_def)

lemma unat_u32_mod [simp]: "unat (u :: u32) mod 4294967296 = unat u"
  using unsigned_less [where 'a = nat, of u] by simp

lemma unat_u64_mod [simp]: "unat (u :: u64) mod 18446744073709551616 = unat u"
  using unsigned_less [where 'a = nat, of u] by simp

lemma get_put_be32 [simp]: "get_be32 (put_be32 u @ xs) = Inr u"
  by (simp add: get_be32_def put_be32_def nat_be_be_nat)

lemma get_put_be64 [simp]: "get_be64 (put_be64 u @ xs) = Inr u"
  by (simp add: get_be64_def put_be64_def nat_be_be_nat)

lemma get_put_le32 [simp]: "get_le32 (put_le32 u @ xs) = Inr u"
  by (simp add: get_le32_def put_le32_def nat_be_be_nat)

lemma get_put_le64 [simp]: "get_le64 (put_le64 u @ xs) = Inr u"
  by (simp add: get_le64_def put_le64_def nat_be_be_nat)

lemmas get_put_exact [simp] =
  get_put_be32 [where xs = "[]", simplified] get_put_be64 [where xs = "[]", simplified]
  get_put_le32 [where xs = "[]", simplified] get_put_le64 [where xs = "[]", simplified]

lemma put_be32_inj [simp]: "put_be32 u = put_be32 v \<longleftrightarrow> u = v"
  by (metis get_put_exact(1) sum.inject(2))

lemma put_be32_less [simp]: "put_be32 u < put_be32 v \<longleftrightarrow> u < v"
  by (simp add: put_be32_def nat_be_less_iff [symmetric] nat_be_be_nat word_less_nat_alt)

lemma put_get_be32:
  assumes "length bs = 4" and "get_be32 bs = Inr u"
  shows "put_be32 u = bs"
proof -
  from assms have u: "u = of_nat (nat_be bs)" by (simp add: get_be32_def)
  have "nat_be bs < 4294967296" using nat_be_less [of bs] assms(1) by simp
  then have "unat u = nat_be bs" by (simp add: u unat_of_nat)
  then show ?thesis using be_nat_nat_be [of bs] assms(1) by (simp add: put_be32_def)
qed

lemma bytes_eq_put_be32: "length bs = 4 \<Longrightarrow> \<exists>u. bs = put_be32 u"
  by (metis get_be32_def nat_neq_iff put_get_be32)

section \<open>Lexicographic order of byte strings\<close>

text \<open>The order of \<open>bytes.Compare\<close>, which is the order of the keys in the database.\<close>

lemma append_less_iff:
  fixes xs ys :: bytes
  assumes "length xs = length ys"
  shows "xs @ as < ys @ bs \<longleftrightarrow> xs < ys \<or> (xs = ys \<and> as < bs)"
  using assms by (induction xs ys rule: list_induct2) auto

lemma same_prefix_less [simp]: "(xs :: bytes) @ as < xs @ bs \<longleftrightarrow> as < bs"
  by (simp add: append_less_iff)

lemma same_prefix_le [simp]: "(xs :: bytes) @ as \<le> xs @ bs \<longleftrightarrow> as \<le> bs"
  by (simp add: le_less)

lemma byte_le_255 [simp]: "(b :: byte) \<le> 255"
  using unat_byte_lt [of b] by (simp add: word_le_nat_alt)

lemma byte_zero_le [simp]: "(0 :: byte) \<le> b"
  by simp

lemma zeros_le: "length xs = n \<Longrightarrow> replicate n 0 \<le> (xs :: bytes)"
proof (induction xs arbitrary: n)
  case Nil
  then show ?case by simp
next
  case (Cons x xs)
  then obtain m where "n = Suc m" "length xs = m" by auto
  then show ?case using Cons.IH [of m] by (cases "x = 0") (auto simp: word_neq_0_conv)
qed

lemma le_ones: "length xs = n \<Longrightarrow> (xs :: bytes) \<le> replicate n 255"
proof (induction xs arbitrary: n)
  case Nil
  then show ?case by simp
next
  case (Cons x xs)
  then obtain m where m: "n = Suc m" "length xs = m" by auto
  have "x < 255 \<or> x = 255" using byte_le_255 [of x] by (simp add: le_less)
  then show ?case using Cons.IH [of m] m by auto
qed

lemma less_ones_iff:
  "length xs = n \<Longrightarrow> (xs :: bytes) < replicate n 255 \<longleftrightarrow> xs \<noteq> replicate n 255"
  using le_ones [of xs n] by (auto simp: le_less)

lemma be_nat_zero [simp]: "be_nat n 0 = replicate n 0"
  by (induction n) auto

lemma put_be32_zero: "replicate 4 0 = put_be32 0"
  by (simp add: put_be32_def)

lemma put_be32_max: "replicate 4 255 = put_be32 0xFFFFFFFF"
proof -
  have "be_nat (Suc (Suc (Suc (Suc 0)))) (unat (0xFFFFFFFF :: u32)) = [255, 255, 255, 255]"
    by simp
  moreover have "(4 :: nat) = Suc (Suc (Suc (Suc 0)))" by simp
  ultimately show ?thesis unfolding put_be32_def by (simp only: replicate.simps)
qed

section \<open>Chunks of a flat byte string\<close>

text \<open>
  The loops \<open>for i := range n { copy(out[i][:], v[i*w:(i+1)*w]) }\<close> cut a flat value into
  pieces of width \<open>w\<close>.
\<close>

definition chunks :: "nat \<Rightarrow> bytes \<Rightarrow> bytes list" where
  "chunks w v = map (\<lambda>i. take w (drop (i * w) v)) [0..<length v div w]"

lemma chunks_Nil [simp]: "chunks w [] = []"
  by (simp add: chunks_def)

lemma chunks_append:
  assumes "length x = w" and "0 < w"
  shows "chunks w (x @ v) = x # chunks w v"
proof -
  have "length (x @ v) div w = Suc (length v div w)"
    using assms by (simp add: div_add_self1)
  then have "chunks w (x @ v) =
      map (\<lambda>i. take w (drop (i * w) (x @ v))) (0 # map Suc [0..<length v div w])"
    unfolding chunks_def by (simp only: upt_conv_Cons zero_less_Suc map_Suc_upt)
  then show ?thesis using assms by (simp add: chunks_def comp_def)
qed

lemma chunks_concat:
  "0 < w \<Longrightarrow> (\<forall>x \<in> set xs. length x = w) \<Longrightarrow> chunks w (concat xs) = xs"
  by (induction xs) (simp_all add: chunks_append)

lemma concat_chunks:
  assumes "0 < w" and "w dvd length v"
  shows "concat (chunks w v) = v"
  using assms(2)
proof (induction "length v div w" arbitrary: v)
  case 0
  then show ?case using assms(1) by (auto simp: div_eq_0_iff dvd_imp_le)
next
  case (Suc n)
  have le: "w \<le> length v" using Suc.hyps(2) assms(1)
    by (metis div_less leI nat.distinct(1))
  let ?x = "take w v" and ?r = "drop w v"
  have v: "v = ?x @ ?r" by simp
  have "length ?r div w = n" "w dvd length ?r"
    using Suc.hyps(2) Suc.prems le assms(1) by (simp_all add: le_div_geq)
  then have "concat (chunks w ?r) = ?r" using Suc.hyps(1) [of ?r] by simp
  moreover have "chunks w v = ?x # chunks w ?r"
    using chunks_append [of ?x w ?r] le assms(1) by simp
  ultimately show ?case by simp
qed

lemma chunks_width: "x \<in> set (chunks w v) \<Longrightarrow> length x = w"
proof -
  assume "x \<in> set (chunks w v)"
  then obtain i where i: "i < length v div w" and x: "x = take w (drop (i * w) v)"
    by (auto simp: chunks_def)
  have "(i + 1) * w \<le> length v div w * w" using i by (intro mult_le_mono1) simp
  also have "\<dots> \<le> length v" by simp
  finally show ?thesis by (simp add: x)
qed

lemma length_chunks: "length (chunks w v) = length v div w"
  by (simp add: chunks_def)

end
