(* ===== verification/Pebble.thy ===== *)
theory Pebble
  imports Prelude
begin

text \<open>
  The key-value store underneath the index is \<open>cockroachdb/pebble\<close>, a third-party package.  It
  is not defined here: every definition that uses it takes a record \<open>pebble_api\<close> of the calls
  the code makes.  What the code relies on is stated as the laws of the locales \<open>pebble\<close> (a
  call that succeeds does what the documentation of the package says) and
  \<open>pebble_reliable\<close> (no call fails).  The theory also holds the specification of the contents
  of such a store, an association list in strictly ascending key order, and an in-memory
  instance that satisfies the laws.
\<close>

section \<open>Ordered contents\<close>

type_synonym kv = "bytes \<times> bytes"

abbreviation kv_sorted :: "kv list \<Rightarrow> bool" where
  "kv_sorted es \<equiv> sorted_wrt (<) (map fst es)"

fun kv_put :: "bytes \<Rightarrow> bytes \<Rightarrow> kv list \<Rightarrow> kv list" where
  "kv_put k v [] = [(k, v)]"
| "kv_put k v ((k', v') # es) =
     (if k < k' then (k, v) # (k', v') # es
      else if k = k' then (k, v) # es
      else (k', v') # kv_put k v es)"

fun kv_puts :: "kv list \<Rightarrow> kv list \<Rightarrow> kv list" where
  "kv_puts [] es = es"
| "kv_puts ((k, v) # ws) es = kv_puts ws (kv_put k v es)"

definition in_bounds :: "bytes option \<Rightarrow> bytes option \<Rightarrow> bytes \<Rightarrow> bool" where
  "in_bounds lb ub k \<longleftrightarrow>
     (case lb of None \<Rightarrow> True | Some l \<Rightarrow> l \<le> k) \<and> (case ub of None \<Rightarrow> True | Some u \<Rightarrow> k < u)"

lemma in_bounds_simps [simp]:
  "in_bounds (Some l) (Some u) k \<longleftrightarrow> l \<le> k \<and> k < u"
  "in_bounds None None k"
  "in_bounds (Some l) None k \<longleftrightarrow> l \<le> k"
  by (simp_all add: in_bounds_def)

definition kv_range :: "bytes option \<Rightarrow> bytes option \<Rightarrow> kv list \<Rightarrow> kv list" where
  "kv_range lb ub es = filter (\<lambda>e. in_bounds lb ub (fst e)) es"

lemma set_kv_put_fst [simp]: "fst ` set (kv_put k v es) = insert k (fst ` set es)"
  by (induction k v es rule: kv_put.induct) (simp_all add: insert_commute)

lemma kv_put_sorted [simp]: "kv_sorted es \<Longrightarrow> kv_sorted (kv_put k v es)"
proof (induction es)
  case Nil
  then show ?case by simp
next
  case (Cons e es)
  obtain k' v' where e: "e = (k', v')" by (cases e)
  have "\<forall>x \<in> set (map fst (kv_put k v es)). k' < x" if "k' < k"
  proof -
    have "set (map fst (kv_put k v es)) = insert k (set (map fst es))" by simp
    then show ?thesis using Cons.prems that e by auto
  qed
  moreover have "k < k' \<or> k = k' \<or> k' < k" by (rule less_linear)
  ultimately show ?case using Cons e
    by (auto simp: less_imp_not_less)
qed

lemma kv_puts_sorted [simp]: "kv_sorted es \<Longrightarrow> kv_sorted (kv_puts ws es)"
  by (induction ws es rule: kv_puts.induct) auto

lemma map_of_kv_put [simp]: "map_of (kv_put k v es) = (map_of es)(k \<mapsto> v)"
  by (induction es) (auto simp: fun_eq_iff)

lemma map_of_kv_puts: "map_of (kv_puts ws es) = map_of es ++ map_of (rev ws)"
  by (induction ws es rule: kv_puts.induct) (auto simp: fun_eq_iff map_add_def split: option.splits)

lemma kv_puts_append [simp]: "kv_puts (ws @ ws') es = kv_puts ws' (kv_puts ws es)"
  by (induction ws es rule: kv_puts.induct) auto

lemma kv_sorted_distinct: "kv_sorted es \<Longrightarrow> distinct (map fst es)"
  using strict_sorted_iff by blast

text \<open>A sorted association list is determined by the map it stands for.\<close>

lemma kv_sorted_ext:
  assumes "kv_sorted xs" and "kv_sorted ys" and "map_of xs = map_of ys"
  shows "xs = ys"
proof -
  have "set xs = set ys"
    using assms by (metis kv_sorted_distinct map_of_inject_set)
  moreover from this have "map fst xs = map fst ys"
    using assms(1,2) by (intro strict_sorted_equal) auto
  ultimately show ?thesis
    using kv_sorted_distinct [OF assms(1)] assms(3)
    by (metis distinct_map map_of_inject_set eq_key_imp_eq_value inj_on_map_eq_map
        kv_sorted_distinct sup.idem)
qed

lemma map_of_kv_range:
  assumes "kv_sorted es"
  shows "map_of (kv_range lb ub es) k = (if in_bounds lb ub k then map_of es k else None)"
  unfolding kv_range_def by (induction es) auto

lemma kv_range_sorted [simp]: "kv_sorted es \<Longrightarrow> kv_sorted (kv_range lb ub es)"
  by (simp add: kv_range_def sorted_wrt_map sorted_wrt_filter)

lemma set_kv_range: "(k, v) \<in> set (kv_range lb ub es) \<longleftrightarrow> (k, v) \<in> set es \<and> in_bounds lb ub k"
  by (auto simp: kv_range_def)

lemma map_of_sorted_iff: "kv_sorted es \<Longrightarrow> map_of es k = Some v \<longleftrightarrow> (k, v) \<in> set es"
  by (metis kv_sorted_distinct map_of_SomeD map_of_is_SomeI)

text \<open>
  Writes that agree wherever they meet: their order does not matter, and the contents are their
  union.
\<close>

definition single :: "kv set \<Rightarrow> bool" where
  "single S \<longleftrightarrow> (\<forall>k v v'. (k, v) \<in> S \<longrightarrow> (k, v') \<in> S \<longrightarrow> v = v')"

lemma single_subset: "single T \<Longrightarrow> S \<subseteq> T \<Longrightarrow> single S"
  unfolding single_def by blast

lemma kv_put_mem:
  "kv_sorted es \<Longrightarrow> (k', v') \<in> set (kv_put k v es) \<longleftrightarrow>
     (k', v') = (k, v) \<or> (k' \<noteq> k \<and> (k', v') \<in> set es)"
  using map_of_sorted_iff [of "kv_put k v es" k' v'] map_of_sorted_iff [of es k' v']
  by (auto split: if_splits)

lemma set_kv_puts:
  "kv_sorted es \<Longrightarrow> single (set es \<union> set ws) \<Longrightarrow> set (kv_puts ws es) = set es \<union> set ws"
proof (induction ws es rule: kv_puts.induct)
  case (1 es)
  then show ?case by simp
next
  case (2 k v ws es)
  have u: "v' = v" if "(k, v') \<in> set es" for v'
    using "2.prems"(2) that unfolding single_def by (meson UnI1 UnI2 list.set_intros(1))
  have p: "set (kv_put k v es) = insert (k, v) (set es)"
  proof (rule set_eqI)
    fix e
    show "e \<in> set (kv_put k v es) \<longleftrightarrow> e \<in> insert (k, v) (set es)"
      using kv_put_mem [OF "2.prems"(1), of "fst e" "snd e" k v] u [of "snd e"]
      by (cases e) auto
  qed
  have "single (set (kv_put k v es) \<union> set ws)"
    using "2.prems"(2) by (rule single_subset) (auto simp: p)
  then show ?case using "2.IH" "2.prems"(1) p by simp
qed

lemma set_kv_puts_subset: "kv_sorted es \<Longrightarrow> set (kv_puts ws es) \<subseteq> set es \<union> set ws"
proof (induction ws es rule: kv_puts.induct)
  case (2 k v ws es)
  have "set (kv_put k v es) \<subseteq> insert (k, v) (set es)"
    using kv_put_mem [OF "2.prems"] by auto
  then show ?case using "2.IH" "2.prems" by fastforce
qed simp

lemma kv_sorted_set_eq: "kv_sorted xs \<Longrightarrow> kv_sorted ys \<Longrightarrow> set xs = set ys \<Longrightarrow> xs = ys"
  by (rule kv_sorted_ext) (simp_all add: map_of_inject_set kv_sorted_distinct)

section \<open>The interface the code calls\<close>

text \<open>
  \<open>DB.Get\<close> returns a value, \<open>pebble.ErrNotFound\<close> or another error.  An iterator is what its
  calls return: the pairs visited from \<open>First()\<close> by \<open>Next()\<close>, from \<open>Last()\<close> by \<open>Prev()\<close> and
  from \<open>SeekGE(key)\<close> by \<open>Next()\<close> until the position is no longer valid, and the value of
  \<open>Error()\<close> after that.  A call that returns \<open>false\<close> is an empty list.
\<close>

datatype get_result = Found bytes | NotFound | GetErr go_error

record iterator =
  it_First :: "kv list"
  it_Last :: "kv list"
  it_SeekGE :: "bytes \<Rightarrow> kv list"
  it_Error :: "go_error option"

record ('db, 'b) pebble_api =
  pb_get :: "'db \<Rightarrow> bytes \<Rightarrow> get_result"
  pb_iter :: "'db \<Rightarrow> bytes option \<Rightarrow> bytes option \<Rightarrow> iterator res"
  pb_new_batch :: "'db \<Rightarrow> 'b"
  pb_set :: "'b \<Rightarrow> bytes \<Rightarrow> bytes \<Rightarrow> 'b res"
  pb_commit :: "'db \<Rightarrow> 'b \<Rightarrow> 'db res"
  pb_close :: "'db \<Rightarrow> unit res"

text \<open>
  \<open>entries\<close> is the committed contents of a database, \<open>writes\<close> the sets of a batch in the order
  they were made.
\<close>

locale pebble =
  fixes P :: "('db, 'b) pebble_api"
    and entries :: "'db \<Rightarrow> kv list"
    and writes :: "'b \<Rightarrow> kv list"
  assumes entries_sorted: "kv_sorted (entries db)"
    and get_found: "pb_get P db k = Found v \<Longrightarrow> map_of (entries db) k = Some v"
    and get_not_found: "pb_get P db k = NotFound \<Longrightarrow> map_of (entries db) k = None"
    and iter_prefix: "pb_iter P db lb ub = Inr it \<Longrightarrow>
      prefix (it_First it) (kv_range lb ub (entries db))"
    and iter_first: "pb_iter P db lb ub = Inr it \<Longrightarrow> it_Error it = None \<Longrightarrow>
      it_First it = kv_range lb ub (entries db)"
    and iter_last: "pb_iter P db lb ub = Inr it \<Longrightarrow> it_Error it = None \<Longrightarrow>
      it_Last it = rev (kv_range lb ub (entries db))"
    and iter_seek: "pb_iter P db lb ub = Inr it \<Longrightarrow> it_Error it = None \<Longrightarrow>
      it_SeekGE it key = dropWhile (\<lambda>e. fst e < key) (kv_range lb ub (entries db))"
    and new_batch: "writes (pb_new_batch P db) = []"
    and set_writes: "pb_set P b k v = Inr b' \<Longrightarrow> writes b' = writes b @ [(k, v)]"
    and commit_entries: "pb_commit P db b = Inr db' \<Longrightarrow>
      entries db' = kv_puts (writes b) (entries db)"

locale pebble_reliable = pebble +
  assumes get_ok: "pb_get P db k \<noteq> GetErr e"
    and iter_ok: "\<exists>it. pb_iter P db lb ub = Inr it \<and> it_Error it = None"
    and set_ok: "\<exists>b'. pb_set P b k v = Inr b'"
    and commit_ok: "\<exists>db'. pb_commit P db b = Inr db'"
    and close_ok: "pb_close P db = Inr ()"
begin

lemma get_eq: "pb_get P db k = (case map_of (entries db) k of Some v \<Rightarrow> Found v | None \<Rightarrow> NotFound)"
  using get_found [of db k] get_not_found [of db k] get_ok [of db k]
  by (cases "pb_get P db k") auto

lemma iterE:
  obtains it where "pb_iter P db lb ub = Inr it" "it_Error it = None"
    "it_First it = kv_range lb ub (entries db)"
    "it_Last it = rev (kv_range lb ub (entries db))"
    "\<And>key. it_SeekGE it key = dropWhile (\<lambda>e. fst e < key) (kv_range lb ub (entries db))"
  using iter_ok [of db lb ub] iter_first iter_last iter_seek by metis

lemma setE:
  obtains b' where "pb_set P b k v = Inr b'" "writes b' = writes b @ [(k, v)]"
  using set_ok [of b k v] set_writes by blast

lemma commitE:
  obtains db' where "pb_commit P db b = Inr db'" "entries db' = kv_puts (writes b) (entries db)"
  using commit_ok [of db b] commit_entries by blast

end

section \<open>An in-memory instance\<close>

text \<open>
  The database is the log of the writes committed so far, a batch the list of its sets; the
  contents are the log replayed in order.
\<close>

definition mem_entries :: "kv list \<Rightarrow> kv list" where
  "mem_entries log = kv_puts log []"

definition mem_iterator :: "kv list \<Rightarrow> iterator" where
  "mem_iterator es = \<lparr>it_First = es, it_Last = rev es,
     it_SeekGE = (\<lambda>key. dropWhile (\<lambda>e. fst e < key) es), it_Error = None\<rparr>"

definition mem_pebble :: "(kv list, kv list) pebble_api" where
  "mem_pebble = \<lparr>
     pb_get = (\<lambda>db k. case map_of (mem_entries db) k of Some v \<Rightarrow> Found v | None \<Rightarrow> NotFound),
     pb_iter = (\<lambda>db lb ub. Inr (mem_iterator (kv_range lb ub (mem_entries db)))),
     pb_new_batch = (\<lambda>db. []),
     pb_set = (\<lambda>b k v. Inr (b @ [(k, v)])),
     pb_commit = (\<lambda>db b. Inr (db @ b)),
     pb_close = (\<lambda>db. Inr ())\<rparr>"

interpretation mem: pebble_reliable mem_pebble mem_entries "\<lambda>b. b"
  by unfold_locales
    (auto simp: mem_pebble_def mem_entries_def mem_iterator_def split: option.splits)

lemma mem_reliable: "pebble_reliable mem_pebble mem_entries (\<lambda>b. b)"
  by (rule mem.pebble_reliable_axioms)

end
