(* ===== verification/Encoders.thy ===== *)
theory Encoders
  imports Pebble
begin

text \<open>
  The key and value encodings of the index (\<open>dbpebble/prefixes.go\<close>, \<open>helpers.go\<close>,
  \<open>encoders.go\<close>).  After the code's functions come a typed view of the key space, one
  constructor per prefix, and the lemmas the store rests on: distinct index entries never share
  a key, and each pair of iterator bounds selects exactly the entries it is meant to, short of
  the one whose last field is all ones.
\<close>

section \<open>Sizes and prefixes\<close>

definition SizeHash :: nat where [simp]: "SizeHash = 32"
definition SizeTxid :: nat where [simp]: "SizeTxid = 32"
definition SizeHeight :: nat where [simp]: "SizeHeight = 4"
definition SizePos :: nat where [simp]: "SizePos = 4"
definition SizeVout :: nat where [simp]: "SizeVout = 4"
definition SizeTweak :: nat where [simp]: "SizeTweak = 33"
definition SizeAmt :: nat where [simp]: "SizeAmt = 8"
definition SizePubKey :: nat where [simp]: "SizePubKey = 32"

definition KBlockTx :: byte where [simp]: "KBlockTx = 0x01"
definition KTx :: byte where [simp]: "KTx = 0x02"
definition KOut :: byte where [simp]: "KOut = 0x03"
definition KSpend :: byte where [simp]: "KSpend = 0x04"
definition KCIHeight :: byte where [simp]: "KCIHeight = 0x05"
definition KCIBlock :: byte where [simp]: "KCIBlock = 0x06"
definition KTxOccur :: byte where [simp]: "KTxOccur = 0x07"
definition KComputeIndex :: byte where [simp]: "KComputeIndex = 0x0D"
definition KSpentOutputsShort :: byte where [simp]: "KSpentOutputsShort = 0x0E"
definition KTxidOutpoints :: byte where [simp]: "KTxidOutpoints = 0x0F"

section \<open>Keys and bounds\<close>

definition maxTxid :: bytes where
  "maxTxid = replicate SizeTxid 0xFF"

definition KeyBlockTx :: "bytes \<Rightarrow> u32 \<Rightarrow> bytes" where
  "KeyBlockTx blockHash pos = [KBlockTx] @ fit SizeHash blockHash @ put_be32 pos"

definition BoundsBlockTx :: "bytes \<Rightarrow> bytes \<times> bytes" where
  "BoundsBlockTx blockHash =
     ([KBlockTx] @ fit SizeHash blockHash @ replicate SizePos 0,
      [KBlockTx] @ fit SizeHash blockHash @ replicate SizePos 0xFF)"

definition KeyTx :: "bytes \<Rightarrow> bytes" where
  "KeyTx txid = [KTx] @ fit SizeTxid txid"

definition KeyTxOccur :: "bytes \<Rightarrow> bytes \<Rightarrow> bytes" where
  "KeyTxOccur txid blockHash = [KTxOccur] @ fit SizeTxid txid @ fit SizeHash blockHash"

definition KeyOut :: "bytes \<Rightarrow> u32 \<Rightarrow> bytes" where
  "KeyOut txid vout = [KOut] @ fit SizeTxid txid @ put_be32 vout"

definition BoundsOut :: "bytes \<Rightarrow> bytes \<times> bytes" where
  "BoundsOut txid =
     ([KOut] @ fit SizeTxid txid @ replicate SizeVout 0,
      [KOut] @ fit SizeTxid txid @ replicate SizeVout 0xFF)"

definition KeySpend :: "bytes \<Rightarrow> u32 \<Rightarrow> bytes \<Rightarrow> bytes" where
  "KeySpend prevTxid prevVout blockHash =
     [KSpend] @ fit SizeTxid prevTxid @ put_be32 prevVout @ fit SizeHash blockHash"

definition BoundsSpend :: "bytes \<Rightarrow> u32 \<Rightarrow> bytes \<times> bytes" where
  "BoundsSpend prevTxid prevVout =
     (let lb = [KSpend] @ fit SizeTxid prevTxid @ put_be32 prevVout @ replicate SizeHash 0;
          n = 1 + SizeTxid + SizeVout
      in (lb, take n lb @ replicate (length lb - n) 0xFF))"

definition KeyCIHeight :: "u32 \<Rightarrow> bytes" where
  "KeyCIHeight height = [KCIHeight] @ put_be32 height"

definition BoundsCIHeight :: "bytes \<times> bytes" where
  "BoundsCIHeight = ([KCIHeight] @ put_be32 0, [KCIHeight] @ put_be32 0xFFFFFFFF)"

definition KeyCIBlock :: "bytes \<Rightarrow> bytes" where
  "KeyCIBlock blockHash = [KCIBlock] @ fit SizeHash blockHash"

definition KeySpentOutputsShort :: "bytes \<Rightarrow> bytes" where
  "KeySpentOutputsShort blockhash = [KSpentOutputsShort] @ fit SizeHash blockhash"

definition KeyTxidOutpoints :: "bytes \<Rightarrow> bytes \<Rightarrow> bytes" where
  "KeyTxidOutpoints blockhash txid = [KTxidOutpoints] @ fit SizeHash blockhash @ fit SizeTxid txid"

definition BoundsTxidOutpoints :: "bytes \<Rightarrow> bytes \<times> bytes" where
  "BoundsTxidOutpoints blockhash =
     ([KTxidOutpoints] @ fit SizeHash blockhash @ replicate SizeTxid 0,
      [KTxidOutpoints] @ fit SizeHash blockhash @ replicate SizeTxid 0xFF)"

definition KeyComputeIndex :: "u32 \<Rightarrow> bytes \<Rightarrow> bytes" where
  "KeyComputeIndex height txid = [KComputeIndex] @ put_be32 height @ fit SizeTxid txid"

definition BoundsComputeIndex :: "u32 \<Rightarrow> u32 \<Rightarrow> bytes \<times> bytes" where
  "BoundsComputeIndex startHeight endHeight =
     ([KComputeIndex] @ put_be32 startHeight @ replicate SizeTxid 0,
      [KComputeIndex] @ put_be32 endHeight @ fit SizeTxid maxTxid)"

definition BoundsComputeIndexOneHeight :: "u32 \<Rightarrow> bytes \<times> bytes" where
  "BoundsComputeIndexOneHeight height =
     ([KComputeIndex] @ put_be32 height @ replicate SizeTxid 0,
      [KComputeIndex] @ put_be32 height @ fit SizeTxid maxTxid)"

lemmas key_defs = KeyBlockTx_def KeyTx_def KeyTxOccur_def KeyOut_def KeySpend_def
  KeyCIHeight_def KeyCIBlock_def KeySpentOutputsShort_def KeyTxidOutpoints_def
  KeyComputeIndex_def

section \<open>Values\<close>

definition ValTxTweak :: "bytes \<Rightarrow> bytes res" where
  "ValTxTweak tweak =
     (if length tweak \<noteq> SizeTweak then Inl (Err ''tweak must be 33 bytes'')
      else Inr (fit SizeTweak tweak))"

definition ValOut :: "u64 \<Rightarrow> bytes \<Rightarrow> bytes res" where
  "ValOut amount pubkey =
     (if length pubkey \<noteq> SizePubKey then Inl (Err ''pubkey must be 32 bytes (x-only)'')
      else Inr (put_le64 amount @ fit SizePubKey pubkey))"

definition ParseOutValue :: "bytes \<Rightarrow> (u64 \<times> bytes) res" where
  "ParseOutValue v =
     (if length v \<noteq> SizeAmt + SizePubKey then Inl (Err ''bad out value length'')
      else bindR (get_le64 (take SizeAmt v)) (\<lambda>amount.
           Inr (amount, fit SizePubKey (drop SizeAmt v))))"

text \<open>A nil public key is \<open>None\<close>; the nil value it yields is stored as the empty value.\<close>

definition ValSpend :: "bytes option \<Rightarrow> bytes res" where
  "ValSpend spendPub =
     (case spendPub of
        None \<Rightarrow> Inr []
      | Some pk \<Rightarrow>
          if length pk \<noteq> SizePubKey then Inl (Err ''spend pubkey must be 32 bytes'')
          else Inr (fit SizePubKey pk))"

text \<open>An outpoint, Go's \<open>[36]byte\<close>, is a byte string of length 36.\<close>

definition ValTxidOutpoints :: "bytes list \<Rightarrow> bytes res" where
  "ValTxidOutpoints outpoints =
     (if outpoints = [] then Inr []
      else Inr (concat (map (fit 36) outpoints)))"

definition ParseTxidOutpointsValue :: "bytes \<Rightarrow> bytes list res" where
  "ParseTxidOutpointsValue v =
     (if length v = 0 then Inr []
      else if length v mod 36 \<noteq> 0
      then Inl (Err ''bad txid outpoints value length - must be multiple of 36'')
      else Inr (chunks 36 v))"

section \<open>The typed key space\<close>

datatype db_key =
    DBlockTx bytes u32
  | DTx bytes
  | DOut bytes u32
  | DSpend bytes u32 bytes
  | DCIHeight u32
  | DCIBlock bytes
  | DTxOccur bytes bytes
  | DComputeIndex u32 bytes
  | DSpentOutputsShort bytes
  | DTxidOutpoints bytes bytes

fun enc_key :: "db_key \<Rightarrow> bytes" where
  "enc_key (DBlockTx h p) = KeyBlockTx h p"
| "enc_key (DTx t) = KeyTx t"
| "enc_key (DOut t v) = KeyOut t v"
| "enc_key (DSpend t v h) = KeySpend t v h"
| "enc_key (DCIHeight n) = KeyCIHeight n"
| "enc_key (DCIBlock h) = KeyCIBlock h"
| "enc_key (DTxOccur t h) = KeyTxOccur t h"
| "enc_key (DComputeIndex n t) = KeyComputeIndex n t"
| "enc_key (DSpentOutputsShort h) = KeySpentOutputsShort h"
| "enc_key (DTxidOutpoints h t) = KeyTxidOutpoints h t"

text \<open>Hashes and transaction ids of a well-formed key have 32 bytes.\<close>

fun wf_key :: "db_key \<Rightarrow> bool" where
  "wf_key (DBlockTx h p) = (length h = 32)"
| "wf_key (DTx t) = (length t = 32)"
| "wf_key (DOut t v) = (length t = 32)"
| "wf_key (DSpend t v h) = (length t = 32 \<and> length h = 32)"
| "wf_key (DCIHeight n) = True"
| "wf_key (DCIBlock h) = (length h = 32)"
| "wf_key (DTxOccur t h) = (length t = 32 \<and> length h = 32)"
| "wf_key (DComputeIndex n t) = (length t = 32)"
| "wf_key (DSpentOutputsShort h) = (length h = 32)"
| "wf_key (DTxidOutpoints h t) = (length h = 32 \<and> length t = 32)"

lemma enc_key_inj:
  assumes "wf_key a" and "wf_key b" and "enc_key a = enc_key b"
  shows "a = b"
  using assms by (cases a; cases b) (auto simp: key_defs)

lemma enc_key_eq_iff: "wf_key a \<Longrightarrow> wf_key b \<Longrightarrow> enc_key a = enc_key b \<longleftrightarrow> a = b"
  using enc_key_inj by blast

section \<open>What the bounds select\<close>

lemma field_bounds:
  assumes "length q = length p" and "length r = n"
  shows "p @ replicate n 0 \<le> q @ r \<and> q @ r < p @ replicate n 255 \<longleftrightarrow>
    q = p \<and> r \<noteq> replicate n (255 :: byte)"
proof (cases "q = p")
  case True
  then show ?thesis using zeros_le [OF assms(2)] less_ones_iff [OF assms(2)] by simp
next
  case False
  then have "p < q \<or> q < p" by auto
  then show ?thesis using False assms
    by (auto simp: append_less_iff le_less)
qed


definition within :: "bytes \<times> bytes \<Rightarrow> bytes \<Rightarrow> bool" where
  "within bounds k \<longleftrightarrow> fst bounds \<le> k \<and> k < snd bounds"

lemma in_bounds_within [simp]:
  "in_bounds (Some (fst bounds)) (Some (snd bounds)) k \<longleftrightarrow> within bounds k"
  by (simp add: within_def)

lemma Cons_bounds:
  fixes a b :: byte
  shows "a # x \<le> b # y \<and> b # y < a # z \<longleftrightarrow> a = b \<and> x \<le> y \<and> y < z"
  by auto

lemma put_be32_not_max: "put_be32 u \<noteq> replicate 4 255 \<longleftrightarrow> u \<noteq> 0xFFFFFFFF"
  by (simp only: put_be32_max put_be32_inj)

lemma within_BlockTx:
  assumes "length h = 32" and "wf_key dk"
  shows "within (BoundsBlockTx h) (enc_key dk) \<longleftrightarrow> (\<exists>p. dk = DBlockTx h p \<and> p \<noteq> 0xFFFFFFFF)"
proof (cases dk)
  case (DBlockTx h' p)
  then show ?thesis
    using field_bounds [of h' h "put_be32 p" 4] assms
    by (simp add: within_def BoundsBlockTx_def KeyBlockTx_def put_be32_not_max)
qed (use assms in \<open>simp_all add: within_def BoundsBlockTx_def key_defs\<close>)

lemma within_Out:
  assumes "length t = 32" and "wf_key dk"
  shows "within (BoundsOut t) (enc_key dk) \<longleftrightarrow> (\<exists>v. dk = DOut t v \<and> v \<noteq> 0xFFFFFFFF)"
proof (cases dk)
  case (DOut t' v)
  then show ?thesis
    using field_bounds [of t' t "put_be32 v" 4] assms
    by (simp add: within_def BoundsOut_def KeyOut_def put_be32_not_max)
qed (use assms in \<open>simp_all add: within_def BoundsOut_def key_defs\<close>)

lemma BoundsSpend_eq:
  "length t = 32 \<Longrightarrow> BoundsSpend t v =
     ((KSpend # t @ put_be32 v) @ replicate 32 0, (KSpend # t @ put_be32 v) @ replicate 32 255)"
  by (simp add: BoundsSpend_def)

lemma within_Spend:
  assumes "length t = 32" and "wf_key dk"
  shows "within (BoundsSpend t v) (enc_key dk) \<longleftrightarrow>
    (\<exists>h. dk = DSpend t v h \<and> h \<noteq> replicate 32 255)"
proof (cases dk)
  case (DSpend t' v' h)
  then have len: "length t' = 32" "length h = 32" using assms(2) by auto
  show ?thesis
    using field_bounds [of "t' @ put_be32 v'" "t @ put_be32 v" h 32] assms len
    by (auto simp: DSpend within_def BoundsSpend_eq KeySpend_def)
qed (use assms in \<open>simp_all add: within_def BoundsSpend_eq key_defs\<close>)

lemma within_CIHeight:
  assumes "wf_key dk"
  shows "within BoundsCIHeight (enc_key dk) \<longleftrightarrow> (\<exists>n. dk = DCIHeight n \<and> n \<noteq> 0xFFFFFFFF)"
proof (cases dk)
  case (DCIHeight n)
  have "(put_be32 0 \<le> put_be32 n \<and> put_be32 n < put_be32 0xFFFFFFFF) \<longleftrightarrow> n \<noteq> 0xFFFFFFFF"
    using less_ones_iff [of "put_be32 n" 4]
    by (auto simp: le_less put_be32_max word_neq_0_conv)
  then show ?thesis by (simp add: DCIHeight within_def BoundsCIHeight_def KeyCIHeight_def)
qed (use assms in \<open>simp_all add: within_def BoundsCIHeight_def key_defs\<close>)

lemma within_TxidOutpoints:
  assumes "length h = 32" and "wf_key dk"
  shows "within (BoundsTxidOutpoints h) (enc_key dk) \<longleftrightarrow>
    (\<exists>t. dk = DTxidOutpoints h t \<and> t \<noteq> replicate 32 255)"
proof (cases dk)
  case (DTxidOutpoints h' t)
  then show ?thesis
    using field_bounds [of h' h t 32] assms
    by (auto simp: within_def BoundsTxidOutpoints_def KeyTxidOutpoints_def)
qed (use assms in \<open>simp_all add: within_def BoundsTxidOutpoints_def key_defs\<close>)

lemma length_maxTxid [simp]: "length maxTxid = 32"
  by (simp add: maxTxid_def)

text \<open>
  The compute index is ordered by height, then by transaction id: the bounds of a range select
  the heights from the first to the last, both included, but for the all-ones id at the last.
\<close>

lemma within_ComputeIndex:
  assumes "wf_key dk"
  shows "within (BoundsComputeIndex a b) (enc_key dk) \<longleftrightarrow>
    (\<exists>n t. dk = DComputeIndex n t \<and> a \<le> n \<and> n \<le> b \<and> (n = b \<longrightarrow> t \<noteq> maxTxid))"
proof (cases dk)
  case (DComputeIndex n t)
  then have len: "length t = 32" using assms by simp
  have lo: "put_be32 a @ replicate 32 0 \<le> put_be32 n @ t \<longleftrightarrow> a \<le> n"
    using zeros_le [OF len] by (auto simp: le_less append_less_iff)
  have hi: "put_be32 n @ t < put_be32 b @ maxTxid \<longleftrightarrow> n \<le> b \<and> (n = b \<longrightarrow> t \<noteq> maxTxid)"
    using less_ones_iff [OF len] by (auto simp: le_less append_less_iff maxTxid_def)
  show ?thesis using lo hi len
    by (simp add: DComputeIndex within_def BoundsComputeIndex_def KeyComputeIndex_def)
qed (use assms in \<open>simp_all add: within_def BoundsComputeIndex_def key_defs\<close>)

lemma BoundsComputeIndexOneHeight_eq:
  "BoundsComputeIndexOneHeight n = BoundsComputeIndex n n"
  by (simp add: BoundsComputeIndexOneHeight_def BoundsComputeIndex_def)

lemmas within_simps = within_BlockTx within_Out within_Spend within_CIHeight
  within_TxidOutpoints within_ComputeIndex

text \<open>An iterator opened on a whole prefix, \<open>[K, K+1)\<close>.\<close>

lemma within_prefix:
  assumes "wf_key dk"
  shows "within ([KOut], [KOut + 1]) (enc_key dk) \<longleftrightarrow> (\<exists>t v. dk = DOut t v)"
    and "within ([KTx], [KTx + 1]) (enc_key dk) \<longleftrightarrow> (\<exists>t. dk = DTx t)"
  using assms by (cases dk; simp add: within_def key_defs)+

section \<open>Round trips of the values\<close>

lemma ParseOutValue_ValOut: "ValOut a pk = Inr v \<Longrightarrow> ParseOutValue v = Inr (a, pk)"
  by (auto simp: ValOut_def ParseOutValue_def split: if_splits)

lemma ValOut_ParseOutValue: "ParseOutValue v = Inr (a, pk) \<Longrightarrow> ValOut a pk = Inr v"
proof -
  assume A: "ParseOutValue v = Inr (a, pk)"
  then have len: "length v = 40" by (simp add: ParseOutValue_def split: if_splits)
  let ?x = "rev (take 8 v)"
  from A len have a: "a = of_nat (nat_be ?x)" and pk: "pk = drop 8 v"
    by (auto simp: ParseOutValue_def get_le64_def)
  have "nat_be ?x < 2 ^ 64" using nat_be_less [of ?x] len by simp
  then have "unat a = nat_be ?x" by (simp add: a unat_of_nat)
  then have "put_le64 a = take 8 v"
    using be_nat_nat_be [of ?x] len by (simp add: put_le64_def)
  then show ?thesis using len by (simp add: ValOut_def pk)
qed

lemma ParseTxidOutpoints_Val:
  assumes "\<forall>x \<in> set ops. length x = 36"
  shows "bindR (ValTxidOutpoints ops) ParseTxidOutpointsValue = Inr ops"
proof (cases "ops = []")
  case True
  then show ?thesis by (simp add: ValTxidOutpoints_def ParseTxidOutpointsValue_def)
next
  case False
  have m: "map (fit 36) ops = ops" using assms by (simp add: map_idI)
  have len: "length (concat ops) = 36 * length ops"
    using assms by (induction ops) auto
  then have "concat ops \<noteq> []" using False by (metis length_0_conv mult_is_0 zero_neq_numeral)
  then show ?thesis using False len assms
    by (simp add: ValTxidOutpoints_def ParseTxidOutpointsValue_def m chunks_concat)
qed

end
