(* ===== verification/Database.thy ===== *)
theory Database
  imports Encoders
begin

text \<open>
  The data exchanged with the database (\<open>database/specifications.go\<close>), the flat
  serialisation of an output (\<open>database/serialisations.go\<close>) and the compute-index record with
  its key and value (\<open>dbpebble/compute_index.go\<close>).  Pointers that the code never leaves nil are
  plain values; the ones it tests for nil are options.
\<close>

section \<open>Records\<close>

record TweakRow =
  row_Txid :: bytes
  row_Tweak :: bytes

record Output =
  out_Txid :: bytes
  out_Vout :: u32
  out_Amount :: u64
  out_Pubkey :: bytes

record In =
  in_SpendTxid :: bytes
  in_Idx :: u32
  in_PrevTxid :: bytes
  in_PrevVout :: u32
  in_Pubkey :: "bytes option"

record Tx =
  tx_Txid :: bytes
  tx_Tweak :: "bytes option"
  tx_Outs :: "Output list"
  tx_Ins :: "In list"

record DBBlock =
  blk_Height :: u32
  blk_Hash :: bytes
  blk_Txs :: "Tx option list"

section \<open>Flat serialisation of an output\<close>

definition OutputBinLength :: nat where [simp]: "OutputBinLength = 32 + 4 + 8 + 32"

definition BinarySerialisation :: "Output \<Rightarrow> bytes" where
  "BinarySerialisation o' =
     fit 32 (out_Txid o') @ put_le32 (out_Vout o') @ put_le64 (out_Amount o') @
     fit 32 (out_Pubkey o')"

definition BinaryDeSerialisation :: "bytes \<Rightarrow> Output res" where
  "BinaryDeSerialisation inp =
     (if length inp < OutputBinLength then Inl (Panic ''index out of range'')
      else bindR (get_le32 (take 4 (drop 32 inp))) (\<lambda>vout.
           bindR (get_le64 (take 8 (drop 36 inp))) (\<lambda>amount.
           Inr \<lparr>out_Txid = fit 32 (take 32 inp), out_Vout = vout, out_Amount = amount,
                out_Pubkey = fit 32 (take 32 (drop 44 inp))\<rparr>)))"

definition wf_output :: "Output \<Rightarrow> bool" where
  "wf_output o' \<longleftrightarrow> length (out_Txid o') = 32 \<and> length (out_Pubkey o') = 32"

lemma length_BinarySerialisation: "length (BinarySerialisation o') = OutputBinLength"
  by (simp add: BinarySerialisation_def)

lemma BinarySerialisation_roundtrip:
  "wf_output o' \<Longrightarrow> BinaryDeSerialisation (BinarySerialisation o' @ rest) = Inr o'"
  by (simp add: wf_output_def BinarySerialisation_def BinaryDeSerialisation_def)

section \<open>The compute index record\<close>

record ComputeIndex =
  ci_TxId :: bytes
  ci_Height :: u32
  ci_Tweak :: bytes
  ci_OutputsShort :: "bytes list"

definition ci_SerialiseKey :: "ComputeIndex \<Rightarrow> bytes" where
  "ci_SerialiseKey c = KeyComputeIndex (ci_Height c) (ci_TxId c)"

definition ci_SerialiseData :: "ComputeIndex \<Rightarrow> bytes" where
  "ci_SerialiseData c = fit SizeTweak (ci_Tweak c) @ concat (map (fit 8) (ci_OutputsShort c))"

text \<open>
  \<open>pb.ComputeIndexTxItem\<close>, the message a stored entry is decoded to.  The byte reversal
  \<open>utils.ReverseBytes\<close> belongs to a library outside the repository and is a parameter.
\<close>

record ComputeIndexTxItem =
  cit_Txid :: bytes
  cit_Tweak :: bytes
  cit_OutputsShort :: bytes

definition DeserialiseComputeIndexToProto ::
    "(bytes \<Rightarrow> bytes) \<Rightarrow> bytes \<Rightarrow> bytes \<Rightarrow> ComputeIndexTxItem res" where
  "DeserialiseComputeIndexToProto ReverseBytes key val =
     (if length key < 1 + SizeHeight then Inl (Panic ''slice bounds out of range'')
      else if length val < SizeTweak then Inl (Panic ''slice bounds out of range'')
      else Inr \<lparr>cit_Txid = ReverseBytes (drop (1 + SizeHeight) key),
                cit_Tweak = take SizeTweak val, cit_OutputsShort = drop SizeTweak val\<rparr>)"

lemma ComputeIndex_roundtrip:
  assumes "length (ci_TxId c) = 32" and "length (ci_Tweak c) = 33"
    and "\<forall>x \<in> set (ci_OutputsShort c). length x = 8"
  shows "DeserialiseComputeIndexToProto R (ci_SerialiseKey c) (ci_SerialiseData c) =
    Inr \<lparr>cit_Txid = R (ci_TxId c), cit_Tweak = ci_Tweak c,
         cit_OutputsShort = concat (ci_OutputsShort c)\<rparr>"
proof -
  have "map (fit 8) (ci_OutputsShort c) = ci_OutputsShort c"
    using assms(3) by (simp add: map_idI)
  then show ?thesis using assms(1,2)
    by (simp add: DeserialiseComputeIndexToProto_def ci_SerialiseKey_def ci_SerialiseData_def
        KeyComputeIndex_def)
qed

end
