(* ===== verification/Block_Store.thy ===== *)
theory Block_Store
  imports Database "HOL-Library.AList"
begin

text \<open>
  The write path of the index (\<open>dbpebble/store.go\<close>): what one block puts into a batch, and the
  state machine of the active batch, the background commits and the final close.  The locks and
  atomics of the code make each method one step; the only concurrency left is that of the
  background commits, which are modelled as the list of batches still to be committed.
\<close>

section \<open>Writing to a batch\<close>

text \<open>
  A batch is changed in place: a computation returns its result, or an error, and the batch it
  leaves.
\<close>

type_synonym ('b, 'a) batchM = "'b \<Rightarrow> 'a res \<times> 'b"

definition retB :: "'a \<Rightarrow> ('b, 'a) batchM" where
  "retB a = (\<lambda>b. (Inr a, b))"

definition liftB :: "'a res \<Rightarrow> ('b, 'a) batchM" where
  "liftB r = (\<lambda>b. (r, b))"

definition bindB :: "('b, 'a) batchM \<Rightarrow> ('a \<Rightarrow> ('b, 'c) batchM) \<Rightarrow> ('b, 'c) batchM" where
  "bindB m f = (\<lambda>b. case m b of (Inl e, b') \<Rightarrow> (Inl e, b') | (Inr a, b') \<Rightarrow> f a b')"

definition setB :: "('db, 'b) pebble_api \<Rightarrow> bytes \<Rightarrow> bytes \<Rightarrow> ('b, unit) batchM" where
  "setB P k v = (\<lambda>b. case pb_set P b k v of Inl e \<Rightarrow> (Inl e, b) | Inr b' \<Rightarrow> (Inr (), b'))"

text \<open>\<open>in.Pubkey[:8]\<close> and the conversion \<open>[32]byte(t.Txid)\<close> panic on a slice that is too short.\<close>

definition short8 :: "bytes option \<Rightarrow> bytes res" where
  "short8 pk =
     (case pk of
        None \<Rightarrow> Inl (Panic ''slice bounds out of range'')
      | Some p \<Rightarrow> if length p < 8 then Inl (Panic ''slice bounds out of range'')
                  else Inr (take 8 p))"

definition toArray32 :: "bytes \<Rightarrow> bytes res" where
  "toArray32 t =
     (if length t < 32 then Inl (Panic ''cannot convert slice to array'') else Inr (take 32 t))"

text \<open>The loop over the inputs: one spend entry per input, and the short form of its key.\<close>

fun attachIns :: "('db, 'b) pebble_api \<Rightarrow> bytes \<Rightarrow> In list \<Rightarrow> ('b, bytes list) batchM" where
  "attachIns P blockHash [] = retB []"
| "attachIns P blockHash (i # ins) =
     bindB (liftB (ValSpend (in_Pubkey i))) (\<lambda>val.
     bindB (setB P (KeySpend (in_PrevTxid i) (in_PrevVout i) blockHash) val) (\<lambda>_.
     bindB (liftB (short8 (in_Pubkey i))) (\<lambda>outputShort.
     bindB (attachIns P blockHash ins) (\<lambda>rest. retB (outputShort # rest)))))"

fun attachOuts :: "('db, 'b) pebble_api \<Rightarrow> Output list \<Rightarrow> ('b, bytes list) batchM" where
  "attachOuts P [] = retB []"
| "attachOuts P (o' # outs) =
     bindB (liftB (ValOut (out_Amount o') (out_Pubkey o'))) (\<lambda>val.
     bindB (setB P (KeyOut (out_Txid o') (out_Vout o')) val) (\<lambda>_.
     bindB (liftB (short8 (Some (out_Pubkey o')))) (\<lambda>newOut.
     bindB (attachOuts P outs) (\<lambda>rest. retB (newOut # rest)))))"

definition attachTweak ::
    "('db, 'b) pebble_api \<Rightarrow> u32 \<Rightarrow> Tx \<Rightarrow> ('b, unit) batchM" where
  "attachTweak P height t =
     (case tx_Tweak t of
        None \<Rightarrow> retB ()
      | Some tweak \<Rightarrow>
          bindB (liftB (ValTxTweak tweak)) (\<lambda>val.
          bindB (setB P (KeyTx (tx_Txid t)) val) (\<lambda>_.
          bindB (attachOuts P (tx_Outs t)) (\<lambda>newOutsShort.
          let computeIndex = \<lparr>ci_TxId = tx_Txid t, ci_Height = height, ci_Tweak = tweak,
                              ci_OutputsShort = newOutsShort\<rparr>
          in setB P (ci_SerialiseKey computeIndex) (ci_SerialiseData computeIndex)))))"

definition outpoint :: "In \<Rightarrow> bytes" where
  "outpoint i = fit 32 (in_PrevTxid i) @ put_be32 (in_PrevVout i)"

text \<open>
  What the loop over the transactions collects: the short keys of all spent outputs and Go's map
  from transaction id to outpoints.  Go iterates a map in an unspecified order; the entries have
  distinct keys, so the order has no effect on what is stored.
\<close>

type_synonym attach_acc = "bytes list \<times> (bytes \<times> bytes list) list"

definition attachTx ::
    "('db, 'b) pebble_api \<Rightarrow> bytes \<Rightarrow> u32 \<Rightarrow> nat \<Rightarrow> Tx \<Rightarrow> attach_acc \<Rightarrow> ('b, attach_acc) batchM" where
  "attachTx P blockHash height i t = (\<lambda>(spent, opmap).
     bindB (setB P (KeyBlockTx blockHash (of_nat i)) (tx_Txid t)) (\<lambda>_.
     bindB (setB P (KeyTxOccur (tx_Txid t) blockHash) []) (\<lambda>_.
     bindB (attachIns P blockHash (tx_Ins t)) (\<lambda>txSpentsShort.
     bindB (attachTweak P height t) (\<lambda>_.
     let txOutpoints = map outpoint (tx_Ins t)
     in if length txOutpoints > 0
        then bindB (liftB (toArray32 (tx_Txid t))) (\<lambda>txid.
             retB (spent @ txSpentsShort, AList.update txid txOutpoints opmap))
        else retB (spent @ txSpentsShort, opmap))))))"

fun attachTxs ::
    "('db, 'b) pebble_api \<Rightarrow> bytes \<Rightarrow> u32 \<Rightarrow> nat \<Rightarrow> Tx option list \<Rightarrow> attach_acc
     \<Rightarrow> ('b, attach_acc) batchM" where
  "attachTxs P blockHash height i [] acc = retB acc"
| "attachTxs P blockHash height i (None # txs) acc =
     attachTxs P blockHash height (Suc i) txs acc"
| "attachTxs P blockHash height i (Some t # txs) acc =
     bindB (attachTx P blockHash height i t acc) (attachTxs P blockHash height (Suc i) txs)"

fun attachOutpoints ::
    "('db, 'b) pebble_api \<Rightarrow> bytes \<Rightarrow> (bytes \<times> bytes list) list \<Rightarrow> ('b, unit) batchM" where
  "attachOutpoints P blockHash [] = retB ()"
| "attachOutpoints P blockHash ((txid, outpoints) # m) =
     bindB (liftB (ValTxidOutpoints outpoints)) (\<lambda>val.
     bindB (setB P (KeyTxidOutpoints blockHash txid) val) (\<lambda>_.
     attachOutpoints P blockHash m))"

definition attachBlockToBatch ::
    "('db, 'b) pebble_api \<Rightarrow> DBBlock \<Rightarrow> ('b, unit) batchM" where
  "attachBlockToBatch P block =
     (let blockHash = blk_Hash block; txs = blk_Txs block; height = blk_Height block
      in bindB (setB P (KeyCIHeight height) blockHash) (\<lambda>_.
         bindB (setB P (KeyCIBlock blockHash) (put_be32 height)) (\<lambda>_.
         bindB (attachTxs P blockHash height 0 txs ([], [])) (\<lambda>(spentOutputsShort, opmap).
         bindB (if length spentOutputsShort > 0
                then setB P (KeySpentOutputsShort blockHash)
                       (concat (map (fit 8) spentOutputsShort))
                else setB P (KeySpentOutputsShort blockHash) []) (\<lambda>_.
         attachOutpoints P blockHash opmap)))))"

section \<open>The store\<close>

record ('db, 'b) Store =
  st_DB :: "'db"
  dbBatch :: "'b option"
  batchCounter :: int
  batchSize :: int
  maxPendingCommits :: int
  pending :: "'b list"
  closed :: bool

definition NewStore :: "('db, 'b) pebble_api \<Rightarrow> 'db \<Rightarrow> ('db, 'b) Store" where
  "NewStore P db = \<lparr>st_DB = db, dbBatch = Some (pb_new_batch P db), batchCounter = 0,
     batchSize = 200, maxPendingCommits = 10, pending = [], closed = False\<rparr>"

definition BatchSize :: "('db, 'b) Store \<Rightarrow> int" where
  "BatchSize s = batchCounter s"

definition rotateLocked ::
    "('db, 'b) pebble_api \<Rightarrow> ('db, 'b) Store \<Rightarrow> 'b option \<times> ('db, 'b) Store" where
  "rotateLocked P s =
     (dbBatch s, s\<lparr>dbBatch := Some (pb_new_batch P (st_DB s)), batchCounter := 0\<rparr>)"

text \<open>A commit that fails is logged with \<open>Panic\<close>, which ends the process.\<close>

definition closeOldBatch :: "('db, 'b) pebble_api \<Rightarrow> 'b option \<Rightarrow> 'db \<Rightarrow> 'db res" where
  "closeOldBatch P old db =
     (case old of
        None \<Rightarrow> Inl (Panic ''invalid memory address or nil pointer dereference'')
      | Some b \<Rightarrow> (case pb_commit P db b of
            Inl e \<Rightarrow> Inl (Panic ''failed to write Batch'')
          | Inr db' \<Rightarrow> Inr db'))"

fun drain :: "('db, 'b) pebble_api \<Rightarrow> 'b list \<Rightarrow> 'db \<Rightarrow> 'db res" where
  "drain P [] db = Inr db"
| "drain P (b # bs) db = bindR (closeOldBatch P (Some b) db) (drain P bs)"

definition WaitForPendingCommits ::
    "('db, 'b) pebble_api \<Rightarrow> ('db, 'b) Store \<Rightarrow> unit res \<times> ('db, 'b) Store" where
  "WaitForPendingCommits P s =
     (case drain P (pending s) (st_DB s) of
        Inl e \<Rightarrow> (Inl e, s)
      | Inr db \<Rightarrow> (Inr (), s\<lparr>st_DB := db, pending := []\<rparr>))"

text \<open>The commit of the code is \<open>oldBatch.Commit(pebble.NoSync)\<close>: the entries are readable from then on,
  and what a crash leaves of them is not a matter of this model.\<close>

definition commitBatch ::
    "('db, 'b) pebble_api \<Rightarrow> bool \<Rightarrow> ('db, 'b) Store \<Rightarrow> unit res \<times> ('db, 'b) Store" where
  "commitBatch P sync s =
     (if closed s then (Inr (), s)
      else case (if int (length (pending s)) \<ge> maxPendingCommits s
                 then WaitForPendingCommits P s else (Inr (), s)) of
             (Inl e, s1) \<Rightarrow> (Inl e, s1)
           | (Inr _, s1) \<Rightarrow>
               (let (oldBatch, s2) = rotateLocked P s1
                in if sync
                   then (case closeOldBatch P oldBatch (st_DB s2) of
                           Inl e \<Rightarrow> (Inl e, s2)
                         | Inr db \<Rightarrow> (Inr (), s2\<lparr>st_DB := db\<rparr>))
                   else (case oldBatch of
                           None \<Rightarrow> (Inl (Panic ''nil pointer dereference''), s2)
                         | Some b \<Rightarrow> (Inr (), s2\<lparr>pending := pending s2 @ [b]\<rparr>))))"

definition FlushBatch ::
    "('db, 'b) pebble_api \<Rightarrow> bool \<Rightarrow> ('db, 'b) Store \<Rightarrow> unit res \<times> ('db, 'b) Store" where
  "FlushBatch P sync s =
     (if batchCounter s = 0 then (Inr (), s) else commitBatch P sync s)"

definition Store_attachBlockToBatch ::
    "('db, 'b) pebble_api \<Rightarrow> DBBlock \<Rightarrow> ('db, 'b) Store \<Rightarrow> unit res \<times> ('db, 'b) Store" where
  "Store_attachBlockToBatch P block s =
     (case dbBatch s of
        None \<Rightarrow> (Inl (Panic ''nil pointer dereference''), s)
      | Some b \<Rightarrow> (case attachBlockToBatch P block b of (r, b') \<Rightarrow> (r, s\<lparr>dbBatch := Some b'\<rparr>)))"

definition collectAndWrite ::
    "('db, 'b) pebble_api \<Rightarrow> DBBlock \<Rightarrow> ('db, 'b) Store \<Rightarrow> unit res \<times> ('db, 'b) Store" where
  "collectAndWrite P block s =
     (let s1 = (if dbBatch s = None then s\<lparr>dbBatch := Some (pb_new_batch P (st_DB s))\<rparr> else s);
          s2 = s1\<lparr>batchCounter := batchCounter s1 + 1\<rparr>;
          shouldCommit = batchCounter s2 > batchSize s2
      in case (if shouldCommit then commitBatch P False s2 else (Inr (), s2)) of
           (Inl e, s3) \<Rightarrow> (Inl e, s3)
         | (Inr _, s3) \<Rightarrow> Store_attachBlockToBatch P block s3)"

definition ApplyBlock ::
    "('db, 'b) pebble_api \<Rightarrow> DBBlock \<Rightarrow> ('db, 'b) Store \<Rightarrow> unit res \<times> ('db, 'b) Store" where
  "ApplyBlock P block s = collectAndWrite P block s"

definition Close ::
    "('db, 'b) pebble_api \<Rightarrow> ('db, 'b) Store \<Rightarrow> unit res \<times> ('db, 'b) Store" where
  "Close P s =
     (case WaitForPendingCommits P (s\<lparr>closed := True\<rparr>) of
        (Inl e, s1) \<Rightarrow> (Inl e, s1)
      | (Inr _, s1) \<Rightarrow>
          (case FlushBatch P True s1 of
             (Inl e, s2) \<Rightarrow> (Inl e, s2)
           | (Inr _, s2) \<Rightarrow> (pb_close P (st_DB s2), s2)))"


section \<open>What a block puts\<close>

text \<open>
  The entries of a block, stated without the batch: first the chain index in both directions,
  then per transaction its position, its occurrence, its spends and, if it has a tweak, the
  tweak, its outputs and its compute-index entry; last the short forms of the spent outputs and
  the outpoints of each transaction.
\<close>

type_synonym put = "db_key \<times> bytes"

definition in_put :: "bytes \<Rightarrow> In \<Rightarrow> put" where
  "in_put h i = (DSpend (in_PrevTxid i) (in_PrevVout i) h, the (in_Pubkey i))"

definition out_put :: "Output \<Rightarrow> put" where
  "out_put o' = (DOut (out_Txid o') (out_Vout o'), put_le64 (out_Amount o') @ out_Pubkey o')"

definition outs_short :: "Tx \<Rightarrow> bytes list" where
  "outs_short t = map (\<lambda>o'. take 8 (out_Pubkey o')) (tx_Outs t)"

definition tweak_puts :: "u32 \<Rightarrow> Tx \<Rightarrow> put list" where
  "tweak_puts height t =
     (case tx_Tweak t of
        None \<Rightarrow> []
      | Some tw \<Rightarrow> (DTx (tx_Txid t), tw) # map out_put (tx_Outs t) @
                   [(DComputeIndex height (tx_Txid t), tw @ concat (outs_short t))])"

definition tx_puts :: "bytes \<Rightarrow> u32 \<Rightarrow> nat \<Rightarrow> Tx \<Rightarrow> put list" where
  "tx_puts h height i t =
     [(DBlockTx h (of_nat i), tx_Txid t), (DTxOccur (tx_Txid t) h, [])] @
     map (in_put h) (tx_Ins t) @ tweak_puts height t"

text \<open>The transactions of a block with their positions; a nil transaction has none.\<close>

fun positions :: "nat \<Rightarrow> Tx option list \<Rightarrow> (nat \<times> Tx) list" where
  "positions i [] = []"
| "positions i (None # txs) = positions (Suc i) txs"
| "positions i (Some t # txs) = (i, t) # positions (Suc i) txs"

definition spent_short :: "Tx \<Rightarrow> bytes list" where
  "spent_short t = map (\<lambda>i. take 8 (the (in_Pubkey i))) (tx_Ins t)"

fun add_outpoints :: "(bytes \<times> bytes list) list \<Rightarrow> Tx \<Rightarrow> (bytes \<times> bytes list) list" where
  "add_outpoints m t =
     (if tx_Ins t = [] then m else AList.update (tx_Txid t) (map outpoint (tx_Ins t)) m)"

definition block_txs :: "DBBlock \<Rightarrow> (nat \<times> Tx) list" where
  "block_txs blk = positions 0 (blk_Txs blk)"

definition block_spent_short :: "DBBlock \<Rightarrow> bytes list" where
  "block_spent_short blk = concat (map (\<lambda>(i, t). spent_short t) (block_txs blk))"

definition block_outpoints :: "DBBlock \<Rightarrow> (bytes \<times> bytes list) list" where
  "block_outpoints blk = foldl add_outpoints [] (map snd (block_txs blk))"

definition block_puts :: "DBBlock \<Rightarrow> put list" where
  "block_puts blk =
     [(DCIHeight (blk_Height blk), blk_Hash blk),
      (DCIBlock (blk_Hash blk), put_be32 (blk_Height blk))] @
     concat (map (\<lambda>(i, t). tx_puts (blk_Hash blk) (blk_Height blk) i t) (block_txs blk)) @
     [(DSpentOutputsShort (blk_Hash blk), concat (block_spent_short blk))] @
     map (\<lambda>(t, ops). (DTxidOutpoints (blk_Hash blk) t, concat ops)) (block_outpoints blk)"

definition enc_put :: "put \<Rightarrow> kv" where
  "enc_put p = (enc_key (fst p), snd p)"

lemma enc_put_pair [simp]: "enc_put (k, v) = (enc_key k, v)"
  by (simp add: enc_put_def)

lemma enc_in_put:
  "enc_put (in_put h i) = (KeySpend (in_PrevTxid i) (in_PrevVout i) h, the (in_Pubkey i))"
  by (simp add: in_put_def)

lemma enc_out_put:
  "enc_put (out_put o') =
     (KeyOut (out_Txid o') (out_Vout o'), put_le64 (out_Amount o') @ out_Pubkey o')"
  by (simp add: out_put_def)

text \<open>
  The blocks the indexer hands over: hashes, transaction ids and keys have the right length, there
  are fewer than \<open>2^32\<close> positions, and no field has the largest value of its width.
\<close>

definition hash_ok :: "bytes \<Rightarrow> bool" where
  "hash_ok h \<longleftrightarrow> length h = 32 \<and> h \<noteq> replicate 32 0xFF"

definition wf_in :: "In \<Rightarrow> bool" where
  "wf_in i \<longleftrightarrow> length (in_PrevTxid i) = 32 \<and> (\<exists>pk. in_Pubkey i = Some pk \<and> length pk = 32)"

definition wf_tx :: "Tx \<Rightarrow> bool" where
  "wf_tx t \<longleftrightarrow> hash_ok (tx_Txid t) \<and> list_all wf_in (tx_Ins t) \<and>
     list_all (\<lambda>o'. wf_output o' \<and> out_Txid o' = tx_Txid t \<and> out_Vout o' \<noteq> 0xFFFFFFFF) (tx_Outs t) \<and>
     (\<forall>tw. tx_Tweak t = Some tw \<longrightarrow> length tw = 33)"

definition wf_block :: "DBBlock \<Rightarrow> bool" where
  "wf_block blk \<longleftrightarrow> hash_ok (blk_Hash blk) \<and> blk_Height blk \<noteq> 0xFFFFFFFF \<and>
     length (blk_Txs blk) < 2 ^ 32 \<and> list_all (\<lambda>(i, t). wf_tx t) (block_txs blk)"

lemma wf_tx_lengths:
  assumes "wf_tx t"
  shows "length (tx_Txid t) = 32" "list_all wf_in (tx_Ins t)" "list_all wf_output (tx_Outs t)"
  using assms by (auto simp: wf_tx_def hash_ok_def list_all_iff)

lemma wf_block_hash [simp]: "wf_block blk \<Longrightarrow> length (blk_Hash blk) = 32"
  by (simp add: wf_block_def hash_ok_def)

section \<open>Attaching a block writes exactly its puts\<close>

text \<open>A computation that always succeeds with result \<open>a\<close> and appends \<open>ws\<close> to the batch.\<close>

definition emits :: "('b \<Rightarrow> kv list) \<Rightarrow> ('b, 'a) batchM \<Rightarrow> kv list \<Rightarrow> 'a \<Rightarrow> bool" where
  "emits writes m ws a \<longleftrightarrow> (\<forall>b. \<exists>b'. m b = (Inr a, b') \<and> writes b' = writes b @ ws)"

lemma emits_ret: "emits W (retB a) [] a"
  by (simp add: emits_def retB_def)

lemma emits_lift: "r = Inr a \<Longrightarrow> emits W (liftB r) [] a"
  by (simp add: emits_def liftB_def)

lemma emits_bind:
  assumes "emits W m ws a" and "emits W (f a) ws' c" and "vs = ws @ ws'"
  shows "emits W (bindB m f) vs c"
  unfolding emits_def
proof
  fix b
  from assms(1) obtain b1 where b1: "m b = (Inr a, b1)" "W b1 = W b @ ws"
    unfolding emits_def by blast
  from assms(2) obtain b2 where "f a b1 = (Inr c, b2)" "W b2 = W b1 @ ws'"
    unfolding emits_def by blast
  then show "\<exists>b'. bindB m f b = (Inr c, b') \<and> W b' = W b @ vs"
    using b1 assms(3) by (simp add: bindB_def)
qed

lemma bindB_lift [simp]: "bindB (liftB (Inr a)) f = f a"
  by (simp add: bindB_def liftB_def)

lemma bindB_ret [simp]: "bindB (retB a) f = f a"
  by (simp add: bindB_def retB_def)

context pebble_reliable
begin

lemma emits_set: "emits writes (setB P k v) [(k, v)] ()"
  unfolding emits_def
proof
  fix b
  obtain b' where "pb_set P b k v = Inr b'" "writes b' = writes b @ [(k, v)]" by (rule setE)
  then show "\<exists>b'. setB P k v b = (Inr (), b') \<and> writes b' = writes b @ [(k, v)]"
    by (simp add: setB_def)
qed

lemma emits_set_bind:
  assumes "emits writes (f ()) ws c"
  shows "emits writes (bindB (setB P k v) f) ((k, v) # ws) c"
  by (rule emits_bind [OF emits_set [of k v]]) (use assms in simp_all)

lemma emits_attachIns:
  "list_all wf_in ins \<Longrightarrow>
   emits writes (attachIns P h ins) (map enc_put (map (in_put h) ins))
     (map (\<lambda>i. take 8 (the (in_Pubkey i))) ins)"
proof (induction ins)
  case Nil
  then show ?case by (simp add: emits_ret)
next
  case (Cons i ins)
  then obtain pk where pk: "in_Pubkey i = Some pk" "length pk = 32"
    by (auto simp: wf_in_def)
  have v: "ValSpend (in_Pubkey i) = Inr pk" "short8 (in_Pubkey i) = Inr (take 8 pk)"
    using pk by (simp_all add: ValSpend_def short8_def)
  have r: "emits writes (bindB (attachIns P h ins) (\<lambda>rest. retB (take 8 pk # rest)))
      (map enc_put (map (in_put h) ins))
      (take 8 pk # map (\<lambda>i. take 8 (the (in_Pubkey i))) ins)"
    by (rule emits_bind [OF _ emits_ret]) (use Cons in simp_all)
  show ?case
    using pk v r by (simp add: enc_in_put emits_set_bind)
qed

lemma emits_attachOuts:
  "list_all wf_output outs \<Longrightarrow>
   emits writes (attachOuts P outs) (map enc_put (map out_put outs))
     (map (\<lambda>o'. take 8 (out_Pubkey o')) outs)"
proof (induction outs)
  case Nil
  then show ?case by (simp add: emits_ret)
next
  case (Cons o' outs)
  then have pk: "length (out_Pubkey o') = 32" by (simp add: wf_output_def)
  have v: "ValOut (out_Amount o') (out_Pubkey o') = Inr (put_le64 (out_Amount o') @ out_Pubkey o')"
    "short8 (Some (out_Pubkey o')) = Inr (take 8 (out_Pubkey o'))"
    using pk by (simp_all add: ValOut_def short8_def)
  have r: "emits writes (bindB (attachOuts P outs) (\<lambda>rest. retB (take 8 (out_Pubkey o') # rest)))
      (map enc_put (map out_put outs))
      (take 8 (out_Pubkey o') # map (\<lambda>o'. take 8 (out_Pubkey o')) outs)"
    by (rule emits_bind [OF _ emits_ret]) (use Cons in simp_all)
  show ?case
    using v r by (simp add: enc_out_put emits_set_bind)
qed

lemma emits_attachTweak:
  assumes "wf_tx t"
  shows "emits writes (attachTweak P height t) (map enc_put (tweak_puts height t)) ()"
proof (cases "tx_Tweak t")
  case None
  then show ?thesis by (simp add: attachTweak_def tweak_puts_def emits_ret)
next
  case (Some tw)
  have len: "length tw = 33" "length (tx_Txid t) = 32" "list_all wf_output (tx_Outs t)"
    using assms Some wf_tx_lengths [OF assms] by (auto simp: wf_tx_def)
  have v: "ValTxTweak tw = Inr tw" using len by (simp add: ValTxTweak_def)
  have s: "map (fit 8) (outs_short t) = outs_short t"
    using len(3) by (auto simp: outs_short_def list_all_iff wf_output_def intro!: map_idI)
  let ?ci = "\<lparr>ci_TxId = tx_Txid t, ci_Height = height, ci_Tweak = tw,
      ci_OutputsShort = outs_short t\<rparr>"
  have c: "[(ci_SerialiseKey ?ci, ci_SerialiseData ?ci)] =
      map enc_put [(DComputeIndex height (tx_Txid t), tw @ concat (outs_short t))]"
    using len s by (simp add: ci_SerialiseKey_def ci_SerialiseData_def)
  have "emits writes (bindB (attachOuts P (tx_Outs t)) (\<lambda>newOutsShort.
       let computeIndex = \<lparr>ci_TxId = tx_Txid t, ci_Height = height, ci_Tweak = tw,
                           ci_OutputsShort = newOutsShort\<rparr>
       in setB P (ci_SerialiseKey computeIndex) (ci_SerialiseData computeIndex)))
     (map enc_put (map out_put (tx_Outs t) @
        [(DComputeIndex height (tx_Txid t), tw @ concat (outs_short t))])) ()"
    unfolding map_append c [symmetric] Let_def
    by (rule emits_bind [OF emits_attachOuts [OF len(3)] emits_set])
       (simp add: outs_short_def)
  then show ?thesis
    by (simp add: attachTweak_def tweak_puts_def Some v emits_set_bind)
qed

lemma emits_attachTx:
  assumes "wf_tx t"
  shows "emits writes (attachTx P h height i t (spent, opmap))
    (map enc_put (tx_puts h height i t)) (spent @ spent_short t, add_outpoints opmap t)"
proof -
  have w: "list_all wf_in (tx_Ins t)" "toArray32 (tx_Txid t) = Inr (tx_Txid t)"
    using wf_tx_lengths [OF assms] by (simp_all add: toArray32_def)
  let ?fin = "let txOutpoints = map outpoint (tx_Ins t)
     in if length txOutpoints > 0
        then bindB (liftB (toArray32 (tx_Txid t))) (\<lambda>txid.
             retB (spent @ spent_short t, AList.update txid txOutpoints opmap))
        else retB (spent @ spent_short t, opmap)"
  have fin: "?fin = retB (spent @ spent_short t, add_outpoints opmap t)"
    using w(2) by (simp add: Let_def)
  have "emits writes (bindB (attachTweak P height t) (\<lambda>_. ?fin))
      (map enc_put (tweak_puts height t)) (spent @ spent_short t, add_outpoints opmap t)"
    unfolding fin by (rule emits_bind [OF emits_attachTweak [OF assms] emits_ret]) simp
  then have "emits writes (bindB (attachIns P h (tx_Ins t)) (\<lambda>txSpentsShort.
      bindB (attachTweak P height t) (\<lambda>_.
      let txOutpoints = map outpoint (tx_Ins t)
      in if length txOutpoints > 0
         then bindB (liftB (toArray32 (tx_Txid t))) (\<lambda>txid.
              retB (spent @ txSpentsShort, AList.update txid txOutpoints opmap))
         else retB (spent @ txSpentsShort, opmap))))
      (map enc_put (map (in_put h) (tx_Ins t)) @ map enc_put (tweak_puts height t))
      (spent @ spent_short t, add_outpoints opmap t)"
    unfolding spent_short_def
    by (rule emits_bind [OF emits_attachIns [OF w(1)]]) (rule refl)
  then show ?thesis
    unfolding attachTx_def tx_puts_def prod.case
    by (simp add: emits_set_bind)
qed

lemma emits_attachTxs:
  "list_all (\<lambda>(i, t). wf_tx t) (positions i txs) \<Longrightarrow>
   emits writes (attachTxs P h height i txs (spent, opmap))
     (map enc_put (concat (map (\<lambda>(i, t). tx_puts h height i t) (positions i txs))))
     (spent @ concat (map (\<lambda>(i, t). spent_short t) (positions i txs)),
      foldl add_outpoints opmap (map snd (positions i txs)))"
proof (induction i txs arbitrary: spent opmap rule: positions.induct)
  case (1 i)
  then show ?case by (simp add: emits_ret)
next
  case (2 i txs)
  then show ?case by simp
next
  case (3 i t txs)
  then have w: "wf_tx t" by simp
  note IH = "3.IH" [of "spent @ spent_short t" "add_outpoints opmap t"]
  show ?case unfolding attachTxs.simps
    by (rule emits_bind [OF emits_attachTx [OF w]]) (use 3 IH in simp_all)
qed

lemma emits_attachOutpoints:
  "\<forall>e \<in> set m. \<forall>x \<in> set (snd e). length x = 36 \<Longrightarrow>
   emits writes (attachOutpoints P h m)
     (map enc_put (map (\<lambda>(t, ops). (DTxidOutpoints h t, concat ops)) m)) ()"
proof (induction m)
  case Nil
  then show ?case by (simp add: emits_ret)
next
  case (Cons x m)
  obtain t ops where x: "x = (t, ops)" by (cases x)
  have "map (fit 36) ops = ops" using Cons.prems x by (auto intro!: map_idI)
  then have v: "ValTxidOutpoints ops = Inr (concat ops)" by (simp add: ValTxidOutpoints_def)
  show ?case using Cons by (simp add: x v emits_set_bind)
qed

end

lemma length_outpoint [simp]: "length (outpoint i) = 36"
  by (simp add: outpoint_def)

lemma set_alist_update: "set (AList.update k v al) \<subseteq> insert (k, v) (set al)"
  by (induction al) auto

lemma add_outpoints_width:
  assumes "\<forall>e \<in> set m. \<forall>x \<in> set (snd e). length x = 36"
  shows "\<forall>e \<in> set (add_outpoints m t'). \<forall>x \<in> set (snd e). length x = 36"
proof (cases "tx_Ins t' = []")
  case False
  have "x \<in> insert (tx_Txid t', map outpoint (tx_Ins t')) (set m)"
    if "x \<in> set (add_outpoints m t')" for x
    using that False set_alist_update [of "tx_Txid t'" "map outpoint (tx_Ins t')" m] by auto
  then show ?thesis using assms by fastforce
qed (use assms in simp)

lemma foldl_outpoints_width:
  "\<forall>e \<in> set m. \<forall>x \<in> set (snd e). length x = 36 \<Longrightarrow>
   \<forall>e \<in> set (foldl add_outpoints m ts). \<forall>x \<in> set (snd e). length x = 36"
proof (induction ts arbitrary: m)
  case (Cons t ts)
  show ?case using Cons.IH [OF add_outpoints_width [OF Cons.prems]]
    by (simp del: add_outpoints.simps)
qed simp

context pebble_reliable
begin

lemma emits_attachBlock:
  assumes "wf_block blk"
  shows "emits writes (attachBlockToBatch P blk) (map enc_put (block_puts blk)) ()"
proof -
  let ?h = "blk_Hash blk" and ?n = "blk_Height blk"
  let ?sp = "block_spent_short blk" and ?om = "block_outpoints blk"
  have w: "list_all (\<lambda>(i, t). wf_tx t) (positions 0 (blk_Txs blk))"
    using assms by (simp add: wf_block_def block_txs_def)
  have "\<forall>x \<in> set ?sp. length x = 8"
    using w by (fastforce simp: block_spent_short_def block_txs_def spent_short_def list_all_iff
        wf_tx_def wf_in_def)
  then have f8: "map (fit 8) ?sp = ?sp" by (simp add: map_idI)
  have om: "emits writes (attachOutpoints P ?h ?om)
      (map enc_put (map (\<lambda>(t, ops). (DTxidOutpoints ?h t, concat ops)) ?om)) ()"
    unfolding block_outpoints_def
    by (rule emits_attachOutpoints [OF foldl_outpoints_width]) simp
  note om' = om [unfolded map_map]
  have sp: "(if ?sp \<noteq> [] then setB P (KeySpentOutputsShort ?h) (concat (map (fit 8) ?sp))
       else setB P (KeySpentOutputsShort ?h) []) = setB P (KeySpentOutputsShort ?h) (concat ?sp)"
    by (simp add: f8)
  note txs = emits_attachTxs [OF w, of ?h ?n "[]" "[]", unfolded append_Nil,
      folded block_txs_def, folded block_spent_short_def block_outpoints_def]
  show ?thesis unfolding attachBlockToBatch_def Let_def block_puts_def
    by (simp, intro emits_set_bind, rule emits_bind [OF txs])
       (simp_all add: sp f8 emits_set_bind om')
qed

lemma attachBlock_ok:
  assumes "wf_block blk"
  obtains b' where "attachBlockToBatch P blk b = (Inr (), b')"
    "writes b' = writes b @ map enc_put (block_puts blk)"
  using emits_attachBlock [OF assms] unfolding emits_def by blast

end


section \<open>The batches of the store\<close>

text \<open>
  A run of the store: blocks are applied one after the other by the single writer, the batch is
  flushed now and then, and at any point one of the background commits may finish.  The list
  records the blocks applied.
\<close>

inductive store_run ::
    "('db, 'b) pebble_api \<Rightarrow> 'db \<Rightarrow> ('db, 'b) Store \<Rightarrow> DBBlock list \<Rightarrow> bool"
  for P :: "('db, 'b) pebble_api" and db0 :: 'db where
  start: "store_run P db0 (NewStore P db0) []"
| apply_block: "store_run P db0 s bs \<Longrightarrow> ApplyBlock P blk s = (Inr (), s') \<Longrightarrow>
     store_run P db0 s' (bs @ [blk])"
| flush: "store_run P db0 s bs \<Longrightarrow> FlushBatch P sync s = (Inr (), s') \<Longrightarrow>
     store_run P db0 s' bs"
| background: "store_run P db0 s bs \<Longrightarrow> pending s = xs @ b # ys \<Longrightarrow>
     closeOldBatch P (Some b) (st_DB s) = Inr db' \<Longrightarrow>
     store_run P db0 (s\<lparr>st_DB := db', pending := xs @ ys\<rparr>) bs"

definition batch_bounds :: "('db, 'b) Store \<Rightarrow> bool" where
  "batch_bounds s \<longleftrightarrow> dbBatch s \<noteq> None \<and> \<not> closed s \<and> batchSize s = 200 \<and>
     maxPendingCommits s = 10 \<and> length (pending s) \<le> 10 \<and>
     0 \<le> batchCounter s \<and> batchCounter s \<le> 200"

lemma WaitForPendingCommits_frame:
  assumes "WaitForPendingCommits P s = (Inr (), s')"
  shows "\<exists>db. drain P (pending s) (st_DB s) = Inr db \<and> s' = s\<lparr>st_DB := db, pending := []\<rparr>"
  using assms by (auto simp: WaitForPendingCommits_def split: sum.splits)

text \<open>What a successful commit leaves: the batch has moved to the database or to the background.\<close>

lemma commitBatch_cases:
  assumes "commitBatch P sync s = (Inr (), s')" and "\<not> closed s"
  obtains db ps b where
    "(db = st_DB s \<and> ps = pending s \<and> int (length (pending s)) < maxPendingCommits s) \<or>
     (drain P (pending s) (st_DB s) = Inr db \<and> ps = [])"
    and "dbBatch s = Some b"
    and "if sync
         then (\<exists>db'. closeOldBatch P (Some b) db = Inr db' \<and>
                s' = s\<lparr>st_DB := db', pending := ps, dbBatch := Some (pb_new_batch P db),
                       batchCounter := 0\<rparr>)
         else s' = s\<lparr>st_DB := db, pending := ps @ [b], dbBatch := Some (pb_new_batch P db),
                     batchCounter := 0\<rparr>"
proof -
  define r where "r = (if int (length (pending s)) \<ge> maxPendingCommits s
    then WaitForPendingCommits P s else (Inr (), s))"
  obtain r1 s1 where r1: "r = (r1, s1)" by (cases r)
  have c: "commitBatch P sync s = (case r of (Inl e, s1) \<Rightarrow> (Inl e, s1)
           | (Inr _, s1) \<Rightarrow>
               (let (oldBatch, s2) = rotateLocked P s1
                in if sync
                   then (case closeOldBatch P oldBatch (st_DB s2) of
                           Inl e \<Rightarrow> (Inl e, s2)
                         | Inr db \<Rightarrow> (Inr (), s2\<lparr>st_DB := db\<rparr>))
                   else (case oldBatch of
                           None \<Rightarrow> (Inl (Panic ''nil pointer dereference''), s2)
                         | Some b \<Rightarrow> (Inr (), s2\<lparr>pending := pending s2 @ [b]\<rparr>))))"
    using assms(2) by (simp add: commitBatch_def r_def)
  with assms(1) r1 have rr: "r1 = Inr ()" by (auto split: sum.splits)
  then have "\<exists>db ps. s1 = s\<lparr>st_DB := db, pending := ps\<rparr> \<and>
    ((db = st_DB s \<and> ps = pending s \<and> int (length (pending s)) < maxPendingCommits s) \<or>
     (drain P (pending s) (st_DB s) = Inr db \<and> ps = []))"
  proof (cases "int (length (pending s)) \<ge> maxPendingCommits s")
    case True
    then show ?thesis using r1 rr WaitForPendingCommits_frame [of P s s1] by (auto simp: r_def)
  next
    case False
    then have "s1 = s\<lparr>st_DB := st_DB s, pending := pending s\<rparr>" using r1 by (simp add: r_def)
    with False show ?thesis by fastforce
  qed
  then obtain db ps where s1: "s1 = s\<lparr>st_DB := db, pending := ps\<rparr>" and
    db: "(db = st_DB s \<and> ps = pending s \<and> int (length (pending s)) < maxPendingCommits s) \<or>
     (drain P (pending s) (st_DB s) = Inr db \<and> ps = [])" by blast
  have c': "commitBatch P sync s = (if sync
       then (case closeOldBatch P (dbBatch s) db of
               Inl e \<Rightarrow> (Inl e, snd (rotateLocked P s1))
             | Inr db' \<Rightarrow> (Inr (), (snd (rotateLocked P s1))\<lparr>st_DB := db'\<rparr>))
       else (case dbBatch s of
               None \<Rightarrow> (Inl (Panic ''nil pointer dereference''), snd (rotateLocked P s1))
             | Some b \<Rightarrow> (Inr (), (snd (rotateLocked P s1))\<lparr>pending := ps @ [b]\<rparr>)))"
    unfolding c r1 rr s1 rotateLocked_def by (simp split: sum.split option.split)
  obtain b where b: "dbBatch s = Some b"
    using assms(1) c' by (cases "dbBatch s") (auto simp: closeOldBatch_def split: if_splits)
  show thesis
    by (rule that [OF db b])
       (use assms(1) c' b s1 in \<open>auto simp: rotateLocked_def split: sum.splits\<close>)
qed

lemma commitBatch_bounds:
  assumes "commitBatch P sync s = (Inr (), s')" and "\<not> closed s" and "length (pending s) \<le> 10"
    and "maxPendingCommits s = 10" and "batchSize s = 200"
  shows "batch_bounds s' \<and> batchCounter s' = 0"
proof -
  obtain db ps b where c:
    "(db = st_DB s \<and> ps = pending s \<and> int (length (pending s)) < maxPendingCommits s) \<or>
     (drain P (pending s) (st_DB s) = Inr db \<and> ps = [])"
    "if sync
     then (\<exists>db'. closeOldBatch P (Some b) db = Inr db' \<and>
            s' = s\<lparr>st_DB := db', pending := ps, dbBatch := Some (pb_new_batch P db),
                   batchCounter := 0\<rparr>)
     else s' = s\<lparr>st_DB := db, pending := ps @ [b], dbBatch := Some (pb_new_batch P db),
                 batchCounter := 0\<rparr>"
    by (rule commitBatch_cases [OF assms(1,2)])
  then have "length ps < 10" using assms(4) by auto
  with c(2) assms show ?thesis by (cases sync) (auto simp: batch_bounds_def)
qed

text \<open>A block that is applied: the counter is raised, the batch rotated if it is full, and the
  block written to the batch that is active then.\<close>

lemma ApplyBlock_cases:
  assumes "ApplyBlock P blk s = (Inr (), s')" and "dbBatch s = Some b0"
  obtains s1 b b' where
    "if batchCounter s + 1 > batchSize s
     then commitBatch P False (s\<lparr>batchCounter := batchCounter s + 1\<rparr>) = (Inr (), s1)
     else s1 = s\<lparr>batchCounter := batchCounter s + 1\<rparr>"
    and "dbBatch s1 = Some b" and "attachBlockToBatch P blk b = (Inr (), b')"
    and "s' = s1\<lparr>dbBatch := Some b'\<rparr>"
proof -
  let ?s2 = "s\<lparr>batchCounter := batchCounter s + 1\<rparr>"
  define r where "r = (if batchCounter s + 1 > batchSize s then commitBatch P False ?s2
    else (Inr (), ?s2))"
  obtain r1 s1 where r1: "r = (r1, s1)" by (cases r)
  have c: "ApplyBlock P blk s = (case r of (Inl e, s3) \<Rightarrow> (Inl e, s3)
      | (Inr _, s3) \<Rightarrow> Store_attachBlockToBatch P blk s3)"
    using assms(2) by (simp add: ApplyBlock_def collectAndWrite_def r_def)
  with assms(1) r1 have rr: "r1 = Inr ()" by (auto split: sum.splits)
  then have "Store_attachBlockToBatch P blk s1 = (Inr (), s')" using assms(1) c r1 by simp
  then obtain b b' where "dbBatch s1 = Some b" "attachBlockToBatch P blk b = (Inr (), b')"
    "s' = s1\<lparr>dbBatch := Some b'\<rparr>"
    by (auto simp: Store_attachBlockToBatch_def split: option.splits prod.splits)
  with r1 rr show thesis by (intro that) (auto simp: r_def split: if_splits)
qed

lemma ApplyBlock_bounds:
  assumes "ApplyBlock P blk s = (Inr (), s')" and "batch_bounds s"
  shows "batch_bounds s'"
proof -
  obtain b0 where "dbBatch s = Some b0" using assms(2) by (auto simp: batch_bounds_def)
  with assms(1) obtain s1 b b' where c:
    "if batchCounter s + 1 > batchSize s
     then commitBatch P False (s\<lparr>batchCounter := batchCounter s + 1\<rparr>) = (Inr (), s1)
     else s1 = s\<lparr>batchCounter := batchCounter s + 1\<rparr>"
    "s' = s1\<lparr>dbBatch := Some b'\<rparr>" by (rule ApplyBlock_cases)
  have "batch_bounds s1"
  proof (cases "batchCounter s + 1 > batchSize s")
    case True
    then show ?thesis
      using c(1) assms(2) commitBatch_bounds [of P False "s\<lparr>batchCounter := batchCounter s + 1\<rparr>" s1]
      by (simp add: batch_bounds_def)
  next
    case False
    then show ?thesis using c(1) assms(2) by (simp add: batch_bounds_def)
  qed
  then show ?thesis by (simp add: c(2) batch_bounds_def)
qed

lemma FlushBatch_bounds:
  assumes "FlushBatch P sync s = (Inr (), s')" and "batch_bounds s"
  shows "batch_bounds s'"
  using assms commitBatch_bounds [of P sync s s']
  by (auto simp: FlushBatch_def batch_bounds_def split: if_splits)

lemma store_run_bounds: "store_run P db0 s bs \<Longrightarrow> batch_bounds s"
proof (induction rule: store_run.induct)
  case start
  then show ?case by (simp add: NewStore_def batch_bounds_def)
next
  case (apply_block s bs blk s')
  then show ?case by (blast intro: ApplyBlock_bounds)
next
  case (flush s bs sync s')
  then show ?case by (blast intro: FlushBatch_bounds)
next
  case (background s bs xs b ys db')
  then show ?case by (simp add: batch_bounds_def)
qed

section \<open>No write is lost\<close>

text \<open>
  Everything the store holds: the committed entries, the batches whose commit is under way and
  the active batch.
\<close>

definition held :: "('db \<Rightarrow> kv list) \<Rightarrow> ('b \<Rightarrow> kv list) \<Rightarrow> ('db, 'b) Store \<Rightarrow> kv set" where
  "held entries writes s = set (entries (st_DB s)) \<union> (\<Union>b \<in> set (pending s). set (writes b)) \<union>
     (case dbBatch s of None \<Rightarrow> {} | Some b \<Rightarrow> set (writes b))"

definition all_puts :: "DBBlock list \<Rightarrow> kv set" where
  "all_puts bs = (\<Union>blk \<in> set bs. set (map enc_put (block_puts blk)))"

lemma single_enc_puts:
  assumes "list_all (\<lambda>p. wf_key (fst p)) ps" and "distinct (map fst ps)"
  shows "single (set (map enc_put ps))"
  unfolding single_def
proof (intro allI impI)
  fix k v v'
  assume "(k, v) \<in> set (map enc_put ps)" and "(k, v') \<in> set (map enc_put ps)"
  then obtain p q where pq: "p \<in> set ps" "q \<in> set ps" "k = enc_key (fst p)" "v = snd p"
    "k = enc_key (fst q)" "v' = snd q" by (auto simp: enc_put_def)
  then have "fst p = fst q" using assms(1) enc_key_inj by (auto simp: list_all_iff)
  then have "p = q" using assms(2) pq(1,2) by (simp add: distinct_map inj_on_def)
  then show "v = v'" using pq by simp
qed

lemma all_puts_snoc [simp]:
  "all_puts (bs @ [blk]) = all_puts bs \<union> set (map enc_put (block_puts blk))"
  by (auto simp: all_puts_def)

context pebble_reliable
begin

lemma closeOldBatch_entries:
  assumes "closeOldBatch P (Some b) db = Inr db'"
    and "single (set (entries db) \<union> set (writes b))"
  shows "set (entries db') = set (entries db) \<union> set (writes b)"
  using assms commit_entries [of db b db'] entries_sorted [of db] set_kv_puts
  by (auto simp: closeOldBatch_def split: sum.splits)

lemma closeOldBatch_ok: "\<exists>db'. closeOldBatch P (Some b) db = Inr db'"
  using commit_ok [of db b] by (auto simp: closeOldBatch_def)

lemma drain_entries:
  "drain P bs db = Inr db' \<Longrightarrow> single (set (entries db) \<union> (\<Union>b \<in> set bs. set (writes b))) \<Longrightarrow>
   set (entries db') = set (entries db) \<union> (\<Union>b \<in> set bs. set (writes b))"
proof (induction bs arbitrary: db)
  case Nil
  then show ?case by simp
next
  case (Cons b bs)
  then obtain d where d: "closeOldBatch P (Some b) db = Inr d" "drain P bs d = Inr db'" by auto
  have e: "set (entries d) = set (entries db) \<union> set (writes b)"
    by (rule closeOldBatch_entries [OF d(1)], rule single_subset [OF Cons.prems(2)]) auto
  have "single (set (entries d) \<union> (\<Union>b \<in> set bs. set (writes b)))"
    using Cons.prems(2) by (simp add: e Un_assoc)
  from Cons.IH [OF d(2) this] show ?case by (simp add: e Un_assoc)
qed

lemma drain_ok: "\<exists>db'. drain P bs db = Inr db'"
proof (induction bs arbitrary: db)
  case (Cons b bs)
  obtain d where "closeOldBatch P (Some b) db = Inr d" using closeOldBatch_ok by blast
  then show ?case using Cons.IH [of d] by simp
qed simp

lemma commitBatch_held:
  assumes "commitBatch P sync s = (Inr (), s')" and "\<not> closed s"
    and "single (held entries writes s)"
  shows "held entries writes s' = held entries writes s"
proof -
  obtain db ps b where c:
    "(db = st_DB s \<and> ps = pending s \<and> int (length (pending s)) < maxPendingCommits s) \<or>
     (drain P (pending s) (st_DB s) = Inr db \<and> ps = [])"
    "dbBatch s = Some b"
    "if sync
     then (\<exists>db'. closeOldBatch P (Some b) db = Inr db' \<and>
            s' = s\<lparr>st_DB := db', pending := ps, dbBatch := Some (pb_new_batch P db),
                   batchCounter := 0\<rparr>)
     else s' = s\<lparr>st_DB := db, pending := ps @ [b], dbBatch := Some (pb_new_batch P db),
                 batchCounter := 0\<rparr>"
    by (rule commitBatch_cases [OF assms(1,2)])
  let ?W = "\<lambda>bs. \<Union>b \<in> set bs. set (writes b)"
  have h: "held entries writes s = set (entries (st_DB s)) \<union> ?W (pending s) \<union> set (writes b)"
    using c(2) by (simp add: held_def)
  have "drain P (pending s) (st_DB s) = Inr db \<Longrightarrow>
      set (entries db) = set (entries (st_DB s)) \<union> ?W (pending s)"
    using assms(3) h by (intro drain_entries) (auto elim: single_subset)
  then have e: "set (entries db) \<union> ?W ps = set (entries (st_DB s)) \<union> ?W (pending s)"
    using c(1) by auto
  show ?thesis
  proof (cases sync)
    case True
    then obtain db' where s': "closeOldBatch P (Some b) db = Inr db'"
      "s' = s\<lparr>st_DB := db', pending := ps, dbBatch := Some (pb_new_batch P db),
                   batchCounter := 0\<rparr>" using c(3) by auto
    have "set (entries db') = set (entries db) \<union> set (writes b)"
      by (rule closeOldBatch_entries [OF s'(1)], rule single_subset [OF assms(3)])
         (use h e in auto)
    then show ?thesis unfolding h using e by (auto simp: s'(2) held_def new_batch)
  next
    case False
    then show ?thesis unfolding h using c(3) e by (auto simp: held_def new_batch)
  qed
qed

text \<open>Without the agreement of the writes, a commit still never invents an entry.\<close>

lemma closeOldBatch_subset:
  "closeOldBatch P (Some b) db = Inr db' \<Longrightarrow> set (entries db') \<subseteq> set (entries db) \<union> set (writes b)"
  using commit_entries [of db b db'] set_kv_puts_subset [OF entries_sorted [of db], of "writes b"]
  by (auto simp: closeOldBatch_def split: sum.splits)

lemma drain_subset:
  "drain P bs db = Inr db' \<Longrightarrow>
   set (entries db') \<subseteq> set (entries db) \<union> (\<Union>b \<in> set bs. set (writes b))"
proof (induction bs arbitrary: db)
  case (Cons b bs)
  then obtain d where "closeOldBatch P (Some b) db = Inr d" "drain P bs d = Inr db'" by auto
  then show ?case using Cons.IH [of d] closeOldBatch_subset [of b db d] by auto
qed simp

lemma commitBatch_subset:
  assumes "commitBatch P sync s = (Inr (), s')" and "\<not> closed s"
  shows "held entries writes s' \<subseteq> held entries writes s"
proof -
  obtain db ps b where c:
    "(db = st_DB s \<and> ps = pending s \<and> int (length (pending s)) < maxPendingCommits s) \<or>
     (drain P (pending s) (st_DB s) = Inr db \<and> ps = [])"
    "dbBatch s = Some b"
    "if sync
     then (\<exists>db'. closeOldBatch P (Some b) db = Inr db' \<and>
            s' = s\<lparr>st_DB := db', pending := ps, dbBatch := Some (pb_new_batch P db),
                   batchCounter := 0\<rparr>)
     else s' = s\<lparr>st_DB := db, pending := ps @ [b], dbBatch := Some (pb_new_batch P db),
                 batchCounter := 0\<rparr>"
    by (rule commitBatch_cases [OF assms])
  have "set (entries db) \<union> (\<Union>b \<in> set ps. set (writes b)) \<union> set (writes b)
      \<subseteq> held entries writes s"
    using c(1,2) drain_subset [of "pending s" "st_DB s" db] by (auto simp: held_def)
  then show ?thesis using c(3) closeOldBatch_subset [of b db]
    by (cases sync) (fastforce simp: held_def new_batch)+
qed

lemma commitBatch_ok:
  assumes "dbBatch s = Some b"
  shows "\<exists>s'. commitBatch P sync s = (Inr (), s')"
proof -
  obtain d where d: "drain P (pending s) (st_DB s) = Inr d" using drain_ok by blast
  have "\<exists>db'. pb_commit P (st_DB s) b = Inr db'" "\<exists>db'. pb_commit P d b = Inr db'"
    using commit_ok by blast+
  then show ?thesis using assms d
    by (auto simp: commitBatch_def WaitForPendingCommits_def rotateLocked_def closeOldBatch_def)
qed

lemma ApplyBlock_rotated:
  assumes "ApplyBlock P blk s = (Inr (), s')" and "batch_bounds s" and "wf_block blk"
  obtains s0 s1 where "s1 = s0 \<or> commitBatch P False s0 = (Inr (), s1)"
    and "held entries writes s0 = held entries writes s" and "\<not> closed s0"
    and "held entries writes s' = held entries writes s1 \<union> set (map enc_put (block_puts blk))"
proof -
  let ?s = "s\<lparr>batchCounter := batchCounter s + 1\<rparr>"
  obtain b0 where "dbBatch s = Some b0" using assms(2) by (auto simp: batch_bounds_def)
  with assms(1) obtain s1 b b' where c:
    "if batchCounter s + 1 > batchSize s
     then commitBatch P False ?s = (Inr (), s1) else s1 = ?s"
    "dbBatch s1 = Some b" "attachBlockToBatch P blk b = (Inr (), b')"
    "s' = s1\<lparr>dbBatch := Some b'\<rparr>" by (rule ApplyBlock_cases)
  obtain b'' where "attachBlockToBatch P blk b = (Inr (), b'')"
    "writes b'' = writes b @ map enc_put (block_puts blk)"
    by (rule attachBlock_ok [OF assms(3)])
  then have "held entries writes s' = held entries writes s1 \<union> set (map enc_put (block_puts blk))"
    using c by (auto simp: held_def)
  moreover have "held entries writes ?s = held entries writes s" "\<not> closed ?s"
    using assms(2) by (simp_all add: held_def batch_bounds_def)
  ultimately show thesis using c(1) by (intro that [of s1 ?s]) (auto split: if_splits)
qed

lemma ApplyBlock_held:
  assumes "ApplyBlock P blk s = (Inr (), s')" and "batch_bounds s" and "wf_block blk"
    and "single (held entries writes s)"
  shows "held entries writes s' = held entries writes s \<union> set (map enc_put (block_puts blk))"
  by (rule ApplyBlock_rotated [OF assms(1-3)]) (use assms(4) commitBatch_held in fastforce)

lemma ApplyBlock_subset:
  assumes "ApplyBlock P blk s = (Inr (), s')" and "batch_bounds s" and "wf_block blk"
  shows "held entries writes s' \<subseteq> held entries writes s \<union> set (map enc_put (block_puts blk))"
  by (rule ApplyBlock_rotated [OF assms(1-3)]) (use commitBatch_subset in fastforce)

lemma store_run_subset:
  "store_run P db0 s bs \<Longrightarrow> list_all wf_block bs \<Longrightarrow>
   held entries writes s \<subseteq> set (entries db0) \<union> all_puts bs"
proof (induction rule: store_run.induct)
  case start
  then show ?case by (simp add: NewStore_def held_def new_batch all_puts_def)
next
  case (apply_block s bs blk s')
  then show ?case
    using ApplyBlock_subset [OF apply_block.hyps(2) store_run_bounds [OF apply_block.hyps(1)]]
    by fastforce
next
  case (flush s bs sync s')
  then show ?case using commitBatch_subset [of sync s s'] store_run_bounds [OF flush.hyps(1)]
    by (fastforce simp: FlushBatch_def batch_bounds_def split: if_splits)
next
  case (background s bs xs b ys db')
  have "set (entries db') \<subseteq> set (entries (st_DB s)) \<union> set (writes b)"
    by (rule closeOldBatch_subset [OF background.hyps(3)])
  then have "held entries writes (s\<lparr>st_DB := db', pending := xs @ ys\<rparr>) \<subseteq> held entries writes s"
    using background.hyps(2) by (auto simp: held_def)
  then show ?case using background by blast
qed

lemma ApplyBlock_ok:
  assumes "dbBatch s = Some b" and "wf_block blk"
  shows "\<exists>s'. ApplyBlock P blk s = (Inr (), s')"
proof -
  let ?s = "s\<lparr>batchCounter := batchCounter s + 1\<rparr>"
  obtain s1 where s1: "commitBatch P False ?s = (Inr (), s1)"
    using commitBatch_ok [of ?s b False] assms(1) by auto
  have a: "\<exists>s'. Store_attachBlockToBatch P blk t = (Inr (), s')" if n: "dbBatch t \<noteq> None" for t
  proof -
    obtain b1 where b1: "dbBatch t = Some b1" using n by auto
    obtain b2 where "attachBlockToBatch P blk b1 = (Inr (), b2)"
      by (rule attachBlock_ok [OF assms(2)])
    then show ?thesis by (simp add: Store_attachBlockToBatch_def b1)
  qed
  have "dbBatch s1 \<noteq> None"
  proof (cases "closed ?s")
    case True
    then show ?thesis using s1 assms(1) by (auto simp: commitBatch_def)
  next
    case False
    then show ?thesis by (rule commitBatch_cases [OF s1]) (auto split: if_splits)
  qed
  then show ?thesis using a [of s1] a [of ?s] s1 assms(1)
    by (auto simp: ApplyBlock_def collectAndWrite_def Let_def)
qed

lemma store_run_held:
  "store_run P db0 s bs \<Longrightarrow> list_all wf_block bs \<Longrightarrow> single (set (entries db0) \<union> all_puts bs) \<Longrightarrow>
   held entries writes s = set (entries db0) \<union> all_puts bs"
proof (induction rule: store_run.induct)
  case start
  then show ?case by (simp add: NewStore_def held_def new_batch all_puts_def)
next
  case (apply_block s bs blk s')
  have "single (set (entries db0) \<union> all_puts bs)"
    using apply_block.prems(2) by (rule single_subset) auto
  then have h: "held entries writes s = set (entries db0) \<union> all_puts bs"
    using apply_block.IH apply_block.prems(1) by simp
  then have "held entries writes s' = held entries writes s \<union> set (map enc_put (block_puts blk))"
    using apply_block store_run_bounds [OF apply_block.hyps(1)]
    by (intro ApplyBlock_held) (auto elim: single_subset)
  then show ?case using h by auto
next
  case (flush s bs sync s')
  then show ?case using commitBatch_held [of sync s s'] store_run_bounds [OF flush.hyps(1)]
    by (auto simp: FlushBatch_def batch_bounds_def split: if_splits)
next
  case (background s bs xs b ys db')
  have h: "held entries writes s = set (entries db0) \<union> all_puts bs" using background by simp
  have "set (entries db') = set (entries (st_DB s)) \<union> set (writes b)"
    by (rule closeOldBatch_entries [OF background.hyps(3)], rule single_subset [OF background.prems(2)])
       (use h background.hyps(2) in \<open>auto simp: held_def\<close>)
  then show ?case using h background.hyps(2) by (auto simp: held_def)
qed

lemma flush_wait:
  assumes "store_run P db0 s bs" and "list_all wf_block bs"
    and "single (set (entries db0) \<union> all_puts bs)" and "batchCounter s \<noteq> 0"
  shows "\<exists>s1 s2. FlushBatch P True s = (Inr (), s1) \<and> WaitForPendingCommits P s1 = (Inr (), s2) \<and>
     set (entries (st_DB s2)) = set (entries db0) \<union> all_puts bs"
proof -
  note bb = store_run_bounds [OF assms(1), unfolded batch_bounds_def]
  note h = store_run_held [OF assms(1,2,3)]
  obtain s1 where s1: "commitBatch P True s = (Inr (), s1)"
    using commitBatch_ok [of s] bb by auto
  have h1: "held entries writes s1 = set (entries db0) \<union> all_puts bs"
    using commitBatch_held [OF s1] bb h assms(3) by simp
  have "\<exists>db. dbBatch s1 = Some (pb_new_batch P db)"
    by (rule commitBatch_cases [OF s1]) (use bb in auto)
  then have h2: "set (entries (st_DB s1)) \<union> (\<Union>b \<in> set (pending s1). set (writes b)) =
      set (entries db0) \<union> all_puts bs"
    using h1 new_batch by (auto simp: held_def)
  obtain d where d: "drain P (pending s1) (st_DB s1) = Inr d" using drain_ok by blast
  have "set (entries d) = set (entries db0) \<union> all_puts bs"
    using drain_entries [OF d] h2 assms(3) by simp
  then show ?thesis using s1 d assms(4) by (simp add: FlushBatch_def WaitForPendingCommits_def)
qed

lemma full_batch:
  assumes "store_run P db0 s bs" and "batchCounter s = 200"
    and "wf_block blk" and "ApplyBlock P blk s = (Inr (), s1)"
  shows "FlushBatch P True s1 = (Inr (), s1) \<and>
     (\<exists>b. dbBatch s1 = Some b \<and> writes b = map enc_put (block_puts blk))"
proof -
  let ?s = "s\<lparr>batchCounter := batchCounter s + 1\<rparr>"
  note bb = store_run_bounds [OF assms(1), unfolded batch_bounds_def]
  obtain b0 where "dbBatch s = Some b0" using bb by auto
  with assms(4) obtain t b b' where c:
    "if batchCounter s + 1 > batchSize s then commitBatch P False ?s = (Inr (), t) else t = ?s"
    "dbBatch t = Some b" "attachBlockToBatch P blk b = (Inr (), b')"
    "s1 = t\<lparr>dbBatch := Some b'\<rparr>" by (rule ApplyBlock_cases)
  have t: "commitBatch P False ?s = (Inr (), t)" using c(1) bb assms(2) by simp
  have "batchCounter t = 0 \<and> (\<exists>db. dbBatch t = Some (pb_new_batch P db))"
    by (rule commitBatch_cases [OF t]) (use bb in auto)
  then have t0: "batchCounter t = 0" "writes b = []" using c(2) new_batch by auto
  obtain b'' where "attachBlockToBatch P blk b = (Inr (), b'')"
    "writes b'' = writes b @ map enc_put (block_puts blk)"
    by (rule attachBlock_ok [OF assms(3)])
  then show ?thesis using c t0 by (simp add: FlushBatch_def)
qed

end

section \<open>Properties of the write path\<close>

text \<open>C30. Attaching a well-formed block to any batch succeeds and appends exactly the encoded
  entries of the block: the chain index in both directions, the positions, occurrences, spends,
  tweaks, outputs and compute-index entries of its transactions, the short spent keys and the
  outpoints of each transaction.\<close>

theorem attachBlock_writes:
  assumes "pebble_reliable P entries writes" and "wf_block blk"
  shows "\<exists>b'. attachBlockToBatch P blk b = (Inr (), b') \<and>
     writes b' = writes b @ map enc_put (block_puts blk)"
  using pebble_reliable.attachBlock_ok [OF assms] by metis

definition w_tx :: Tx where
  "w_tx = \<lparr>tx_Txid = replicate 32 1, tx_Tweak = Some (replicate 33 2),
     tx_Outs = [\<lparr>out_Txid = replicate 32 1, out_Vout = 0, out_Amount = 5000,
                 out_Pubkey = replicate 32 7\<rparr>],
     tx_Ins = [\<lparr>in_SpendTxid = replicate 32 1, in_Idx = 0, in_PrevTxid = replicate 32 3, in_PrevVout = 2,
                in_Pubkey = Some (replicate 32 9)\<rparr>]\<rparr>"

definition w_block :: DBBlock where
  "w_block = \<lparr>blk_Height = 7, blk_Hash = replicate 32 5, blk_Txs = [None, Some w_tx]\<rparr>"

lemma w_block_wf: "wf_block w_block"
  by (simp add: w_block_def w_tx_def wf_block_def block_txs_def wf_tx_def wf_in_def wf_output_def
      hash_ok_def replicate_eq_replicate)

lemma w_single: "single (set (mem_entries []) \<union> all_puts [w_block])"
proof -
  have "single (set (map enc_put (block_puts w_block)))"
    by (rule single_enc_puts)
      (simp_all add: w_block_def w_tx_def block_puts_def block_txs_def tx_puts_def in_put_def
        tweak_puts_def out_put_def block_outpoints_def)
  then show ?thesis by (simp add: all_puts_def mem_entries_def)
qed

lemma w_apply:
  assumes "store_run mem_pebble [] s bs" and "batchCounter s < 200"
  shows "\<exists>s'. store_run mem_pebble [] s' (bs @ [w_block]) \<and> batchCounter s' = batchCounter s + 1"
proof -
  note bb = store_run_bounds [OF assms(1), unfolded batch_bounds_def]
  obtain b where b: "dbBatch s = Some b" using bb by auto
  obtain s' where s': "ApplyBlock mem_pebble w_block s = (Inr (), s')"
    using mem.ApplyBlock_ok [OF b w_block_wf] by auto
  then have "batchCounter s' = batchCounter s + 1"
    using b by (rule ApplyBlock_cases) (use bb assms(2) in auto)
  then show ?thesis using apply_block [OF assms(1) s'] by blast
qed

lemma w_runs:
  "n \<le> 200 \<Longrightarrow> \<exists>s. store_run mem_pebble [] s (replicate n w_block) \<and> batchCounter s = int n"
proof (induction n)
  case 0
  have "store_run mem_pebble [] (NewStore mem_pebble []) []" by (rule start)
  then show ?case by (auto simp: NewStore_def)
next
  case (Suc n)
  then obtain s where s: "store_run mem_pebble [] s (replicate n w_block)" "batchCounter s = int n"
    by auto
  then obtain s' where "store_run mem_pebble [] s' (replicate n w_block @ [w_block])"
    "batchCounter s' = int n + 1"
    using w_apply [OF s(1)] Suc.prems by auto
  then show ?case by (intro exI [of _ s']) (simp add: replicate_append_same [symmetric])
qed

lemma w_run1: "\<exists>s. store_run mem_pebble [] s [w_block] \<and> batchCounter s = 1"
  using w_runs [of 1] by simp

theorem attachBlock_writes_witness:
  "wf_block w_block \<and> (\<exists>b'. attachBlockToBatch mem_pebble w_block [] = (Inr (), b') \<and>
     b' = map enc_put (block_puts w_block))"
  using attachBlock_writes [OF mem_reliable w_block_wf, of "[]"] w_block_wf by simp

text \<open>In every run of the store (blocks applied one by one, flushes and background commits
  interleaved in any order) there is an active batch, it never counts more than 200 blocks, and
  no more than 10 commits are under way at a time.\<close>

theorem store_run_batch_bounds:
  assumes "store_run P db0 s bs"
  shows "dbBatch s \<noteq> None \<and> 0 \<le> BatchSize s \<and> BatchSize s \<le> 200 \<and> length (pending s) \<le> 10"
  using store_run_bounds [OF assms] by (simp add: batch_bounds_def BatchSize_def)

theorem store_run_batch_bounds_witness:
  "\<exists>s. store_run mem_pebble [] s [w_block] \<and> dbBatch s \<noteq> None \<and> 0 \<le> BatchSize s \<and>
     BatchSize s \<le> 200 \<and> length (pending s) \<le> 10"
proof -
  obtain s where s: "store_run mem_pebble [] s [w_block]" using w_run1 by metis
  show ?thesis by (rule exI [of _ s]) (simp add: s store_run_batch_bounds [OF s])
qed

text \<open>C6. No write is lost or invented in any interleaving: as long as the blocks agree wherever
  they write the same key, the database, the pending commits and the active batch together hold
  the old contents and the entries of the blocks applied so far, and nothing else.\<close>

theorem store_run_no_loss:
  assumes "pebble_reliable P entries writes" and "store_run P db0 s bs" and "list_all wf_block bs"
    and "single (set (entries db0) \<union> all_puts bs)"
  shows "held entries writes s = set (entries db0) \<union> all_puts bs"
  using pebble_reliable.store_run_held [OF assms] .

theorem store_run_no_loss_witness:
  "\<exists>s. store_run mem_pebble [] s [w_block] \<and>
     held mem_entries (\<lambda>b. b) s = set (mem_entries []) \<union> all_puts [w_block]"
proof -
  obtain s where s: "store_run mem_pebble [] s [w_block]" using w_run1 by metis
  show ?thesis
    by (rule exI [of _ s])
      (use s store_run_no_loss [OF mem_reliable s _ w_single] w_block_wf in simp)
qed

text \<open>C7. Let the applied blocks and the old contents of the database agree wherever they write the same key
  (no two blocks at one height, so no reorganisation).  Then a synchronous flush of a batch that counts at
  least one block, followed by waiting for the background commits, succeeds and leaves nothing behind in
  a batch: what a read of the database finds is exactly the old contents and the entries of all applied
  blocks.  This is about what is readable; the code commits with \<open>pebble.NoSync\<close>, so nothing
  is said of a machine that fails.\<close>

theorem flush_writes_all_blocks:
  assumes "pebble_reliable P entries writes" and "store_run P db0 s bs" and "list_all wf_block bs"
    and "single (set (entries db0) \<union> all_puts bs)" and "batchCounter s \<noteq> 0"
  shows "\<exists>s1 s2. FlushBatch P True s = (Inr (), s1) \<and> WaitForPendingCommits P s1 = (Inr (), s2) \<and>
     set (entries (st_DB s2)) = set (entries db0) \<union> all_puts bs"
  using pebble_reliable.flush_wait [OF assms] .

theorem flush_writes_all_blocks_witness:
  "\<exists>s s1 s2. store_run mem_pebble [] s [w_block] \<and> FlushBatch mem_pebble True s = (Inr (), s1) \<and>
     WaitForPendingCommits mem_pebble s1 = (Inr (), s2) \<and>
     set (mem_entries (st_DB s2)) = set (mem_entries []) \<union> all_puts [w_block]"
proof -
  obtain s where s: "store_run mem_pebble [] s [w_block]" "batchCounter s = 1"
    using w_run1 by metis
  show ?thesis
    by (rule exI [of _ s])
      (use s flush_writes_all_blocks [OF mem_reliable s(1) _ w_single] w_block_wf in simp)
qed

text \<open>C39. The state of the store in which \<open>Close\<close> returns: the pending commits are done, but the
  active batch, although \<open>Close\<close> flushes it, is not written, because the flag that makes
  \<open>commitBatch\<close> a no-op is set first.\<close>

theorem Close_drops_active_batch:
  assumes "Close P s = (Inr (), s')"
  shows "dbBatch s' = dbBatch s \<and> batchCounter s' = batchCounter s \<and> pending s' = [] \<and>
     closed s' \<and> drain P (pending s) (st_DB s) = Inr (st_DB s')"
  using assms
  by (auto simp: Close_def WaitForPendingCommits_def FlushBatch_def commitBatch_def
      split: sum.splits if_splits)

theorem Close_drops_active_batch_witness:
  "let s = (NewStore mem_pebble [])\<lparr>dbBatch := Some [([1], [2])], batchCounter := 1\<rparr>;
       s' = s\<lparr>closed := True\<rparr>
   in Close mem_pebble s = (Inr (), s') \<and> dbBatch s' = dbBatch s \<and>
      drain mem_pebble (pending s) (st_DB s) = Inr (st_DB s')"
proof -
  let ?s = "(NewStore mem_pebble [])\<lparr>dbBatch := Some [([1], [2])], batchCounter := 1\<rparr>"
  have c: "Close mem_pebble ?s = (Inr (), ?s\<lparr>closed := True\<rparr>)"
    by (simp add: Close_def WaitForPendingCommits_def FlushBatch_def commitBatch_def NewStore_def
        mem_pebble_def)
  show ?thesis using c Close_drops_active_batch [OF c] by (simp add: Let_def)
qed

text \<open>C40. The block that finds the batch full is not counted: applying it rotates the batch and
  resets the counter after it was raised, so that the following \<open>FlushBatch\<close> returns without
  writing the block, which stays in the active batch.\<close>

theorem full_batch_block_not_flushed:
  assumes "pebble_reliable P entries writes" and "store_run P db0 s bs" and "batchCounter s = 200"
    and "wf_block blk" and "ApplyBlock P blk s = (Inr (), s1)"
  shows "FlushBatch P True s1 = (Inr (), s1) \<and>
     (\<exists>b. dbBatch s1 = Some b \<and> writes b = map enc_put (block_puts blk))"
  using pebble_reliable.full_batch [OF assms] .

theorem full_batch_block_not_flushed_witness:
  "\<exists>s s1. store_run mem_pebble [] s (replicate 200 w_block) \<and>
     ApplyBlock mem_pebble w_block s = (Inr (), s1) \<and> FlushBatch mem_pebble True s1 = (Inr (), s1) \<and>
     dbBatch s1 = Some (map enc_put (block_puts w_block))"
proof -
  obtain s where s: "store_run mem_pebble [] s (replicate 200 w_block)" "batchCounter s = 200"
    using w_runs [of 200] by auto
  obtain b where "dbBatch s = Some b"
    using store_run_bounds [OF s(1)] by (auto simp: batch_bounds_def)
  then obtain s1 where s1: "ApplyBlock mem_pebble w_block s = (Inr (), s1)"
    using mem.ApplyBlock_ok [OF _ w_block_wf] by blast
  show ?thesis
    by (rule exI [of _ s], rule exI [of _ s1])
      (use s s1 full_batch_block_not_flushed [OF mem_reliable s w_block_wf s1] in auto)
qed

text \<open>A keys-only spend is accepted by \<open>ValSpend\<close> (the comment at its call reads \<open>or nil for
  keys-only\<close>), but a block with such an input does not get past the spend entry: the write ends
  in a run-time panic at \<open>in.Pubkey[:8]\<close>.\<close>

theorem keys_only_spend_panics:
  assumes "in_Pubkey i = None"
  shows "ValSpend (in_Pubkey i) = Inr [] \<and>
     (\<exists>e b'. attachIns P h (i # ins) b = (Inl e, b') \<and>
        (e = Panic ''slice bounds out of range'' \<or>
         pb_set P b (KeySpend (in_PrevTxid i) (in_PrevVout i) h) [] = Inl e))"
  using assms
  by (auto simp: ValSpend_def short8_def bindB_def liftB_def setB_def split: sum.splits)

theorem keys_only_spend_panics_witness:
  "let i = \<lparr>in_SpendTxid = [], in_Idx = 0, in_PrevTxid = replicate 32 3, in_PrevVout = 1,
            in_Pubkey = None\<rparr>
   in \<exists>e b'. attachIns mem_pebble (replicate 32 5) [i] [] = (Inl e, b') \<and>
        e = Panic ''slice bounds out of range''"
  using keys_only_spend_panics [of "\<lparr>in_SpendTxid = [], in_Idx = 0, in_PrevTxid = replicate 32 3,
      in_PrevVout = 1, in_Pubkey = None\<rparr>" mem_pebble "replicate 32 5" "[]" "[]"]
  by (auto simp: mem_pebble_def)

end
