(* ===== verification/Reads.thy ===== *)
theory Reads
  imports Block_Store
begin

text \<open>
  The read path of the index (\<open>dbpebble/read.go\<close>): chain lookups, the transactions, outputs and
  tweaks of a block, cut-through and the precomputed per-block data.  The optimised scans, which
  walk one iterator in txid order, are compared with the per-transaction lookups they replaced
  (the references kept in \<open>dbpebble/read_test.go\<close>).  The slabs of the code are a way to allocate;
  the values carved out of them are plain lists here.
\<close>

section \<open>Chain lookups\<close>

text \<open>A nil hash is \<open>None\<close>.  The last four bytes of a chain-index key are the height.\<close>

definition chain_entry :: "kv list \<Rightarrow> (bytes option \<times> u32) res" where
  "chain_entry rows =
     (case rows of
        [] \<Rightarrow> Inr (None, 0)
      | (heightBytes, blockhash) # _ \<Rightarrow>
          if length blockhash \<noteq> 32 then Inl (Err ''bad blockhash'')
          else if heightBytes = [] then Inl (Panic ''slice bounds out of range'')
          else bindR (get_be32 (drop 1 heightBytes)) (\<lambda>height. Inr (Some blockhash, height)))"

definition GetChainTip ::
    "('db, 'b) pebble_api \<Rightarrow> ('db, 'b) Store \<Rightarrow> (bytes option \<times> u32) res" where
  "GetChainTip P s =
     (let (lb, ub) = BoundsCIHeight
      in bindR (pb_iter P (st_DB s) (Some lb) (Some ub)) (\<lambda>it. chain_entry (it_Last it)))"

definition FirstBlock ::
    "('db, 'b) pebble_api \<Rightarrow> ('db, 'b) Store \<Rightarrow> (bytes option \<times> u32) res" where
  "FirstBlock P s =
     (let (lb, ub) = BoundsCIHeight
      in bindR (pb_iter P (st_DB s) (Some lb) (Some ub)) (\<lambda>it. chain_entry (it_First it)))"

definition GetBlockHashByHeight ::
    "('db, 'b) pebble_api \<Rightarrow> ('db, 'b) Store \<Rightarrow> u32 \<Rightarrow> bytes option res" where
  "GetBlockHashByHeight P s height =
     (case pb_get P (st_DB s) (KeyCIHeight height) of
        GetErr e \<Rightarrow> Inl e
      | NotFound \<Rightarrow> Inr None
      | Found blockhash \<Rightarrow> Inr (Some blockhash))"

text \<open>What the channel of \<open>ChainIterator\<close> delivers; an iteration error is logged only.\<close>

definition ChainIterator ::
    "('db, 'b) pebble_api \<Rightarrow> ('db, 'b) Store \<Rightarrow> bool \<Rightarrow> bytes list res" where
  "ChainIterator P s asc =
     (let (lb, ub) = BoundsCIHeight
      in bindR (pb_iter P (st_DB s) (Some lb) (Some ub)) (\<lambda>it.
         Inr (map snd (if asc then it_First it else it_Last it))))"

definition BlockhashInDB ::
    "('db, 'b) pebble_api \<Rightarrow> ('db, 'b) Store \<Rightarrow> bytes \<Rightarrow> bool res" where
  "BlockhashInDB P s blockhash =
     (case pb_get P (st_DB s) (KeyCIBlock blockhash) of
        GetErr e \<Rightarrow> Inl e | NotFound \<Rightarrow> Inr False | Found _ \<Rightarrow> Inr True)"

definition heightIfOnBestChain ::
    "('db, 'b) pebble_api \<Rightarrow> ('db, 'b) Store \<Rightarrow> bytes \<Rightarrow> (u32 \<times> bool) res" where
  "heightIfOnBestChain P s blockHash =
     (case pb_get P (st_DB s) (KeyCIBlock blockHash) of
        GetErr e \<Rightarrow> Inl e
      | NotFound \<Rightarrow> Inr (0, False)
      | Found val \<Rightarrow>
          if length val \<noteq> SizeHeight then Inl (Err ''bad ci:b value length'')
          else bindR (get_be32 (take SizeHeight val)) (\<lambda>h. Inr (h, True)))"

section \<open>Transactions, outputs and tweaks\<close>

definition errorR :: "go_error option \<Rightarrow> 'a \<Rightarrow> 'a res" where
  "errorR e a = (case e of None \<Rightarrow> Inr a | Some x \<Rightarrow> Inl x)"

definition BlockTxids ::
    "('db, 'b) pebble_api \<Rightarrow> ('db, 'b) Store \<Rightarrow> bytes \<Rightarrow> bytes list res" where
  "BlockTxids P s blockHash =
     (let (lb, ub) = BoundsBlockTx blockHash
      in bindR (pb_iter P (st_DB s) (Some lb) (Some ub)) (\<lambda>it.
         bindR (mapR (\<lambda>(k, v). if length v \<noteq> SizeTxid
                        then Inl (Err ''bad txid length in block index'')
                        else Inr (fit SizeTxid v)) (it_First it))
           (errorR (it_Error it))))"

definition row_output :: "bytes \<Rightarrow> kv \<Rightarrow> Output res" where
  "row_output txid = (\<lambda>(k, v).
     if length k < SizeVout then Inl (Panic ''slice bounds out of range'')
     else bindR (get_be32 (drop (length k - SizeVout) k)) (\<lambda>vout.
          bindR (ParseOutValue v) (\<lambda>(amt, pk).
          Inr \<lparr>out_Txid = txid, out_Vout = vout, out_Amount = amt, out_Pubkey = pk\<rparr>)))"

definition OutputsForTx ::
    "('db, 'b) pebble_api \<Rightarrow> ('db, 'b) Store \<Rightarrow> bytes \<Rightarrow> Output list res" where
  "OutputsForTx P s txid =
     (let (lb, ub) = BoundsOut txid
      in bindR (pb_iter P (st_DB s) (Some lb) (Some ub)) (\<lambda>it.
         mapR (row_output txid) (it_First it)))"

definition LoadTweak ::
    "('db, 'b) pebble_api \<Rightarrow> ('db, 'b) Store \<Rightarrow> bytes \<Rightarrow> (bytes \<times> bool) res" where
  "LoadTweak P s txid =
     (case pb_get P (st_DB s) (KeyTx txid) of
        GetErr e \<Rightarrow> Inl e | NotFound \<Rightarrow> Inr ([], False) | Found val \<Rightarrow> Inr (val, True))"

section \<open>Spent outputs\<close>

type_synonym ActiveHeight = "bytes \<Rightarrow> u32 \<times> bool"

text \<open>The block hash of a spend entry: the last 32 bytes of its key.\<close>

definition spend_block :: "bytes \<Rightarrow> bytes res" where
  "spend_block k = (if length k < SizeHash then Inl (Panic ''slice bounds out of range'')
     else Inr (drop (length k - SizeHash) k))"

fun isSpentLoop :: "ActiveHeight \<Rightarrow> u32 \<Rightarrow> kv list \<Rightarrow> bool res" where
  "isSpentLoop active H [] = Inr False"
| "isSpentLoop active H ((k, v) # rows) =
     bindR (spend_block k) (\<lambda>blk.
     let (h, ok) = active blk
     in if ok \<and> h \<le> H then Inr True else isSpentLoop active H rows)"

definition IsSpentAt ::
    "('db, 'b) pebble_api \<Rightarrow> ('db, 'b) Store \<Rightarrow> bytes \<Rightarrow> u32 \<Rightarrow> u32 \<Rightarrow> ActiveHeight \<Rightarrow> bool res" where
  "IsSpentAt P s prevTxid prevVout H active =
     (let (lb, ub) = BoundsSpend prevTxid prevVout
      in bindR (pb_iter P (st_DB s) (Some lb) (Some ub)) (\<lambda>it.
         isSpentLoop active H (it_First it)))"

fun spentTipLoop ::
    "('db, 'b) pebble_api \<Rightarrow> ('db, 'b) Store \<Rightarrow> u32 \<Rightarrow> kv list \<Rightarrow> bool res" where
  "spentTipLoop P s H [] = Inr False"
| "spentTipLoop P s H ((k, v) # rows) =
     bindR (spend_block k) (\<lambda>blk.
     bindR (heightIfOnBestChain P s blk) (\<lambda>(h, ok).
     if ok \<and> h \<le> H then Inr True else spentTipLoop P s H rows))"

definition spentAtHeightTip ::
    "('db, 'b) pebble_api \<Rightarrow> ('db, 'b) Store \<Rightarrow> bytes \<Rightarrow> u32 \<Rightarrow> u32 \<Rightarrow> bool res" where
  "spentAtHeightTip P s prevTxid prevVout H =
     (let (lb, ub) = BoundsSpend prevTxid prevVout
      in bindR (pb_iter P (st_DB s) (Some lb) (Some ub)) (\<lambda>it.
         spentTipLoop P s H (it_First it)))"

section \<open>Tweaks of a block, one transaction at a time\<close>

definition tweak_row :: "bytes \<Rightarrow> bytes \<Rightarrow> TweakRow" where
  "tweak_row txid tweak = \<lparr>row_Txid = fit 32 txid, row_Tweak = fit 33 tweak\<rparr>"

text \<open>The loop over the outputs of one transaction: is one unspent, and the largest of those.\<close>

fun unspentLoop ::
    "('db, 'b) pebble_api \<Rightarrow> ('db, 'b) Store \<Rightarrow> bytes \<Rightarrow> u32 \<Rightarrow> ActiveHeight \<Rightarrow> Output list
     \<Rightarrow> bool \<times> u64 \<Rightarrow> (bool \<times> u64) res" where
  "unspentLoop P s txid H active [] acc = Inr acc"
| "unspentLoop P s txid H active (o' # outs) acc =
     bindR (IsSpentAt P s txid (out_Vout o') H active) (\<lambda>spent.
     unspentLoop P s txid H active outs
       (if spent then acc
        else (True, if out_Amount o' > snd acc then out_Amount o' else snd acc)))"

fun tweaksLoop ::
    "('db, 'b) pebble_api \<Rightarrow> ('db, 'b) Store \<Rightarrow> u32 \<Rightarrow> u64 \<Rightarrow> ActiveHeight \<Rightarrow> bytes list
     \<Rightarrow> TweakRow list res" where
  "tweaksLoop P s H dust active [] = Inr []"
| "tweaksLoop P s H dust active (txid # txids) =
     (case LoadTweak P s txid of
        Inl e \<Rightarrow> tweaksLoop P s H dust active txids
      | Inr (tweak, ok) \<Rightarrow>
          if \<not> ok then tweaksLoop P s H dust active txids
          else bindR (OutputsForTx P s txid) (\<lambda>outs.
               bindR (unspentLoop P s txid H active outs (False, 0)) (\<lambda>(hasUnspent, maxUnspent).
               bindR (tweaksLoop P s H dust active txids) (\<lambda>rest.
               Inr (if hasUnspent \<and> (dust = 0 \<or> maxUnspent \<ge> dust)
                    then tweak_row txid tweak # rest else rest)))))"

definition TweaksForBlock ::
    "('db, 'b) pebble_api \<Rightarrow> ('db, 'b) Store \<Rightarrow> bytes \<Rightarrow> u32 \<Rightarrow> u64 \<Rightarrow> ActiveHeight
     \<Rightarrow> TweakRow list res" where
  "TweaksForBlock P s blockHash H dust active =
     bindR (BlockTxids P s blockHash) (tweaksLoop P s H dust active)"

fun keepLoop ::
    "('db, 'b) pebble_api \<Rightarrow> ('db, 'b) Store \<Rightarrow> bytes \<Rightarrow> u32 \<Rightarrow> Output list \<Rightarrow> bool res" where
  "keepLoop P s txid tipHeight [] = Inr False"
| "keepLoop P s txid tipHeight (o' # outs) =
     bindR (spentAtHeightTip P s txid (out_Vout o') tipHeight) (\<lambda>spent.
     if \<not> spent then Inr True else keepLoop P s txid tipHeight outs)"

fun cutThroughLoop ::
    "('db, 'b) pebble_api \<Rightarrow> ('db, 'b) Store \<Rightarrow> u32 \<Rightarrow> bytes list \<Rightarrow> TweakRow list res" where
  "cutThroughLoop P s tipHeight [] = Inr []"
| "cutThroughLoop P s tipHeight (txid # txids) =
     bindR (LoadTweak P s txid) (\<lambda>(tweak, ok).
     if \<not> ok then cutThroughLoop P s tipHeight txids
     else bindR (OutputsForTx P s txid) (\<lambda>outs.
          bindR (keepLoop P s txid tipHeight outs) (\<lambda>keep.
          bindR (cutThroughLoop P s tipHeight txids) (\<lambda>rest.
          Inr (if keep then tweak_row txid tweak # rest else rest)))))"

definition TweaksForBlockCutThrough ::
    "('db, 'b) pebble_api \<Rightarrow> ('db, 'b) Store \<Rightarrow> bytes \<Rightarrow> u32 \<Rightarrow> TweakRow list res" where
  "TweaksForBlockCutThrough P s blockHash tipHeight =
     bindR (BlockTxids P s blockHash) (cutThroughLoop P s tipHeight)"

text \<open>The loop of the dust-limit variant; the limit is an argument of the code's function that
  its body does not use.\<close>

fun cutThroughDustLoop ::
    "('db, 'b) pebble_api \<Rightarrow> ('db, 'b) Store \<Rightarrow> u32 \<Rightarrow> u64 \<Rightarrow> bytes list \<Rightarrow> TweakRow list res" where
  "cutThroughDustLoop P s tipHeight dustLimit [] = Inr []"
| "cutThroughDustLoop P s tipHeight dustLimit (txid # txids) =
     bindR (LoadTweak P s txid) (\<lambda>(tweak, ok).
     if \<not> ok then cutThroughDustLoop P s tipHeight dustLimit txids
     else bindR (OutputsForTx P s txid) (\<lambda>outs.
          bindR (keepLoop P s txid tipHeight outs) (\<lambda>keep.
          bindR (cutThroughDustLoop P s tipHeight dustLimit txids) (\<lambda>rest.
          Inr (if keep then tweak_row txid tweak # rest else rest)))))"

definition TweaksForBlockCutThroughDustLimit ::
    "('db, 'b) pebble_api \<Rightarrow> ('db, 'b) Store \<Rightarrow> bytes \<Rightarrow> u32 \<Rightarrow> u64 \<Rightarrow> TweakRow list res" where
  "TweaksForBlockCutThroughDustLimit P s blockHash tipHeight dustLimit =
     bindR (BlockTxids P s blockHash) (cutThroughDustLoop P s tipHeight dustLimit)"

section \<open>The optimised scans\<close>

text \<open>
  \<open>sort.Slice\<close> leaves the order of equal elements open; the stable order is used here.  The lemmas
  below hold for every order that sorts the ids.
\<close>

definition sortedTxidOrder :: "bytes list \<Rightarrow> nat list" where
  "sortedTxidOrder txids = sort_key (\<lambda>i. txids ! i) [0..<length txids]"

fun tweakSeek ::
    "(bytes \<Rightarrow> kv list) \<Rightarrow> bytes list \<Rightarrow> nat list \<Rightarrow> TweakRow option list
     \<Rightarrow> TweakRow option list res" where
  "tweakSeek seek txids [] rows = Inr rows"
| "tweakSeek seek txids (pos # order) rows =
     (let txid = txids ! pos; key = [KTx] @ fit SizeTxid txid
      in case seek key of
           [] \<Rightarrow> Inr rows
         | (k, val) # _ \<Rightarrow>
             if k \<noteq> key then tweakSeek seek txids order rows
             else if length val \<noteq> SizeTweak then Inl (Err ''bad tweak length'')
             else tweakSeek seek txids order (rows[pos := Some (tweak_row txid val)]))"

definition TweaksForBlockAll ::
    "('db, 'b) pebble_api \<Rightarrow> ('db, 'b) Store \<Rightarrow> bytes \<Rightarrow> TweakRow list res" where
  "TweaksForBlockAll P s blockhash =
     bindR (BlockTxids P s blockhash) (\<lambda>txids.
     if txids = [] then Inr []
     else bindR (pb_iter P (st_DB s) (Some [KTx]) (Some [KTx + 1])) (\<lambda>it.
          bindR (tweakSeek (it_SeekGE it) txids (sortedTxidOrder txids)
                   (replicate (length txids) None)) (\<lambda>rows.
          errorR (it_Error it) (map the (filter (\<lambda>r. r \<noteq> None) rows)))))"

text \<open>The rows from a seek on, as long as they belong to the transaction.\<close>

fun outRows :: "bytes \<Rightarrow> kv list \<Rightarrow> Output list res" where
  "outRows txid [] = Inr []"
| "outRows txid ((k, v) # rows) =
     (if length k < 1 + SizeTxid then Inl (Panic ''slice bounds out of range'')
      else if take SizeTxid (drop 1 k) \<noteq> txid then Inr []
      else if length v \<noteq> SizeAmt + SizePubKey then Inl (Err ''bad out value length'')
      else bindR (get_be32 (drop (1 + SizeTxid) k)) (\<lambda>vout.
           bindR (get_le64 (take SizeAmt v)) (\<lambda>amount.
           bindR (outRows txid rows) (\<lambda>rest.
           Inr (\<lparr>out_Txid = txid, out_Vout = vout, out_Amount = amount,
                  out_Pubkey = fit SizePubKey (drop SizeAmt v)\<rparr> # rest)))))"

fun outSeek ::
    "(bytes \<Rightarrow> kv list) \<Rightarrow> bytes list \<Rightarrow> nat list \<Rightarrow> Output list list \<Rightarrow> Output list list res" where
  "outSeek seek txids [] perTx = Inr perTx"
| "outSeek seek txids (pos # order) perTx =
     (let txid = txids ! pos; key = [KOut] @ fit SizeTxid txid @ replicate SizeVout 0
      in case seek key of
           [] \<Rightarrow> Inr perTx
         | rows \<Rightarrow> bindR (outRows txid rows) (\<lambda>outs.
             outSeek seek txids order (perTx[pos := perTx ! pos @ outs])))"

definition fetchOutputs ::
    "('db, 'b) pebble_api \<Rightarrow> ('db, 'b) Store \<Rightarrow> bytes \<Rightarrow> Output list res" where
  "fetchOutputs P s blockhash =
     bindR (BlockTxids P s blockhash) (\<lambda>txids.
     if txids = [] then Inr []
     else bindR (pb_iter P (st_DB s) (Some [KOut]) (Some [KOut + 1])) (\<lambda>it.
          bindR (outSeek (it_SeekGE it) txids (sortedTxidOrder txids)
                   (replicate (length txids) [])) (\<lambda>perTx.
          errorR (it_Error it) (concat perTx))))"

definition FetchOutputsAll ::
    "('db, 'b) pebble_api \<Rightarrow> ('db, 'b) Store \<Rightarrow> bytes \<Rightarrow> u32 \<Rightarrow> Output list res" where
  "FetchOutputsAll P s blockhash tipHeight = fetchOutputs P s blockhash"

fun filterOutputs ::
    "('db, 'b) pebble_api \<Rightarrow> ('db, 'b) Store \<Rightarrow> u32 \<Rightarrow> u64 \<Rightarrow> Output list \<Rightarrow> Output list res" where
  "filterOutputs P s tipHeight dustLimit [] = Inr []"
| "filterOutputs P s tipHeight dustLimit (o' # outs) =
     (if out_Amount o' < dustLimit then filterOutputs P s tipHeight dustLimit outs
      else bindR (spentAtHeightTip P s (out_Txid o') (out_Vout o') tipHeight) (\<lambda>spent.
           if spent then filterOutputs P s tipHeight dustLimit outs
           else bindR (filterOutputs P s tipHeight dustLimit outs) (\<lambda>rest. Inr (o' # rest))))"

definition FetchOutputsCutThroughDustLimit ::
    "('db, 'b) pebble_api \<Rightarrow> ('db, 'b) Store \<Rightarrow> bytes \<Rightarrow> u32 \<Rightarrow> u64 \<Rightarrow> Output list res" where
  "FetchOutputsCutThroughDustLimit P s blockhash tipHeight dustLimit =
     bindR (fetchOutputs P s blockhash) (filterOutputs P s tipHeight dustLimit)"

section \<open>Precomputed data of a block\<close>

definition FetchSpentOutputsShort ::
    "('db, 'b) pebble_api \<Rightarrow> ('db, 'b) Store \<Rightarrow> bytes \<Rightarrow> bytes res" where
  "FetchSpentOutputsShort P s blockhash =
     (case pb_get P (st_DB s) (KeySpentOutputsShort blockhash) of
        GetErr e \<Rightarrow> Inl e | NotFound \<Rightarrow> Inr [] | Found val \<Rightarrow> Inr val)"

definition KeyExistsComputeIndex ::
    "('db, 'b) pebble_api \<Rightarrow> ('db, 'b) Store \<Rightarrow> bytes \<Rightarrow> bool res" where
  "KeyExistsComputeIndex P s blockhash =
     bindR (heightIfOnBestChain P s blockhash) (\<lambda>(height, ok).
     if \<not> ok then Inr False
     else let (lb, ub) = BoundsComputeIndexOneHeight height
          in bindR (pb_iter P (st_DB s) (Some lb) (Some ub)) (\<lambda>it. Inr (it_First it \<noteq> [])))"

definition FetchTxidOutpoints ::
    "('db, 'b) pebble_api \<Rightarrow> ('db, 'b) Store \<Rightarrow> bytes \<Rightarrow> bytes \<Rightarrow> bytes list res" where
  "FetchTxidOutpoints P s blockhash txid =
     (case pb_get P (st_DB s) (KeyTxidOutpoints blockhash txid) of
        GetErr e \<Rightarrow> Inl e | NotFound \<Rightarrow> Inr [] | Found val \<Rightarrow> ParseTxidOutpointsValue val)"

text \<open>The rows have distinct keys, so the map of the code is the list of its entries.\<close>

definition FetchAllTxidOutpointsForBlock ::
    "('db, 'b) pebble_api \<Rightarrow> ('db, 'b) Store \<Rightarrow> bytes \<Rightarrow> (bytes \<times> bytes list) list res" where
  "FetchAllTxidOutpointsForBlock P s blockhash =
     (let (lb, ub) = BoundsTxidOutpoints blockhash
      in bindR (pb_iter P (st_DB s) (Some lb) (Some ub)) (\<lambda>it.
         mapR (\<lambda>(key, v).
           if length key \<noteq> 1 + SizeHash + SizeTxid then Inl (Err ''malformed key'')
           else bindR (ParseTxidOutpointsValue v) (\<lambda>outpoints.
                Inr (drop (1 + SizeHash) key, outpoints))) (it_First it)))"

section \<open>The references\<close>

text \<open>
  The lookups the optimised scans replaced, as \<open>read_test.go\<close> keeps them: one \<open>LoadTweak\<close>, or one
  iterator over the outputs, per transaction of the block.
\<close>

fun refTweaksLoop ::
    "('db, 'b) pebble_api \<Rightarrow> ('db, 'b) Store \<Rightarrow> bytes list \<Rightarrow> TweakRow list res" where
  "refTweaksLoop P s [] = Inr []"
| "refTweaksLoop P s (txid # txids) =
     bindR (LoadTweak P s txid) (\<lambda>(tweak, ok).
     bindR (refTweaksLoop P s txids) (\<lambda>rest.
     Inr (if ok then tweak_row txid tweak # rest else rest)))"

definition refTweaksForBlockAll ::
    "('db, 'b) pebble_api \<Rightarrow> ('db, 'b) Store \<Rightarrow> bytes \<Rightarrow> TweakRow list res" where
  "refTweaksForBlockAll P s blockhash = bindR (BlockTxids P s blockhash) (refTweaksLoop P s)"

definition refFetchOutputs ::
    "('db, 'b) pebble_api \<Rightarrow> ('db, 'b) Store \<Rightarrow> bytes \<Rightarrow> Output list res" where
  "refFetchOutputs P s blockhash =
     bindR (BlockTxids P s blockhash) (\<lambda>txids.
     bindR (mapR (OutputsForTx P s) txids) (\<lambda>outs. Inr (concat outs)))"

end
