(* ===== verification/Read_Spec.thy ===== *)
theory Read_Spec
  imports Reads
begin

text \<open>
  What the read path returns, on a database whose entries are the ones the write path makes.  The
  invariant \<open>typed\<close> says that every entry is an encoded key of the typed key space with a value
  of its kind; every run of the store keeps it.  Under it the reads are given by plain functions
  of the contents, and the optimised scans equal the references.
\<close>

section \<open>Typed contents\<close>

fun wf_val :: "db_key \<Rightarrow> bytes \<Rightarrow> bool" where
  "wf_val (DBlockTx h p) v \<longleftrightarrow> p \<noteq> 0xFFFFFFFF \<and> length v = 32"
| "wf_val (DTx t) v \<longleftrightarrow> length v = 33"
| "wf_val (DOut t n) v \<longleftrightarrow> n \<noteq> 0xFFFFFFFF \<and> length v = 40"
| "wf_val (DSpend t n h) v \<longleftrightarrow> h \<noteq> replicate 32 0xFF \<and> length v = 32"
| "wf_val (DCIHeight n) v \<longleftrightarrow> n \<noteq> 0xFFFFFFFF \<and> length v = 32"
| "wf_val (DCIBlock h) v \<longleftrightarrow> length v = 4"
| "wf_val (DTxOccur t h) v \<longleftrightarrow> v = []"
| "wf_val (DComputeIndex n t) v \<longleftrightarrow> t \<noteq> maxTxid \<and> 33 \<le> length v \<and> 8 dvd (length v - 33)"
| "wf_val (DSpentOutputsShort h) v \<longleftrightarrow> 8 dvd length v"
| "wf_val (DTxidOutpoints h t) v \<longleftrightarrow> t \<noteq> replicate 32 0xFF \<and> 36 dvd length v"

definition typed :: "kv set \<Rightarrow> bool" where
  "typed S \<longleftrightarrow> (\<forall>k v. (k, v) \<in> S \<longrightarrow> (\<exists>dk. wf_key dk \<and> k = enc_key dk \<and> wf_val dk v))"

lemma typedE:
  assumes "typed S" and "(k, v) \<in> S"
  obtains dk where "wf_key dk" "k = enc_key dk" "wf_val dk v"
  using assms unfolding typed_def by blast

lemma typed_subset: "typed T \<Longrightarrow> S \<subseteq> T \<Longrightarrow> typed S"
  unfolding typed_def by blast

lemma typed_Un: "typed (S \<union> T) \<longleftrightarrow> typed S \<and> typed T"
  unfolding typed_def by blast

definition wf_put :: "put \<Rightarrow> bool" where
  "wf_put p \<longleftrightarrow> wf_key (fst p) \<and> wf_val (fst p) (snd p)"

lemma typed_puts: "list_all wf_put ps \<Longrightarrow> typed (set (map enc_put ps))"
  by (fastforce simp: typed_def wf_put_def list_all_iff enc_put_def)

text \<open>The entries of a well-formed block are typed.\<close>

lemma sum_list_const_dvd:
  "(\<forall>x \<in> set xs. length x = w) \<Longrightarrow> w dvd length (concat xs)"
  by (induction xs) auto

lemma wf_put_in: "wf_in i \<Longrightarrow> hash_ok h \<Longrightarrow> wf_put (in_put h i)"
  by (auto simp: wf_put_def in_put_def wf_in_def hash_ok_def)

lemma wf_put_tweak:
  assumes "wf_tx t"
  shows "list_all wf_put (tweak_puts height t)"
proof (cases "tx_Tweak t")
  case (Some tw)
  have tw: "length tw = 33" and t: "hash_ok (tx_Txid t)"
    and o: "list_all (\<lambda>o'. wf_output o' \<and> out_Txid o' = tx_Txid t \<and> out_Vout o' \<noteq> 0xFFFFFFFF)
      (tx_Outs t)"
    using assms Some by (simp_all add: wf_tx_def)
  have "8 dvd length (concat (outs_short t))"
    using o by (intro sum_list_const_dvd) (auto simp: outs_short_def list_all_iff wf_output_def)
  then show ?thesis using tw t o
    by (auto simp: tweak_puts_def Some wf_put_def out_put_def wf_output_def hash_ok_def maxTxid_def
        list_all_iff)
qed (simp add: tweak_puts_def)

lemma wf_put_tx:
  assumes "wf_tx t" and "hash_ok h" and "n < 0xFFFFFFFF"
  shows "list_all wf_put (tx_puts h height n t)"
proof -
  have "of_nat n \<noteq> (0xFFFFFFFF :: u32)"
  proof
    assume "of_nat n = (0xFFFFFFFF :: u32)"
    then have "unat (of_nat n :: u32) = unat (0xFFFFFFFF :: u32)" by simp
    then have "n mod 4294967296 = 0xFFFFFFFF" by (simp only: unat_of_nat) simp
    then show False using assms(3) by simp
  qed
  moreover have "list_all (\<lambda>i. wf_put (in_put h i)) (tx_Ins t)"
    using assms by (auto simp: wf_tx_def list_all_iff intro: wf_put_in)
  ultimately show ?thesis using assms(1,2) wf_put_tweak [OF assms(1)]
    by (auto simp: tx_puts_def wf_put_def wf_tx_def hash_ok_def list_all_iff)
qed

lemma positions_bound: "(j, t) \<in> set (positions i txs) \<Longrightarrow> i \<le> j \<and> j < i + length txs"
  by (induction i txs rule: positions.induct) fastforce+

lemma outpoints_keys:
  "(t, ops) \<in> set (foldl add_outpoints m ts) \<Longrightarrow> (t, ops) \<in> set m \<or> (\<exists>x \<in> set ts. t = tx_Txid x)"
proof (induction ts arbitrary: m)
  case (Cons x ts)
  then have "(t, ops) \<in> set (add_outpoints m x) \<or> (\<exists>x \<in> set ts. t = tx_Txid x)"
    by (simp del: add_outpoints.simps)
  moreover have "(t, ops) \<in> set (add_outpoints m x) \<Longrightarrow> (t, ops) \<in> set m \<or> t = tx_Txid x"
    using set_alist_update [of "tx_Txid x" "map outpoint (tx_Ins x)" m] by (auto split: if_splits)
  ultimately show ?case by auto
qed simp

lemma wf_put_block:
  assumes "wf_block blk"
  shows "list_all wf_put (block_puts blk)"
proof -
  note w = assms [unfolded wf_block_def]
  have t: "wf_tx t \<and> n < 0xFFFFFFFF" if "(n, t) \<in> set (block_txs blk)" for n t
    using w that positions_bound [of n t 0 "blk_Txs blk"]
    by (auto simp: block_txs_def list_all_iff)
  then have a: "list_all wf_put (concat (map (\<lambda>(i, t). tx_puts (blk_Hash blk) (blk_Height blk) i t)
      (block_txs blk)))"
    using w wf_put_tx by (fastforce simp: list_all_iff)
  have b: "8 dvd length (concat (block_spent_short blk))"
    using t by (intro sum_list_const_dvd)
      (fastforce simp: block_spent_short_def spent_short_def wf_tx_def wf_in_def list_all_iff)
  have c: "wf_put (DTxidOutpoints (blk_Hash blk) x, concat ops)"
    if "(x, ops) \<in> set (block_outpoints blk)" for x ops
  proof -
    have "hash_ok x"
      using outpoints_keys [of x ops "[]" "map snd (block_txs blk)"] that t
      by (auto simp: block_outpoints_def wf_tx_def)
    moreover have "\<forall>y \<in> set ops. length y = 36"
      using foldl_outpoints_width [of "[]" "map snd (block_txs blk)"] that
      by (auto simp: block_outpoints_def)
    ultimately show ?thesis using w sum_list_const_dvd [of ops 36]
      by (auto simp: wf_put_def hash_ok_def)
  qed
  have "list_all wf_put (map (\<lambda>(t, ops). (DTxidOutpoints (blk_Hash blk) t, concat ops))
      (block_outpoints blk))"
    using c by (auto simp: list_all_iff)
  then show ?thesis using a b w by (simp add: block_puts_def wf_put_def hash_ok_def)
qed

lemma typed_all_puts: "list_all wf_block bs \<Longrightarrow> typed (all_puts bs)"
proof (induction bs)
  case (Cons blk bs)
  then have "typed (set (map enc_put (block_puts blk)))" "typed (all_puts bs)"
    using typed_puts [OF wf_put_block, of blk] by simp_all
  then show ?case by (auto simp: all_puts_def typed_Un)
qed (simp add: typed_def all_puts_def)

context pebble_reliable
begin

lemma store_run_typed:
  assumes "store_run P db0 s bs" and "list_all wf_block bs" and "typed (set (entries db0))"
  shows "typed (set (entries (st_DB s)))"
proof -
  have "held entries writes s \<subseteq> set (entries db0) \<union> all_puts bs"
    by (rule store_run_subset [OF assms(1,2)])
  moreover have "set (entries (st_DB s)) \<subseteq> held entries writes s" by (auto simp: held_def)
  ultimately show ?thesis
    using typed_all_puts [OF assms(2)] assms(3) by (blast intro: typed_subset typed_Un [THEN iffD2])
qed

end

section \<open>Scans in key order\<close>

lemma fst_image_iff: "k \<in> fst ` S \<longleftrightarrow> (\<exists>v. (k, v) \<in> S)"
  by force

text \<open>What a seek finds in a sorted list.\<close>

abbreviation seek :: "kv list \<Rightarrow> bytes \<Rightarrow> kv list" where
  "seek R key \<equiv> dropWhile (\<lambda>e. fst e < key) R"

lemma seek_empty:
  assumes "seek R key = []" and "key \<le> k"
  shows "map_of R k = None"
proof -
  have "\<forall>e \<in> set R. fst e < key" using assms(1) by simp
  then show ?thesis using assms(2) by (fastforce simp: map_of_eq_None_iff)
qed

lemma seek_found:
  "kv_sorted R \<Longrightarrow> seek R key = (k, v) # rest \<Longrightarrow>
   map_of R key = (if k = key then Some v else None)"
proof (induction R)
  case (Cons e R)
  show ?case
  proof (cases "fst e < key")
    case True
    then show ?thesis using Cons by (cases e) auto
  next
    case False
    then have e: "e = (k, v)" "rest = R" "key \<le> k" using Cons.prems by auto
    have "map_of R key = None" if "key < k"
      using Cons.prems(1) that e by (fastforce simp: map_of_eq_None_iff)
    then show ?thesis using e by auto
  qed
qed simp

text \<open>
  The rows from a seek on that satisfy a predicate are all rows that satisfy it, if these lie
  together in the order and not before the seek position.
\<close>

lemma takeWhile_sorted_filter:
  assumes "kv_sorted R" and "\<And>e. e \<in> set R \<Longrightarrow> key \<le> fst e"
    and "\<And>k k'. key \<le> k \<Longrightarrow> k < k' \<Longrightarrow> k \<in> fst ` set R \<Longrightarrow>
      k' \<in> fst ` set R \<Longrightarrow> q k' \<Longrightarrow> q k"
  shows "takeWhile (\<lambda>e. q (fst e)) R = filter (\<lambda>e. q (fst e)) R"
  using assms
proof (induction R)
  case (Cons e R)
  show ?case
  proof (cases "q (fst e)")
    case True
    then show ?thesis using Cons by auto
  next
    case False
    then have "\<not> q (fst x)" if "x \<in> set R" for x
      using Cons.prems(1) Cons.prems(2) [of e] Cons.prems(3) [of "fst e" "fst x"] that False by auto
    then show ?thesis using False by (simp add: filter_False)
  qed
qed simp

lemma seek_takeWhile_filter:
  assumes "kv_sorted R"
    and "\<And>k. k \<in> fst ` set R \<Longrightarrow> q k \<Longrightarrow> key \<le> k"
    and "\<And>k k'. key \<le> k \<Longrightarrow> k < k' \<Longrightarrow> k \<in> fst ` set R \<Longrightarrow>
      k' \<in> fst ` set R \<Longrightarrow> q k' \<Longrightarrow> q k"
  shows "takeWhile (\<lambda>e. q (fst e)) (seek R key) = filter (\<lambda>e. q (fst e)) R"
  using assms
proof (induction R)
  case (Cons e R)
  show ?case
  proof (cases "fst e < key")
    case True
    then have "\<not> q (fst e)" using Cons.prems(2) [of "fst e"] by auto
    moreover have "takeWhile (\<lambda>e. q (fst e)) (seek R key) = filter (\<lambda>e. q (fst e)) R"
    proof (rule Cons.IH)
      show "kv_sorted R" using Cons.prems(1) by simp
      show "key \<le> k" if "k \<in> fst ` set R" "q k" for k
        by (rule Cons.prems(2)) (use that in auto)
      show "q k" if "key \<le> k" "k < k'" "k \<in> fst ` set R" "k' \<in> fst ` set R" "q k'" for k k'
        by (rule Cons.prems(3)) (use that in auto)
    qed
    ultimately show ?thesis using True by simp
  next
    case False
    then have "key \<le> fst x" if "x \<in> set (e # R)" for x
      using Cons.prems(1) that by auto
    then have "takeWhile (\<lambda>e. q (fst e)) (e # R) = filter (\<lambda>e. q (fst e)) (e # R)"
      by (rule takeWhile_sorted_filter [OF Cons.prems(1) _ Cons.prems(3)])
    then show ?thesis using False by simp
  qed
qed simp

section \<open>The order of the scans\<close>

definition scan_order :: "bytes list \<Rightarrow> nat list \<Rightarrow> bool" where
  "scan_order txids order \<longleftrightarrow> distinct order \<and> set order = {0..<length txids} \<and>
     sorted (map ((!) txids) order)"

lemma sortedTxidOrder_scan: "scan_order txids (sortedTxidOrder txids)"
  by (simp add: scan_order_def sortedTxidOrder_def sorted_sort_key)

text \<open>
  Results bucketed by position and read off in the order of the positions are results in block
  order.
\<close>

definition bucketed :: "('a \<Rightarrow> 'b) \<Rightarrow> 'a list \<Rightarrow> nat set \<Rightarrow> 'b list \<Rightarrow> 'b list \<Rightarrow> bool" where
  "bucketed f xs I rows rows' \<longleftrightarrow> length rows' = length rows \<and>
     (\<forall>i < length rows. rows' ! i = (if i \<in> I then f (xs ! i) else rows ! i))"

lemma bucketed_all:
  assumes "bucketed f xs {0..<length xs} rows rows'" and "length rows = length xs"
  shows "rows' = map f xs"
  using assms by (auto simp: bucketed_def intro: nth_equalityI)

text \<open>A scan that ends early because nothing is left leaves the rest of the rows as they are.\<close>

definition tweak_at :: "kv list \<Rightarrow> bytes \<Rightarrow> TweakRow option" where
  "tweak_at es txid = map_option (tweak_row txid) (map_of es (KeyTx txid))"

lemma KeyTx_mono: "length a = 32 \<Longrightarrow> length b = 32 \<Longrightarrow> KeyTx a \<le> KeyTx b \<longleftrightarrow> a \<le> b"
  by (simp add: KeyTx_def)

lemma tweakSeek_step:
  "tweakSeek sk txids (pos # order) rows =
     (case sk (KeyTx (txids ! pos)) of
        [] \<Rightarrow> Inr rows
      | (k, val) # _ \<Rightarrow>
          if k \<noteq> KeyTx (txids ! pos) then tweakSeek sk txids order rows
          else if length val \<noteq> 33 then Inl (Err ''bad tweak length'')
          else tweakSeek sk txids order (rows[pos := Some (tweak_row (txids ! pos) val)]))"
  unfolding tweakSeek.simps KeyTx_def Let_def SizeTweak_def ..

lemma tweakSeek_rows:
  assumes "kv_sorted R" and "\<forall>t \<in> set txids. length t = 32"
    and "\<forall>k v. map_of R k = Some v \<longrightarrow> length v = 33"
    and "distinct order" and "set order \<subseteq> {0..<length txids}" and "sorted (map ((!) txids) order)"
    and "\<forall>i \<in> set order. rows ! i = None" and "length rows = length txids"
  shows "\<exists>rows'. tweakSeek (seek R) txids order rows = Inr rows' \<and>
    bucketed (tweak_at R) txids (set order) rows rows'"
  using assms(4-)
proof (induction order arbitrary: rows)
  case Nil
  then show ?case by (simp add: bucketed_def)
next
  case (Cons pos order)
  let ?t = "txids ! pos"
  have len: "length (txids ! i) = 32" if "i \<in> set (pos # order)" for i
    using Cons.prems(2) assms(2) that by (meson atLeastLessThan_iff nth_mem subsetD)
  consider (none) "seek R (KeyTx ?t) = []"
    | (other) k v rest where "seek R (KeyTx ?t) = (k, v) # rest" "k \<noteq> KeyTx ?t"
    | (hit) v rest where "seek R (KeyTx ?t) = (KeyTx ?t, v) # rest"
    by (metis list.exhaust surj_pair)
  then show ?case
  proof cases
    case none
    have "tweak_at R (txids ! i) = None" if "i \<in> set (pos # order)" for i
    proof -
      have "?t \<le> txids ! i" using Cons.prems(3) that by auto
      then show ?thesis
        using seek_empty [OF none] KeyTx_mono len that by (simp add: tweak_at_def)
    qed
    then show ?thesis unfolding tweakSeek_step none using Cons.prems(4) by (simp add: bucketed_def)
  next
    case other
    obtain rows' where r: "tweakSeek (seek R) txids order rows = Inr rows'"
      "bucketed (tweak_at R) txids (set order) rows rows'"
      using Cons.IH [of rows] Cons.prems by auto
    have "tweak_at R ?t = None" using seek_found [OF assms(1) other(1)] other(2)
      by (simp add: tweak_at_def)
    then show ?thesis unfolding tweakSeek_step other(1)
      using r other(2) Cons.prems(4) by (auto simp: bucketed_def)
  next
    case hit
    have m: "map_of R (KeyTx ?t) = Some v" using seek_found [OF assms(1) hit] by simp
    then have v: "length v = 33" "tweak_at R ?t = Some (tweak_row ?t v)"
      using assms(3) by (auto simp: tweak_at_def)
    have "\<forall>i \<in> set order. rows[pos := Some (tweak_row ?t v)] ! i = None"
      using Cons.prems(1,4) by (metis distinct.simps(2) list.set_intros(2) nth_list_update_neq)
    then obtain rows' where r:
      "tweakSeek (seek R) txids order (rows[pos := Some (tweak_row ?t v)]) = Inr rows'"
      "bucketed (tweak_at R) txids (set order) (rows[pos := Some (tweak_row ?t v)]) rows'"
      using Cons.IH [of "rows[pos := Some (tweak_row ?t v)]"] Cons.prems by auto
    then have "bucketed (tweak_at R) txids (set (pos # order)) rows rows'"
      using v(2) Cons.prems(1) by (auto simp: bucketed_def nth_list_update)
    then show ?thesis unfolding tweakSeek_step hit using r(1) v(1) by simp
  qed
qed

section \<open>Rows of the output index\<close>

abbreviation out_rows :: "kv list \<Rightarrow> kv list" where
  "out_rows es \<equiv> kv_range (Some [KOut]) (Some [KOut + 1]) es"

definition of_tx :: "bytes \<Rightarrow> bytes \<Rightarrow> bool" where
  "of_tx txid k \<longleftrightarrow> take 32 (drop 1 k) = txid"

definition out_of :: "bytes \<Rightarrow> kv \<Rightarrow> Output" where
  "out_of txid e = \<lparr>out_Txid = txid, out_Vout = of_nat (nat_be (take 4 (drop 33 (fst e)))),
     out_Amount = of_nat (nat_be (rev (take 8 (snd e)))), out_Pubkey = drop 8 (snd e)\<rparr>"

definition outs_at :: "kv list \<Rightarrow> bytes \<Rightarrow> Output list" where
  "outs_at es txid = map (out_of txid) (filter (\<lambda>e. of_tx txid (fst e)) (out_rows es))"

definition out_row :: "kv \<Rightarrow> bool" where
  "out_row e \<longleftrightarrow> (\<exists>t v. length t = 32 \<and> fst e = KeyOut t v \<and> length (snd e) = 40)"

lemma of_tx_KeyOut [simp]: "length t = 32 \<Longrightarrow> of_tx txid (KeyOut t v) \<longleftrightarrow> t = txid"
  by (simp add: of_tx_def KeyOut_def)

lemma out_rows_typed: "typed (set es) \<Longrightarrow> e \<in> set (out_rows es) \<Longrightarrow> out_row e"
proof -
  assume t: "typed (set es)" and e: "e \<in> set (out_rows es)"
  obtain k v where kv: "e = (k, v)" by (cases e)
  with e have m: "(k, v) \<in> set es" "within ([KOut], [KOut + 1]) k"
    by (simp_all only: set_kv_range in_bounds_simps within_def fst_conv snd_conv)
  obtain dk where dk: "wf_key dk" "k = enc_key dk" "wf_val dk v" by (rule typedE [OF t m(1)])
  then obtain t v where "dk = DOut t v" using m(2) within_prefix(1) [OF dk(1)] by auto
  then show "out_row e" using dk kv by (auto simp: out_row_def)
qed

lemma row_output_row:
  assumes "out_row e"
  shows "row_output txid e = Inr (out_of txid e)"
proof -
  obtain t n v where e: "e = (KeyOut t n, v)" "length t = 32" "length v = 40"
    using assms by (cases e) (auto simp: out_row_def)
  then show ?thesis
    by (simp add: row_output_def out_of_def KeyOut_def ParseOutValue_def get_be32_def get_le64_def)
qed

lemma outRows_takeWhile:
  "\<forall>e \<in> set rows. out_row e \<Longrightarrow>
   outRows txid rows = Inr (map (out_of txid) (takeWhile (\<lambda>e. of_tx txid (fst e)) rows))"
proof (induction rows)
  case (Cons e rows)
  then obtain t n v where e: "e = (KeyOut t n, v)" "length t = 32" "length v = 40"
    by (cases e) (auto simp: out_row_def)
  then show ?case using Cons
    by (auto simp: out_of_def KeyOut_def of_tx_def get_be32_def get_le64_def)
qed simp

text \<open>The rows of one transaction lie together, from the key with output number zero on.\<close>

definition out_seek_key :: "bytes \<Rightarrow> bytes" where
  "out_seek_key t = KeyOut t 0"

lemma out_seek_key_eq: "[KOut] @ fit SizeTxid t @ replicate SizeVout 0 = out_seek_key t"
  by (simp add: out_seek_key_def KeyOut_def put_be32_zero)

lemma KeyOut_less:
  "length a = 32 \<Longrightarrow> length b = 32 \<Longrightarrow> KeyOut a m < KeyOut b n \<longleftrightarrow> a < b \<or> (a = b \<and> m < n)"
  by (simp add: KeyOut_def append_less_iff)

lemma seek_out_rows:
  assumes "kv_sorted R" and "\<forall>e \<in> set R. out_row e" and "length t = 32"
  shows "takeWhile (\<lambda>e. of_tx t (fst e)) (seek R (out_seek_key t)) =
    filter (\<lambda>e. of_tx t (fst e)) R"
proof (rule seek_takeWhile_filter [OF assms(1)])
  fix k assume "k \<in> fst ` set R" "of_tx t k"
  then obtain n where "k = KeyOut t n" using assms(2) by (force simp: out_row_def)
  then show "out_seek_key t \<le> k"
    using KeyOut_less [OF assms(3,3), of n 0] by (simp add: out_seek_key_def not_less [symmetric])
next
  fix k k' assume a: "out_seek_key t \<le> k" "k < k'" "k \<in> fst ` set R" "k' \<in> fst ` set R" "of_tx t k'"
  obtain n' where k': "k' = KeyOut t n'" using a(4,5) assms(2) by (force simp: out_row_def)
  obtain t0 n where k: "k = KeyOut t0 n" "length t0 = 32" using a(3) assms(2)
    by (force simp: out_row_def)
  have "t0 \<le> t" using a(2) KeyOut_less [OF k(2) assms(3)] k k' by auto
  moreover have "\<not> t0 < t" using a(1) KeyOut_less [OF k(2) assms(3), of n 0] k
    by (simp add: out_seek_key_def not_less [symmetric])
  ultimately show "of_tx t k" using k by simp
qed

lemma outSeek_step:
  "outSeek sk txids (pos # order) perTx =
     (if sk (out_seek_key (txids ! pos)) = [] then Inr perTx
      else bindR (outRows (txids ! pos) (sk (out_seek_key (txids ! pos)))) (\<lambda>outs.
           outSeek sk txids order (perTx[pos := perTx ! pos @ outs])))"
  unfolding outSeek.simps out_seek_key_eq Let_def by (cases "sk (out_seek_key (txids ! pos))") auto

lemma out_rows_idem: "out_rows (out_rows es) = out_rows es"
  by (simp add: kv_range_def)

lemma outSeek_rows:
  assumes "kv_sorted R" and "\<forall>e \<in> set R. out_row e" and "out_rows R = R"
    and "\<forall>t \<in> set txids. length t = 32"
    and "distinct order" and "set order \<subseteq> {0..<length txids}" and "sorted (map ((!) txids) order)"
    and "\<forall>i \<in> set order. rows ! i = []" and "length rows = length txids"
  shows "\<exists>rows'. outSeek (seek R) txids order rows = Inr rows' \<and>
    bucketed (outs_at R) txids (set order) rows rows'"
  using assms(5-)
proof (induction order arbitrary: rows)
  case Nil
  then show ?case by (simp add: bucketed_def)
next
  case (Cons pos order)
  let ?t = "txids ! pos"
  have len: "length (txids ! i) = 32" if "i \<in> set (pos # order)" for i
    using Cons.prems(2) assms(4) that by (meson atLeastLessThan_iff nth_mem subsetD)
  show ?case
  proof (cases "seek R (out_seek_key ?t) = []")
    case True
    have "outs_at R (txids ! i) = []" if i: "i \<in> set (pos # order)" for i
    proof -
      have le: "?t \<le> txids ! i" using Cons.prems(3) i by auto
      have "\<not> of_tx (txids ! i) (fst e)" if e: "e \<in> set R" for e
      proof
        assume "of_tx (txids ! i) (fst e)"
        then obtain n where n: "fst e = KeyOut (txids ! i) n"
          using assms(2) e by (auto simp: out_row_def)
        have "fst e < KeyOut ?t 0" using True e by (simp add: out_seek_key_def)
        then show False using n le KeyOut_less [OF len len, of i pos n 0] i by auto
      qed
      then show ?thesis using assms(3) by (simp add: outs_at_def filter_False)
    qed
    then show ?thesis unfolding outSeek_step using True Cons.prems(4) by (simp add: bucketed_def)
  next
    case False
    have "\<forall>e \<in> set (seek R (out_seek_key ?t)). out_row e"
      using assms(2) by (auto dest: set_dropWhileD)
    then have r0: "outRows ?t (seek R (out_seek_key ?t)) = Inr (outs_at R ?t)"
      using seek_out_rows [OF assms(1,2) len, of pos] assms(3)
      by (simp add: outRows_takeWhile outs_at_def)
    let ?rows = "rows[pos := rows ! pos @ outs_at R ?t]"
    have "\<forall>i \<in> set order. ?rows ! i = []"
      using Cons.prems(1,4) by (metis distinct.simps(2) list.set_intros(2) nth_list_update_neq)
    then obtain rows' where r: "outSeek (seek R) txids order ?rows = Inr rows'"
      "bucketed (outs_at R) txids (set order) ?rows rows'"
      using Cons.IH [of ?rows] Cons.prems by auto
    then have "bucketed (outs_at R) txids (set (pos # order)) rows rows'"
      using Cons.prems(1,4) by (auto simp: bucketed_def nth_list_update)
    then show ?thesis unfolding outSeek_step if_not_P [OF False] r0 using r(1) by simp
  qed
qed

section \<open>The reads as functions of the contents\<close>

definition range_of :: "bytes \<times> bytes \<Rightarrow> kv list \<Rightarrow> kv list" where
  "range_of bounds es = kv_range (Some (fst bounds)) (Some (snd bounds)) es"

lemma range_of_within: "range_of bounds es = filter (\<lambda>e. within bounds (fst e)) es"
  by (simp add: range_of_def kv_range_def within_def)

definition txids_at :: "kv list \<Rightarrow> bytes \<Rightarrow> bytes list" where
  "txids_at es h = map snd (range_of (BoundsBlockTx h) es)"

lemma txids_at_length:
  assumes "typed (set es)" and "length h = 32" and "t \<in> set (txids_at es h)"
  shows "length t = 32"
proof -
  obtain k where k: "(k, t) \<in> set es" "within (BoundsBlockTx h) k"
    using assms(3) by (auto simp: txids_at_def range_of_within)
  obtain dk where dk: "wf_key dk" "k = enc_key dk" "wf_val dk t" by (rule typedE [OF assms(1) k(1)])
  then show ?thesis using within_BlockTx [OF assms(2) dk(1)] k(2) by auto
qed

lemma BoundsOut_rows:
  assumes "typed (set es)" and "length t = 32"
  shows "range_of (BoundsOut t) es = filter (\<lambda>e. of_tx t (fst e)) (out_rows es)"
  unfolding range_of_within kv_range_def filter_filter
proof (rule filter_cong [OF refl])
  fix e assume e: "e \<in> set es"
  obtain k v where kv: "e = (k, v)" by (cases e)
  obtain dk where dk: "wf_key dk" "k = enc_key dk" "wf_val dk v"
    using typedE [OF assms(1)] e kv by metis
  have "in_bounds (Some [KOut]) (Some [KOut + 1]) k \<longleftrightarrow> (\<exists>t v. dk = DOut t v)"
    using within_prefix(1) [OF dk(1)] dk(2) by (simp only: in_bounds_simps within_def fst_conv snd_conv)
  then show "within (BoundsOut t) (fst e) \<longleftrightarrow>
      in_bounds (Some [KOut]) (Some [KOut + 1]) (fst e) \<and> of_tx t (fst e)"
    using within_Out [OF assms(2) dk(1)] dk kv by auto
qed

context pebble_reliable
begin

lemma iter_eq:
  obtains it where "pb_iter P db (Some (fst bounds)) (Some (snd bounds)) = Inr it"
    "it_Error it = None" "it_First it = range_of bounds (entries db)"
    "it_Last it = rev (range_of bounds (entries db))"
  using iterE [of db "Some (fst bounds)" "Some (snd bounds)"] unfolding range_of_def by metis

lemma iter_seek_eq:
  obtains it where "pb_iter P db lb ub = Inr it" "it_Error it = None"
    "it_SeekGE it = seek (kv_range lb ub (entries db))"
proof -
  obtain it where it: "pb_iter P db lb ub = Inr it" "it_Error it = None"
    using iter_ok [of db lb ub] by blast
  have "it_SeekGE it = seek (kv_range lb ub (entries db))"
    by (rule ext) (rule iter_seek [OF it])
  with it show thesis by (rule that)
qed

lemma BlockTxids_eq:
  assumes "typed (set (entries (st_DB s)))" and "length h = 32"
  shows "BlockTxids P s h = Inr (txids_at (entries (st_DB s)) h)"
proof -
  let ?es = "entries (st_DB s)"
  obtain it where it: "pb_iter P (st_DB s) (Some (fst (BoundsBlockTx h)))
      (Some (snd (BoundsBlockTx h))) = Inr it"
    "it_Error it = None" "it_First it = range_of (BoundsBlockTx h) ?es" by (rule iter_eq)
  have l: "length v = 32" if "(k, v) \<in> set (range_of (BoundsBlockTx h) ?es)" for k v
    by (rule txids_at_length [OF assms]) (use that in \<open>force simp: txids_at_def\<close>)
  have "mapR (\<lambda>(k, v). if length v \<noteq> SizeTxid then Inl (Err ''bad txid length in block index'')
      else Inr (fit SizeTxid v)) (range_of (BoundsBlockTx h) ?es) =
      Inr (map snd (range_of (BoundsBlockTx h) ?es))"
    using l by (intro mapR_Inr) auto
  then show ?thesis using it
    by (simp add: BlockTxids_def split_beta txids_at_def errorR_def)
qed

lemma OutputsForTx_eq:
  assumes "typed (set (entries (st_DB s)))" and "length t = 32"
  shows "OutputsForTx P s t = Inr (outs_at (entries (st_DB s)) t)"
proof -
  let ?es = "entries (st_DB s)"
  obtain it where it: "pb_iter P (st_DB s) (Some (fst (BoundsOut t)))
      (Some (snd (BoundsOut t))) = Inr it"
    "it_First it = range_of (BoundsOut t) ?es" by (rule iter_eq)
  have "mapR (row_output t) (range_of (BoundsOut t) ?es) =
      Inr (map (out_of t) (range_of (BoundsOut t) ?es))"
    using out_rows_typed [OF assms(1)]
    by (intro mapR_Inr row_output_row) (auto simp: BoundsOut_rows [OF assms])
  then show ?thesis using it
    by (simp add: OutputsForTx_def split_beta outs_at_def BoundsOut_rows [OF assms])
qed

lemma LoadTweak_eq:
  "LoadTweak P s t = Inr (case map_of (entries (st_DB s)) (KeyTx t) of
     Some v \<Rightarrow> (v, True) | None \<Rightarrow> ([], False))"
  by (simp add: LoadTweak_def get_eq split: option.split)

lemma refTweaksLoop_eq:
  "refTweaksLoop P s txids = Inr (List.map_filter (tweak_at (entries (st_DB s))) txids)"
  by (induction txids)
    (auto simp: LoadTweak_eq tweak_at_def map_filter_simps split: option.split)

lemma TweaksForBlockAll_eq:
  assumes "typed (set (entries (st_DB s)))" and "length h = 32"
  shows "TweaksForBlockAll P s h = refTweaksForBlockAll P s h"
proof -
  let ?es = "entries (st_DB s)" and ?txids = "txids_at (entries (st_DB s)) h"
  define R where "R = kv_range (Some [KTx]) (Some [KTx + 1]) ?es"
  obtain it where it: "pb_iter P (st_DB s) (Some [KTx]) (Some [KTx + 1]) = Inr it"
    "it_Error it = None" "it_SeekGE it = seek R"
    unfolding R_def by (rule iter_seek_eq)
  have sR: "kv_sorted R" by (simp add: R_def entries_sorted)
  have mR: "map_of R (KeyTx t) = map_of ?es (KeyTx t)" for t
    by (simp add: R_def map_of_kv_range [OF entries_sorted] KeyTx_def)
  have vR: "\<forall>k v. map_of R k = Some v \<longrightarrow> length v = 33"
  proof (intro allI impI)
    fix k v assume "map_of R k = Some v"
    then have kv: "(k, v) \<in> set ?es" "within ([KTx], [KTx + 1]) k"
      using map_of_sorted_iff [OF sR, of k v]
      by (simp_all only: R_def set_kv_range in_bounds_simps within_def fst_conv snd_conv simp_thms)
    obtain dk where dk: "wf_key dk" "k = enc_key dk" "wf_val dk v"
      by (rule typedE [OF assms(1) kv(1)])
    then show "length v = 33" using within_prefix(2) [OF dk(1)] kv(2) by auto
  qed
  have "\<forall>t \<in> set ?txids. length t = 32" using txids_at_length [OF assms] by blast
  then obtain rows where rows:
    "tweakSeek (seek R) ?txids (sortedTxidOrder ?txids) (replicate (length ?txids) None) = Inr rows"
    "bucketed (tweak_at R) ?txids (set (sortedTxidOrder ?txids))
       (replicate (length ?txids) None) rows"
    using tweakSeek_rows [OF sR _ vR, of ?txids "sortedTxidOrder ?txids"
        "replicate (length ?txids) None"] sortedTxidOrder_scan [of ?txids]
    by (auto simp: scan_order_def)
  then have "rows = map (tweak_at R) ?txids"
    using sortedTxidOrder_scan [of ?txids] by (intro bucketed_all) (auto simp: scan_order_def)
  then have "map the (filter (\<lambda>r. r \<noteq> None) rows) = List.map_filter (tweak_at ?es) ?txids"
    by (simp add: List.map_filter_def tweak_at_def mR filter_map comp_def)
  then show ?thesis using rows(1) it BlockTxids_eq [OF assms]
    by (simp add: TweaksForBlockAll_def refTweaksForBlockAll_def refTweaksLoop_eq errorR_def
        map_filter_simps)
qed

lemma fetchOutputs_eq:
  assumes "typed (set (entries (st_DB s)))" and "length h = 32"
  shows "fetchOutputs P s h =
    Inr (concat (map (outs_at (entries (st_DB s))) (txids_at (entries (st_DB s)) h)))"
proof -
  let ?es = "entries (st_DB s)" and ?txids = "txids_at (entries (st_DB s)) h"
  define R where "R = out_rows ?es"
  obtain it where it: "pb_iter P (st_DB s) (Some [KOut]) (Some [KOut + 1]) = Inr it"
    "it_Error it = None" "it_SeekGE it = seek R"
    unfolding R_def by (rule iter_seek_eq)
  have sR: "kv_sorted R" by (simp add: R_def entries_sorted)
  have oR: "\<forall>e \<in> set R. out_row e" "out_rows R = R" "outs_at R = outs_at ?es"
    using out_rows_typed [OF assms(1)] out_rows_idem [of ?es]
    by (simp_all add: R_def outs_at_def fun_eq_iff)
  have len: "\<forall>t \<in> set ?txids. length t = 32" using txids_at_length [OF assms] by blast
  obtain rows where rows:
    "outSeek (seek R) ?txids (sortedTxidOrder ?txids) (replicate (length ?txids) []) = Inr rows"
    "bucketed (outs_at R) ?txids (set (sortedTxidOrder ?txids))
       (replicate (length ?txids) []) rows"
    using outSeek_rows [OF sR oR(1,2) len, of "sortedTxidOrder ?txids"
        "replicate (length ?txids) []"] sortedTxidOrder_scan [of ?txids]
    by (auto simp: scan_order_def)
  then have "rows = map (outs_at R) ?txids"
    using sortedTxidOrder_scan [of ?txids] by (intro bucketed_all) (auto simp: scan_order_def)
  then show ?thesis using rows(1) it BlockTxids_eq [OF assms] oR(3)
    by (simp add: fetchOutputs_def errorR_def)
qed

lemma refFetchOutputs_eq:
  assumes "typed (set (entries (st_DB s)))" and "length h = 32"
  shows "refFetchOutputs P s h = fetchOutputs P s h"
proof -
  let ?es = "entries (st_DB s)"
  have "mapR (OutputsForTx P s) (txids_at ?es h) = Inr (map (outs_at ?es) (txids_at ?es h))"
    using OutputsForTx_eq [OF assms(1)] txids_at_length [OF assms] by (intro mapR_Inr) simp
  then show ?thesis using BlockTxids_eq [OF assms] fetchOutputs_eq [OF assms]
    by (simp add: refFetchOutputs_def)
qed

end

section \<open>Spent outputs and cut-through\<close>

definition height_of :: "kv list \<Rightarrow> bytes \<Rightarrow> u32 option" where
  "height_of es h = map_option (\<lambda>v. of_nat (nat_be (take 4 v))) (map_of es (KeyCIBlock h))"

text \<open>
  An output counts as spent at a height if some spend of it is recorded in a block that the chain
  index knows with at most that height.
\<close>

definition spent_by :: "kv list \<Rightarrow> bytes \<Rightarrow> u32 \<Rightarrow> u32 \<Rightarrow> bool" where
  "spent_by es t n H \<longleftrightarrow> (\<exists>h m. length h = 32 \<and> map_of es (KeySpend t n h) \<noteq> None \<and>
     height_of es h = Some m \<and> m \<le> H)"

definition has_unspent :: "kv list \<Rightarrow> u32 \<Rightarrow> bytes \<Rightarrow> bool" where
  "has_unspent es H t \<longleftrightarrow> (\<exists>o' \<in> set (outs_at es t). \<not> spent_by es t (out_Vout o') H)"

definition unspent_tweak :: "kv list \<Rightarrow> u32 \<Rightarrow> bytes \<Rightarrow> TweakRow option" where
  "unspent_tweak es H t = (if has_unspent es H t then tweak_at es t else None)"

definition dusted :: "kv list \<Rightarrow> u32 \<Rightarrow> u64 \<Rightarrow> bytes \<Rightarrow> bool" where
  "dusted es H dust t \<longleftrightarrow> (\<exists>o' \<in> set (outs_at es t). \<not> spent_by es t (out_Vout o') H \<and>
     dust \<le> out_Amount o')"

lemma spend_rows:
  assumes "typed (set es)" and "kv_sorted es" and "length t = 32"
  shows "(k, v) \<in> set (range_of (BoundsSpend t n) es) \<longleftrightarrow>
    (\<exists>h. length h = 32 \<and> k = KeySpend t n h \<and> map_of es k = Some v)"
proof
  assume "(k, v) \<in> set (range_of (BoundsSpend t n) es)"
  then have kv: "(k, v) \<in> set es" "within (BoundsSpend t n) k" by (auto simp: range_of_within)
  obtain dk where dk: "wf_key dk" "k = enc_key dk" "wf_val dk v" by (rule typedE [OF assms(1) kv(1)])
  then obtain h where "dk = DSpend t n h" using within_Spend [OF assms(3) dk(1)] kv(2) by auto
  then show "\<exists>h. length h = 32 \<and> k = KeySpend t n h \<and> map_of es k = Some v"
    using dk map_of_sorted_iff [OF assms(2)] kv(1) by auto
next
  assume "\<exists>h. length h = 32 \<and> k = KeySpend t n h \<and> map_of es k = Some v"
  then obtain h where h: "length h = 32" "k = enc_key (DSpend t n h)" "(k, v) \<in> set es"
    using map_of_sorted_iff [OF assms(2)] by auto
  obtain dk where dk: "wf_key dk" "k = enc_key dk" "wf_val dk v" by (rule typedE [OF assms(1) h(3)])
  have "dk = DSpend t n h" using enc_key_inj [of dk "DSpend t n h"] dk h assms(3) by simp
  then have "within (BoundsSpend t n) k" using within_Spend [OF assms(3) dk(1)] dk by auto
  then show "(k, v) \<in> set (range_of (BoundsSpend t n) es)" using h by (simp add: range_of_within)
qed

lemma spend_rows_keys:
  assumes "typed (set es)" and "kv_sorted es" and "length t = 32"
  shows "\<forall>e \<in> set (range_of (BoundsSpend t n) es). \<exists>h. length h = 32 \<and> fst e = KeySpend t n h"
proof
  fix e assume e: "e \<in> set (range_of (BoundsSpend t n) es)"
  obtain k v where "e = (k, v)" by (cases e)
  then show "\<exists>h. length h = 32 \<and> fst e = KeySpend t n h"
    using e spend_rows [OF assms, of k v n] by auto
qed

lemma spend_block_KeySpend [simp]:
  "length t = 32 \<Longrightarrow> length h = 32 \<Longrightarrow> spend_block (KeySpend t n h) = Inr h"
  by (simp add: spend_block_def KeySpend_def)

lemma unspentLoop_eq:
  assumes "\<And>n. IsSpentAt P s txid n H active = Inr (spent n)"
  shows "unspentLoop P s txid H active outs (b, m) =
    Inr (b \<or> (\<exists>o' \<in> set outs. \<not> spent (out_Vout o')),
      foldl max m (map out_Amount (filter (\<lambda>o'. \<not> spent (out_Vout o')) outs)))"
  by (induction outs arbitrary: b m) (auto simp: assms max_def not_less)

lemma foldl_max_ge: "(d :: u64) \<le> foldl max m xs \<longleftrightarrow> d \<le> m \<or> (\<exists>x \<in> set xs. d \<le> x)"
  by (induction xs arbitrary: m) (auto simp: le_max_iff_disj)

context pebble_reliable
begin

lemma heightIfOnBestChain_eq:
  assumes "typed (set (entries (st_DB s)))" and "length h = 32"
  shows "heightIfOnBestChain P s h = Inr (case height_of (entries (st_DB s)) h of
     None \<Rightarrow> (0, False) | Some n \<Rightarrow> (n, True))"
proof (cases "map_of (entries (st_DB s)) (KeyCIBlock h)")
  case None
  then show ?thesis by (simp add: heightIfOnBestChain_def get_eq height_of_def)
next
  case (Some v)
  then have kv: "(enc_key (DCIBlock h), v) \<in> set (entries (st_DB s))"
    using map_of_sorted_iff [OF entries_sorted] by simp
  obtain dk where dk: "wf_key dk" "enc_key (DCIBlock h) = enc_key dk" "wf_val dk v"
    by (rule typedE [OF assms(1) kv])
  then have "length v = 4" using enc_key_inj [of "DCIBlock h" dk] assms(2) by auto
  then show ?thesis using Some
    by (simp add: heightIfOnBestChain_def get_eq height_of_def get_be32_def)
qed

lemma spentTipLoop_eq:
  assumes "typed (set (entries (st_DB s)))" and "length t = 32"
    and "\<forall>e \<in> set rows. \<exists>h. length h = 32 \<and> fst e = KeySpend t n h"
  shows "spentTipLoop P s H rows = Inr (\<exists>h m. length h = 32 \<and> KeySpend t n h \<in> fst ` set rows \<and>
     height_of (entries (st_DB s)) h = Some m \<and> m \<le> H)"
  using assms(3)
proof (induction rows)
  case (Cons e rows)
  let ?es = "entries (st_DB s)"
  obtain h v where e: "e = (KeySpend t n h, v)" "length h = 32"
    using Cons.prems by (cases e) auto
  have inj: "KeySpend t n h' = KeySpend t n h \<longleftrightarrow> h' = h" if "length h' = 32" for h'
    using enc_key_inj [of "DSpend t n h'" "DSpend t n h"] that e(2) assms(2) by auto
  have "spentTipLoop P s H (e # rows) = Inr ((\<exists>m. height_of ?es h = Some m \<and> m \<le> H) \<or>
      (\<exists>h m. length h = 32 \<and> KeySpend t n h \<in> fst ` set rows \<and> height_of ?es h = Some m \<and> m \<le> H))"
    using Cons e assms(2) heightIfOnBestChain_eq [OF assms(1) e(2)]
    by (auto split: option.split)
  moreover have "(\<exists>h m. length h = 32 \<and> KeySpend t n h \<in> fst ` set (e # rows) \<and>
      height_of ?es h = Some m \<and> m \<le> H) \<longleftrightarrow> ((\<exists>m. height_of ?es h = Some m \<and> m \<le> H) \<or>
      (\<exists>h m. length h = 32 \<and> KeySpend t n h \<in> fst ` set rows \<and> height_of ?es h = Some m \<and> m \<le> H))"
    using e inj by auto
  ultimately show ?case by (simp only:)
qed simp

lemma spentAtHeightTip_eq:
  assumes "typed (set (entries (st_DB s)))" and "length t = 32"
  shows "spentAtHeightTip P s t n H = Inr (spent_by (entries (st_DB s)) t n H)"
proof -
  let ?es = "entries (st_DB s)"
  obtain it where it: "pb_iter P (st_DB s) (Some (fst (BoundsSpend t n)))
      (Some (snd (BoundsSpend t n))) = Inr it"
    "it_First it = range_of (BoundsSpend t n) ?es" by (rule iter_eq)
  note rows = spend_rows [OF assms(1) entries_sorted assms(2)]
  have "\<forall>e \<in> set (range_of (BoundsSpend t n) ?es). \<exists>h. length h = 32 \<and> fst e = KeySpend t n h"
    by (rule spend_rows_keys [OF assms(1) entries_sorted assms(2)])
  note loop = spentTipLoop_eq [OF assms this, of H]
  have "KeySpend t n h \<in> fst ` set (range_of (BoundsSpend t n) ?es) \<longleftrightarrow>
      map_of ?es (KeySpend t n h) \<noteq> None" if "length h = 32" for h
    unfolding fst_image_iff rows using that by auto
  then show ?thesis using it loop
    by (simp add: spentAtHeightTip_def split_beta spent_by_def cong: conj_cong)
qed

lemma keepLoop_eq:
  assumes "typed (set (entries (st_DB s)))" and "length t = 32"
  shows "keepLoop P s t H outs =
    Inr (\<exists>o' \<in> set outs. \<not> spent_by (entries (st_DB s)) t (out_Vout o') H)"
  by (induction outs) (auto simp: spentAtHeightTip_eq [OF assms])

lemma cutThroughLoop_eq:
  assumes "typed (set (entries (st_DB s)))" and "\<forall>t \<in> set txids. length t = 32"
  shows "cutThroughLoop P s H txids =
    Inr (List.map_filter (unspent_tweak (entries (st_DB s)) H) txids)"
  using assms(2)
proof (induction txids)
  case (Cons t txids)
  then have t: "length t = 32" by simp
  show ?case using Cons OutputsForTx_eq [OF assms(1) t] keepLoop_eq [OF assms(1) t]
    by (auto simp: LoadTweak_eq map_filter_simps unspent_tweak_def has_unspent_def tweak_at_def
        split: option.split)
qed (simp add: map_filter_simps)

lemma TweaksForBlockCutThrough_eq:
  assumes "typed (set (entries (st_DB s)))" and "length h = 32"
  shows "TweaksForBlockCutThrough P s h H = Inr (List.map_filter
    (unspent_tweak (entries (st_DB s)) H) (txids_at (entries (st_DB s)) h))"
  using cutThroughLoop_eq [OF assms(1)] txids_at_length [OF assms]
  by (simp add: TweaksForBlockCutThrough_def BlockTxids_eq [OF assms])

lemma filterOutputs_eq:
  assumes "typed (set (entries (st_DB s)))" and "\<forall>o' \<in> set outs. length (out_Txid o') = 32"
  shows "filterOutputs P s H dust outs = Inr (filter (\<lambda>o'. dust \<le> out_Amount o' \<and>
    \<not> spent_by (entries (st_DB s)) (out_Txid o') (out_Vout o') H) outs)"
  using assms(2) by (induction outs) (auto simp: spentAtHeightTip_eq [OF assms(1)] not_less)

lemma FetchOutputsCutThrough_eq:
  assumes "typed (set (entries (st_DB s)))" and "length h = 32"
  shows "FetchOutputsCutThroughDustLimit P s h H dust =
    bindR (refFetchOutputs P s h) (\<lambda>outs. Inr (filter (\<lambda>o'. dust \<le> out_Amount o' \<and>
      \<not> spent_by (entries (st_DB s)) (out_Txid o') (out_Vout o') H) outs))"
proof -
  let ?es = "entries (st_DB s)"
  let ?outs = "concat (map (outs_at ?es) (txids_at ?es h))"
  have "\<forall>o' \<in> set ?outs. length (out_Txid o') = 32"
    using txids_at_length [OF assms] by (auto simp: outs_at_def out_of_def)
  then show ?thesis
    by (simp add: FetchOutputsCutThroughDustLimit_def refFetchOutputs_eq [OF assms]
        fetchOutputs_eq [OF assms] filterOutputs_eq [OF assms(1)])
qed

text \<open>The older query with an explicit view of the active chain.\<close>

lemma IsSpentAt_eq:
  assumes "typed (set (entries (st_DB s)))" and "length t = 32"
    and "\<And>h. length h = 32 \<Longrightarrow> heightIfOnBestChain P s h = Inr (active h)"
  shows "IsSpentAt P s t n H active = spentAtHeightTip P s t n H"
proof -
  obtain it where it: "pb_iter P (st_DB s) (Some (fst (BoundsSpend t n)))
      (Some (snd (BoundsSpend t n))) = Inr it"
    "it_First it = range_of (BoundsSpend t n) (entries (st_DB s))" by (rule iter_eq)
  have "isSpentLoop active H rows = spentTipLoop P s H rows"
    if "\<forall>e \<in> set rows. \<exists>h. length h = 32 \<and> fst e = KeySpend t n h" for rows
    using that
  proof (induction rows)
    case (Cons e rows)
    then obtain h v where "e = (KeySpend t n h, v)" "length h = 32" by (cases e) auto
    then show ?case using Cons assms(2,3) by (simp add: Let_def split_beta)
  qed simp
  moreover have "\<forall>e \<in> set (range_of (BoundsSpend t n) (entries (st_DB s))).
      \<exists>h. length h = 32 \<and> fst e = KeySpend t n h"
    by (rule spend_rows_keys [OF assms(1) entries_sorted assms(2)])
  ultimately show ?thesis using it by (simp add: IsSpentAt_def spentAtHeightTip_def split_beta)
qed

lemma tweaksLoop_eq:
  assumes "typed (set (entries (st_DB s)))" and "\<forall>t \<in> set txids. length t = 32"
    and "\<And>h. length h = 32 \<Longrightarrow> heightIfOnBestChain P s h = Inr (active h)"
  shows "tweaksLoop P s H dust active txids = Inr (List.map_filter (\<lambda>t.
    if has_unspent (entries (st_DB s)) H t \<and> (dust = 0 \<or> dusted (entries (st_DB s)) H dust t)
    then tweak_at (entries (st_DB s)) t else None) txids)"
  using assms(2)
proof (induction txids)
  case (Cons t txids)
  let ?es = "entries (st_DB s)"
  have t: "length t = 32" using Cons.prems by simp
  have u: "unspentLoop P s t H active outs (b, m) =
      Inr (b \<or> (\<exists>o' \<in> set outs. \<not> spent_by ?es t (out_Vout o') H),
        foldl max m (map out_Amount (filter (\<lambda>o'. \<not> spent_by ?es t (out_Vout o') H) outs)))"
    for outs b m
    by (rule unspentLoop_eq)
      (simp add: IsSpentAt_eq [OF assms(1) t assms(3)] spentAtHeightTip_eq [OF assms(1) t])
  have d: "dust \<noteq> 0 \<Longrightarrow> dust \<le> foldl max 0 (map out_Amount
      (filter (\<lambda>o'. \<not> spent_by ?es t (out_Vout o') H) (outs_at ?es t))) \<longleftrightarrow> dusted ?es H dust t"
    by (auto simp: foldl_max_ge dusted_def)
  show ?case
  proof (cases "map_of ?es (KeyTx t)")
    case None
    then show ?thesis using Cons by (simp add: LoadTweak_eq map_filter_simps tweak_at_def)
  next
    case (Some v)
    have h: "(\<exists>o' \<in> set (outs_at ?es t). \<not> spent_by ?es t (out_Vout o') H) = has_unspent ?es H t"
      by (simp add: has_unspent_def)
    show ?thesis using Cons d unfolding tweaksLoop.simps OutputsForTx_eq [OF assms(1) t] LoadTweak_eq
      by (auto simp: Some map_filter_simps tweak_at_def u h)
  qed
qed (simp add: map_filter_simps)

lemma TweaksForBlock_eq:
  assumes "typed (set (entries (st_DB s)))" and "length h = 32"
    and "\<And>h. length h = 32 \<Longrightarrow> heightIfOnBestChain P s h = Inr (active h)"
  shows "TweaksForBlock P s h H dust active = Inr (List.map_filter (\<lambda>t.
    if has_unspent (entries (st_DB s)) H t \<and> (dust = 0 \<or> dusted (entries (st_DB s)) H dust t)
    then tweak_at (entries (st_DB s)) t else None) (txids_at (entries (st_DB s)) h))"
  using tweaksLoop_eq [OF assms(1) _ assms(3)] txids_at_length [OF assms(1,2)]
  by (simp add: TweaksForBlock_def BlockTxids_eq [OF assms(1,2)])

end

lemma cutThroughDustLoop_eq: "cutThroughDustLoop P s H dust txids = cutThroughLoop P s H txids"
  by (induction txids) (simp_all cong: if_cong)

section \<open>The chain index\<close>

lemma chain_rows:
  assumes "typed (set es)" and "kv_sorted es"
  shows "(k, v) \<in> set (range_of BoundsCIHeight es) \<longleftrightarrow>
    (\<exists>n. k = KeyCIHeight n \<and> map_of es k = Some v \<and> length v = 32)"
proof
  assume "(k, v) \<in> set (range_of BoundsCIHeight es)"
  then have kv: "(k, v) \<in> set es" "within BoundsCIHeight k" by (auto simp: range_of_within)
  obtain dk where dk: "wf_key dk" "k = enc_key dk" "wf_val dk v" by (rule typedE [OF assms(1) kv(1)])
  then show "\<exists>n. k = KeyCIHeight n \<and> map_of es k = Some v \<and> length v = 32"
    using within_CIHeight [OF dk(1)] kv map_of_sorted_iff [OF assms(2)] by auto
next
  assume "\<exists>n. k = KeyCIHeight n \<and> map_of es k = Some v \<and> length v = 32"
  then obtain n where n: "k = enc_key (DCIHeight n)" "(k, v) \<in> set es"
    using map_of_sorted_iff [OF assms(2)] by auto
  obtain dk where dk: "wf_key dk" "k = enc_key dk" "wf_val dk v" by (rule typedE [OF assms(1) n(2)])
  then have "dk = DCIHeight n" by (intro enc_key_inj) (use n in simp_all)
  then have "within BoundsCIHeight k" using within_CIHeight [OF dk(1)] dk by auto
  then show "(k, v) \<in> set (range_of BoundsCIHeight es)" using n by (simp add: range_of_within)
qed

lemma KeyCIHeight_less: "KeyCIHeight m < KeyCIHeight n \<longleftrightarrow> m < n"
  by (simp add: KeyCIHeight_def)

lemma chain_entry_Key:
  "length h = 32 \<Longrightarrow> chain_entry ((KeyCIHeight n, h) # rows) = Inr (Some h, n)"
  by (simp add: chain_entry_def KeyCIHeight_def)

lemma chain_value_length:
  assumes "typed (set es)" and "kv_sorted es" and "map_of es (KeyCIHeight n) = Some h"
  shows "length h = 32"
proof -
  have m: "(enc_key (DCIHeight n), h) \<in> set es" using assms(3) map_of_sorted_iff [OF assms(2)] by simp
  obtain dk where dk: "wf_key dk" "enc_key (DCIHeight n) = enc_key dk" "wf_val dk h"
    by (rule typedE [OF assms(1) m])
  then show ?thesis using enc_key_inj [of "DCIHeight n" dk] by auto
qed

text \<open>The last and the first row of the chain index: the highest and the lowest height.\<close>

definition is_tip :: "kv list \<Rightarrow> bytes option \<times> u32 \<Rightarrow> bool" where
  "is_tip es r \<longleftrightarrow> (case r of
      (None, n) \<Rightarrow> n = 0 \<and> (\<forall>m. map_of es (KeyCIHeight m) = None)
    | (Some h, n) \<Rightarrow> map_of es (KeyCIHeight n) = Some h \<and>
        (\<forall>m. map_of es (KeyCIHeight m) \<noteq> None \<longrightarrow> m \<le> n))"

definition is_first :: "kv list \<Rightarrow> bytes option \<times> u32 \<Rightarrow> bool" where
  "is_first es r \<longleftrightarrow> (case r of
      (None, n) \<Rightarrow> n = 0 \<and> (\<forall>m. map_of es (KeyCIHeight m) = None)
    | (Some h, n) \<Rightarrow> map_of es (KeyCIHeight n) = Some h \<and>
        (\<forall>m. map_of es (KeyCIHeight m) \<noteq> None \<longrightarrow> n \<le> m))"

context pebble_reliable
begin

lemma chain_rows_dom:
  assumes "typed (set (entries db))"
  shows "(\<exists>v. (KeyCIHeight m, v) \<in> set (range_of BoundsCIHeight (entries db))) \<longleftrightarrow>
    map_of (entries db) (KeyCIHeight m) \<noteq> None"
  using chain_rows [OF assms entries_sorted] chain_value_length [OF assms entries_sorted] by auto

lemma GetChainTip_eq:
  assumes "typed (set (entries (st_DB s)))"
  shows "\<exists>r. GetChainTip P s = Inr r \<and> is_tip (entries (st_DB s)) r"
proof -
  let ?es = "entries (st_DB s)" and ?R = "range_of BoundsCIHeight (entries (st_DB s))"
  obtain it where it: "pb_iter P (st_DB s) (Some (fst BoundsCIHeight)) (Some (snd BoundsCIHeight))
      = Inr it" "it_Last it = rev ?R" by (rule iter_eq)
  have g: "GetChainTip P s = chain_entry (rev ?R)" using it by (simp add: GetChainTip_def split_beta)
  show ?thesis
  proof (cases "?R" rule: rev_cases)
    case Nil
    then show ?thesis using chain_rows_dom [OF assms] g
      by (auto simp: is_tip_def chain_entry_def)
  next
    case (snoc R e)
    have s: "sorted_wrt (<) (map fst ?R)" by (simp add: range_of_def entries_sorted)
    obtain n v where e: "e = (KeyCIHeight n, v)" "map_of ?es (KeyCIHeight n) = Some v" "length v = 32"
      using chain_rows [OF assms entries_sorted, of "fst e" "snd e"] snoc by (cases e) auto
    have "m \<le> n" if m: "map_of ?es (KeyCIHeight m) \<noteq> None" for m
    proof -
      obtain w where "(KeyCIHeight m, w) \<in> set R \<or> (KeyCIHeight m, w) = e"
        using chain_rows_dom [OF assms, of m] m snoc by auto
      then have "KeyCIHeight m < KeyCIHeight n \<or> m = n"
        using s snoc e by (auto simp: sorted_wrt_append KeyCIHeight_def)
      then show ?thesis by (auto simp: KeyCIHeight_less)
    qed
    then show ?thesis using g snoc e by (auto simp: chain_entry_Key is_tip_def)
  qed
qed

lemma FirstBlock_eq:
  assumes "typed (set (entries (st_DB s)))"
  shows "\<exists>r. FirstBlock P s = Inr r \<and> is_first (entries (st_DB s)) r"
proof -
  let ?es = "entries (st_DB s)" and ?R = "range_of BoundsCIHeight (entries (st_DB s))"
  obtain it where it: "pb_iter P (st_DB s) (Some (fst BoundsCIHeight)) (Some (snd BoundsCIHeight))
      = Inr it" "it_First it = ?R" by (rule iter_eq)
  have g: "FirstBlock P s = chain_entry ?R" using it by (simp add: FirstBlock_def split_beta)
  show ?thesis
  proof (cases "?R")
    case Nil
    then show ?thesis using chain_rows_dom [OF assms] g
      by (auto simp: is_first_def chain_entry_def)
  next
    case (Cons e R)
    have s: "sorted_wrt (<) (map fst ?R)" by (simp add: range_of_def entries_sorted)
    obtain n v where e: "e = (KeyCIHeight n, v)" "map_of ?es (KeyCIHeight n) = Some v" "length v = 32"
      using chain_rows [OF assms entries_sorted, of "fst e" "snd e"] Cons by (cases e) auto
    have "n \<le> m" if m: "map_of ?es (KeyCIHeight m) \<noteq> None" for m
    proof -
      obtain w where "(KeyCIHeight m, w) \<in> set R \<or> (KeyCIHeight m, w) = e"
        using chain_rows_dom [OF assms, of m] m Cons by auto
      then have "KeyCIHeight n < KeyCIHeight m \<or> m = n"
        using s Cons e by (auto simp: KeyCIHeight_def)
      then show ?thesis by (auto simp: KeyCIHeight_less)
    qed
    then show ?thesis using g Cons e by (auto simp: chain_entry_Key is_first_def)
  qed
qed

end

section \<open>Reading back a block\<close>

text \<open>The contents after a run of the store that starts from an empty database and is flushed.\<close>

definition holds_blocks :: "kv list \<Rightarrow> DBBlock list \<Rightarrow> bool" where
  "holds_blocks es bs \<longleftrightarrow> kv_sorted es \<and> set es = all_puts bs \<and> list_all wf_block bs"

lemma block_put_enc:
  assumes "wf_block blk" and "wf_key dk"
  shows "(enc_key dk, v) \<in> set (map enc_put (block_puts blk)) \<longleftrightarrow> (dk, v) \<in> set (block_puts blk)"
proof -
  have "enc_key (fst p) = enc_key dk \<longleftrightarrow> fst p = dk" if "p \<in> set (block_puts blk)" for p
    using that wf_put_block [OF assms(1)] enc_key_eq_iff [OF _ assms(2)]
    by (auto simp: list_all_iff wf_put_def)
  then show ?thesis by (force simp: enc_put_def)
qed

lemma holds_lookup:
  assumes "holds_blocks es bs" and "wf_key dk"
  shows "map_of es (enc_key dk) = Some v \<longleftrightarrow> (\<exists>blk \<in> set bs. (dk, v) \<in> set (block_puts blk))"
proof -
  note h = assms(1) [unfolded holds_blocks_def]
  have "map_of es (enc_key dk) = Some v \<longleftrightarrow> (enc_key dk, v) \<in> all_puts bs"
    using h map_of_sorted_iff by auto
  also have "\<dots> \<longleftrightarrow> (\<exists>blk \<in> set bs. (dk, v) \<in> set (block_puts blk))"
    using h block_put_enc [OF _ assms(2)] unfolding all_puts_def list_all_iff by blast
  finally show ?thesis .
qed

lemma tx_puts_mem:
  "(DBlockTx h' p, v) \<in> set (tx_puts h n i t) \<longleftrightarrow> h' = h \<and> p = of_nat i \<and> v = tx_Txid t"
  "(DTx x, v) \<in> set (tx_puts h n i t) \<longleftrightarrow> x = tx_Txid t \<and> tx_Tweak t = Some v"
  "(DCIHeight m, v) \<notin> set (tx_puts h n i t)"
  "(DCIBlock h', v) \<notin> set (tx_puts h n i t)"
  "(DSpend x m h', v) \<in> set (tx_puts h n i t) \<longleftrightarrow> h' = h \<and> (\<exists>inp \<in> set (tx_Ins t).
     x = in_PrevTxid inp \<and> m = in_PrevVout inp \<and> v = the (in_Pubkey inp))"
  "(DComputeIndex m x, v) \<in> set (tx_puts h n i t) \<longleftrightarrow> m = n \<and> x = tx_Txid t \<and>
     (\<exists>tw. tx_Tweak t = Some tw \<and> v = tw @ concat (outs_short t))"
  "(DOut x m, v) \<in> set (tx_puts h n i t) \<longleftrightarrow> tx_Tweak t \<noteq> None \<and> (\<exists>o' \<in> set (tx_Outs t).
     x = out_Txid o' \<and> m = out_Vout o' \<and> v = put_le64 (out_Amount o') @ out_Pubkey o')"
  by (auto simp: tx_puts_def in_put_def tweak_puts_def out_put_def split: option.splits) metis

lemma block_puts_mem:
  "(DBlockTx h p, v) \<in> set (block_puts blk) \<longleftrightarrow>
     h = blk_Hash blk \<and> (\<exists>(i, t) \<in> set (block_txs blk). p = of_nat i \<and> v = tx_Txid t)"
  "(DTx x, v) \<in> set (block_puts blk) \<longleftrightarrow>
     (\<exists>(i, t) \<in> set (block_txs blk). x = tx_Txid t \<and> tx_Tweak t = Some v)"
  "(DCIHeight n, v) \<in> set (block_puts blk) \<longleftrightarrow> n = blk_Height blk \<and> v = blk_Hash blk"
  "(DCIBlock h, v) \<in> set (block_puts blk) \<longleftrightarrow> h = blk_Hash blk \<and> v = put_be32 (blk_Height blk)"
  "(DSpend x n h, v) \<in> set (block_puts blk) \<longleftrightarrow> h = blk_Hash blk \<and>
     (\<exists>(i, t) \<in> set (block_txs blk). \<exists>inp \<in> set (tx_Ins t).
        x = in_PrevTxid inp \<and> n = in_PrevVout inp \<and> v = the (in_Pubkey inp))"
  "(DComputeIndex n x, v) \<in> set (block_puts blk) \<longleftrightarrow> n = blk_Height blk \<and>
     (\<exists>(i, t) \<in> set (block_txs blk). x = tx_Txid t \<and>
        (\<exists>tw. tx_Tweak t = Some tw \<and> v = tw @ concat (outs_short t)))"
  "(DOut x n, v) \<in> set (block_puts blk) \<longleftrightarrow>
     (\<exists>(i, t) \<in> set (block_txs blk). tx_Tweak t \<noteq> None \<and> (\<exists>o' \<in> set (tx_Outs t).
        x = out_Txid o' \<and> n = out_Vout o' \<and> v = put_le64 (out_Amount o') @ out_Pubkey o'))"
  by (auto simp: block_puts_def tx_puts_mem)

text \<open>The positions of a block are in ascending order, and so are their keys.\<close>

lemma positions_sorted: "sorted_wrt (<) (map fst (positions i txs))"
proof (induction i txs rule: positions.induct)
  case (3 i t txs)
  have "i < fst x" if "x \<in> set (positions (Suc i) txs)" for x
    using positions_bound [of "fst x" "snd x" "Suc i" txs] that by simp
  then show ?case using 3 by simp
qed simp_all

lemma block_rows_sorted:
  assumes "length (blk_Txs blk) < 2 ^ 32"
  shows "kv_sorted (map (\<lambda>(i, t). (KeyBlockTx (blk_Hash blk) (of_nat i), tx_Txid t)) (block_txs blk))"
proof -
  have lt: "KeyBlockTx h (of_nat i) < KeyBlockTx h (of_nat j)" if "i < j" "j < 2 ^ 32" for h and i j :: nat
  proof -
    have "(of_nat i :: u32) < of_nat j"
      using that by (simp add: word_less_nat_alt unat_of_nat)
    then show ?thesis by (simp add: KeyBlockTx_def)
  qed
  have "sorted_wrt (\<lambda>x y. fst x < fst y) (block_txs blk)"
    using positions_sorted [of 0 "blk_Txs blk"] by (simp add: block_txs_def sorted_wrt_map)
  moreover have "fst x < 2 ^ 32" if "x \<in> set (block_txs blk)" for x
    using positions_bound [of "fst x" "snd x" 0 "blk_Txs blk"] that assms by (simp add: block_txs_def)
  ultimately show ?thesis unfolding sorted_wrt_map
    by (elim sorted_wrt_mono_rel [rotated]) (auto simp: split_beta intro: lt)
qed

lemma txids_at_block:
  assumes "holds_blocks es bs" and "blk \<in> set bs" and "distinct (map blk_Hash bs)"
  shows "txids_at es (blk_Hash blk) = map (\<lambda>(i, t). tx_Txid t) (block_txs blk)"
proof -
  let ?h = "blk_Hash blk"
  let ?rows = "map (\<lambda>(i, t). (KeyBlockTx ?h (of_nat i), tx_Txid t)) (block_txs blk)"
  note hb = assms(1) [unfolded holds_blocks_def]
  have wf: "wf_block blk" "typed (set es)" using hb assms(2) typed_all_puts by (auto simp: list_all_iff)
  have lh: "length ?h = 32" using wf(1) by simp
  have uniq: "b = blk" if "b \<in> set bs" "blk_Hash b = ?h" for b
    using assms(2,3) that by (auto simp: distinct_map inj_on_def)
  have "(k, v) \<in> set (range_of (BoundsBlockTx ?h) es) \<longleftrightarrow> (k, v) \<in> set ?rows" for k v
  proof
    assume "(k, v) \<in> set (range_of (BoundsBlockTx ?h) es)"
    then have kv: "(k, v) \<in> set es" "within (BoundsBlockTx ?h) k" by (auto simp: range_of_within)
    obtain dk where dk: "wf_key dk" "k = enc_key dk" "wf_val dk v" by (rule typedE [OF wf(2) kv(1)])
    then obtain p where p: "dk = DBlockTx ?h p" using within_BlockTx [OF lh dk(1)] kv(2) by auto
    then obtain b where "b \<in> set bs" "(DBlockTx ?h p, v) \<in> set (block_puts b)"
      using holds_lookup [OF assms(1) dk(1), of v] kv(1) dk(2) hb map_of_sorted_iff by auto
    then show "(k, v) \<in> set ?rows" using uniq p dk(2) by (auto simp: block_puts_mem)
  next
    assume "(k, v) \<in> set ?rows"
    then obtain i t where it: "(i, t) \<in> set (block_txs blk)" "k = enc_key (DBlockTx ?h (of_nat i))"
      "v = tx_Txid t" by auto
    then have "(DBlockTx ?h (of_nat i), v) \<in> set (block_puts blk)" by (auto simp: block_puts_mem)
    then have m: "map_of es k = Some v"
      using holds_lookup [OF assms(1), of "DBlockTx ?h (of_nat i)" v] assms(2) it(2) lh by auto
    have "wf_val (DBlockTx ?h (of_nat i)) v"
      using wf_put_block [OF wf(1)] \<open>(DBlockTx ?h (of_nat i), v) \<in> set (block_puts blk)\<close>
      by (auto simp: list_all_iff wf_put_def)
    then have "within (BoundsBlockTx ?h) k"
      using within_BlockTx [OF lh, of "DBlockTx ?h (of_nat i)"] it(2) lh by auto
    then show "(k, v) \<in> set (range_of (BoundsBlockTx ?h) es)"
      using m hb map_of_sorted_iff by (auto simp: range_of_within)
  qed
  then have "set (range_of (BoundsBlockTx ?h) es) = set ?rows" by auto
  moreover have "kv_sorted (range_of (BoundsBlockTx ?h) es)" using hb by (simp add: range_of_def)
  moreover have "kv_sorted ?rows" using wf(1) by (intro block_rows_sorted) (simp add: wf_block_def)
  ultimately have "range_of (BoundsBlockTx ?h) es = ?rows" by (intro kv_sorted_set_eq)
  then show ?thesis by (simp add: txids_at_def split_beta comp_def)
qed

text \<open>
  Transactions with the same id are the same: the tweak of a transaction does not depend on the
  block it is in.
\<close>

definition same_tweaks :: "DBBlock list \<Rightarrow> bool" where
  "same_tweaks bs \<longleftrightarrow> (\<forall>b \<in> set bs. \<forall>b' \<in> set bs. \<forall>(i, t) \<in> set (block_txs b).
     \<forall>(i', t') \<in> set (block_txs b'). tx_Txid t = tx_Txid t' \<longrightarrow> tx_Tweak t = tx_Tweak t')"

lemma tweak_at_block:
  assumes "holds_blocks es bs" and "blk \<in> set bs" and "same_tweaks bs"
    and "(i, t) \<in> set (block_txs blk)"
  shows "tweak_at es (tx_Txid t) = map_option (tweak_row (tx_Txid t)) (tx_Tweak t)"
proof -
  have "wf_block blk" using assms(1,2) by (auto simp: holds_blocks_def list_all_iff)
  then have "wf_key (DTx (tx_Txid t))"
    using assms(4) by (auto simp: wf_block_def list_all_iff wf_tx_def hash_ok_def)
  note look = holds_lookup [OF assms(1) this]
  have "(\<exists>b \<in> set bs. (DTx (tx_Txid t), v) \<in> set (block_puts b)) \<longleftrightarrow> tx_Tweak t = Some v" for v
  proof
    assume "\<exists>b \<in> set bs. (DTx (tx_Txid t), v) \<in> set (block_puts b)"
    then obtain b i' t' where "b \<in> set bs" "(i', t') \<in> set (block_txs b)" "tx_Txid t = tx_Txid t'"
      "tx_Tweak t' = Some v" by (auto simp: block_puts_mem)
    then show "tx_Tweak t = Some v" using assms(2,3,4) unfolding same_tweaks_def by fastforce
  next
    assume "tx_Tweak t = Some v"
    then show "\<exists>b \<in> set bs. (DTx (tx_Txid t), v) \<in> set (block_puts b)"
      using assms(2,4) by (auto simp: block_puts_mem)
  qed
  with look have "map_of es (KeyTx (tx_Txid t)) = Some v \<longleftrightarrow> tx_Tweak t = Some v" for v by simp
  then have "map_of es (KeyTx (tx_Txid t)) = tx_Tweak t"
    by (cases "tx_Tweak t"; cases "map_of es (KeyTx (tx_Txid t))") auto
  then show ?thesis by (simp add: tweak_at_def)
qed

text \<open>The tweaks of a block as the indexer computed them, in block order.\<close>

definition block_tweaks :: "DBBlock \<Rightarrow> TweakRow list" where
  "block_tweaks blk = List.map_filter (\<lambda>(i, t). map_option (tweak_row (tx_Txid t)) (tx_Tweak t))
     (block_txs blk)"

lemma map_filter_map_cong:
  "(\<And>x. x \<in> set xs \<Longrightarrow> f (g x) = h x) \<Longrightarrow> List.map_filter f (map g xs) = List.map_filter h xs"
  by (induction xs) (auto simp: map_filter_simps split: option.splits)

lemma tweaks_of_block:
  assumes "holds_blocks es bs" and "blk \<in> set bs" and "same_tweaks bs"
    and "distinct (map blk_Hash bs)"
  shows "List.map_filter (tweak_at es) (txids_at es (blk_Hash blk)) = block_tweaks blk"
proof -
  have "tweak_at es (tx_Txid t) = map_option (tweak_row (tx_Txid t)) (tx_Tweak t)"
    if "(i, t) \<in> set (block_txs blk)" for i t
    by (rule tweak_at_block [OF assms(1-3) that])
  then show ?thesis
    unfolding txids_at_block [OF assms(1,2,4)] block_tweaks_def
    by (intro map_filter_map_cong) auto
qed

lemma spent_by_blocks:
  assumes "holds_blocks es bs" and "distinct (map blk_Hash bs)" and "length t = 32"
  shows "spent_by es t n H \<longleftrightarrow> (\<exists>blk \<in> set bs. blk_Height blk \<le> H \<and>
     (\<exists>(i, x) \<in> set (block_txs blk). \<exists>inp \<in> set (tx_Ins x).
        in_PrevTxid inp = t \<and> in_PrevVout inp = n))"
proof -
  have uniq: "b = b'" if "b \<in> set bs" "b' \<in> set bs" "blk_Hash b = blk_Hash b'" for b b'
    using assms(2) that by (auto simp: distinct_map inj_on_def)
  have height: "height_of es (blk_Hash b) = Some (blk_Height b)" if b: "b \<in> set bs" for b
  proof -
    have "length (blk_Hash b) = 32" using assms(1) b by (auto simp: holds_blocks_def list_all_iff)
    then have "map_of es (KeyCIBlock (blk_Hash b)) = Some (put_be32 (blk_Height b))"
      using holds_lookup [OF assms(1), of "DCIBlock (blk_Hash b)"] b by (auto simp: block_puts_mem)
    then show ?thesis
      using get_put_exact(1) [of "blk_Height b"] by (simp add: height_of_def get_be32_def)
  qed
  let ?in = "\<lambda>b. \<exists>(i, x) \<in> set (block_txs b). \<exists>inp \<in> set (tx_Ins x).
      in_PrevTxid inp = t \<and> in_PrevVout inp = n"
  have len: "length (blk_Hash b) = 32" if "b \<in> set bs" for b
    using assms(1) that by (auto simp: holds_blocks_def list_all_iff)
  have spend: "map_of es (KeySpend t n h) \<noteq> None \<longleftrightarrow> (\<exists>b \<in> set bs. h = blk_Hash b \<and> ?in b)"
    if h: "length h = 32" for h
  proof -
    have "(map_of es (KeySpend t n h) \<noteq> None) =
        (\<exists>v. \<exists>b \<in> set bs. (DSpend t n h, v) \<in> set (block_puts b))"
      using holds_lookup [OF assms(1), of "DSpend t n h"] assms(3) h by simp
    also have "\<dots> \<longleftrightarrow> (\<exists>b \<in> set bs. h = blk_Hash b \<and> ?in b)"
      unfolding block_puts_mem split_beta by blast
    finally show ?thesis .
  qed
  show ?thesis
  proof
    assume "spent_by es t n H"
    then obtain h m where h: "length h = 32" "map_of es (KeySpend t n h) \<noteq> None"
      "height_of es h = Some m" "m \<le> H" unfolding spent_by_def by blast
    obtain b where b: "b \<in> set bs" "h = blk_Hash b" "?in b" using spend [OF h(1)] h(2) by blast
    then have "blk_Height b \<le> H" using height [OF b(1)] h(3,4) by simp
    then show "\<exists>blk \<in> set bs. blk_Height blk \<le> H \<and> ?in blk" using b by blast
  next
    assume "\<exists>blk \<in> set bs. blk_Height blk \<le> H \<and> ?in blk"
    then obtain b where "b \<in> set bs" "blk_Height b \<le> H" "?in b" by blast
    then show "spent_by es t n H" unfolding spent_by_def
      using spend [of "blk_Hash b"] len height
      by (intro exI [of _ "blk_Hash b"] exI [of _ "blk_Height b"]) blast
  qed
qed

context pebble_reliable
begin

lemma flushed_holds:
  assumes "store_run P db0 s bs" and "list_all wf_block bs" and "entries db0 = []"
    and "single (all_puts bs)" and "held entries writes s = set (entries (st_DB s))"
  shows "holds_blocks (entries (st_DB s)) bs"
  using store_run_held [OF assms(1,2)] assms(2-) entries_sorted by (simp add: holds_blocks_def)

lemma holds_tweaks:
  assumes "holds_blocks (entries (st_DB s)) bs"
    and "blk \<in> set bs" and "same_tweaks bs" and "distinct (map blk_Hash bs)"
  shows "TweaksForBlockAll P s (blk_Hash blk) = Inr (block_tweaks blk)"
proof -
  have t: "typed (set (entries (st_DB s)))" "length (blk_Hash blk) = 32"
    using assms(1,2) typed_all_puts by (auto simp: holds_blocks_def list_all_iff)
  show ?thesis
    using TweaksForBlockAll_eq [OF t] BlockTxids_eq [OF t] tweaks_of_block [OF assms]
    by (simp add: refTweaksForBlockAll_def refTweaksLoop_eq)
qed

lemma tweaks_read_back:
  assumes "store_run P db0 s bs" and "list_all wf_block bs" and "entries db0 = []"
    and "single (all_puts bs)" and "held entries writes s = set (entries (st_DB s))"
    and "blk \<in> set bs" and "same_tweaks bs" and "distinct (map blk_Hash bs)"
  shows "TweaksForBlockAll P s (blk_Hash blk) = Inr (block_tweaks blk)"
  by (rule holds_tweaks [OF flushed_holds [OF assms(1-5)] assms(6-8)])

lemma holds_height:
  assumes "holds_blocks (entries (st_DB s)) bs" and "blk \<in> set bs" and "single (all_puts bs)"
  shows "GetBlockHashByHeight P s (blk_Height blk) = Inr (Some (blk_Hash blk))"
proof -
  have "map_of (entries (st_DB s)) (enc_key (DCIHeight (blk_Height blk))) = Some (blk_Hash blk)"
    using assms(2) by (subst holds_lookup [OF assms(1)]) (auto simp: block_puts_mem)
  then show ?thesis by (simp add: GetBlockHashByHeight_def get_eq)
qed

lemma spent_read_back:
  assumes "store_run P db0 s bs" and "list_all wf_block bs" and "entries db0 = []"
    and "single (all_puts bs)" and "held entries writes s = set (entries (st_DB s))"
    and "distinct (map blk_Hash bs)" and "length t = 32"
  shows "spentAtHeightTip P s t n H = Inr (\<exists>blk \<in> set bs. blk_Height blk \<le> H \<and>
     (\<exists>(i, x) \<in> set (block_txs blk). \<exists>inp \<in> set (tx_Ins x).
        in_PrevTxid inp = t \<and> in_PrevVout inp = n))"
proof -
  note h = flushed_holds [OF assms(1-5)]
  have "typed (set (entries (st_DB s)))" using h typed_all_puts by (auto simp: holds_blocks_def)
  from spentAtHeightTip_eq [OF this assms(7)] show ?thesis
    by (simp add: spent_by_blocks [OF h assms(6,7)])
qed

end

section \<open>Properties of the read path\<close>

text \<open>The store after one block has been applied and flushed.\<close>

lemma w_flushed:
  "\<exists>s. store_run mem_pebble [] s [w_block] \<and> held mem_entries (\<lambda>b. b) s = set (mem_entries (st_DB s))"
proof -
  let ?s0 = "NewStore mem_pebble []"
  obtain s where s: "ApplyBlock mem_pebble w_block ?s0 = (Inr (), s)"
    using mem.ApplyBlock_ok [OF _ w_block_wf, of ?s0] by (auto simp: NewStore_def)
  have "dbBatch ?s0 = Some []" by (simp add: NewStore_def mem_pebble_def)
  with s have c: "pending s = [] \<and> batchCounter s = 1 \<and> \<not> closed s"
    by (rule ApplyBlock_cases) (auto simp: NewStore_def)
  have r: "store_run mem_pebble [] s [w_block]" using apply_block [OF start s] by simp
  then obtain b where "dbBatch s = Some b"
    using store_run_bounds by (fastforce simp: batch_bounds_def)
  then obtain s' where s': "commitBatch mem_pebble True s = (Inr (), s')"
    using mem.commitBatch_ok by blast
  have "pending s' = [] \<and> (\<exists>db. dbBatch s' = Some (pb_new_batch mem_pebble db))"
    by (rule commitBatch_cases [OF s']) (use c in auto)
  then have "held mem_entries (\<lambda>b. b) s' = set (mem_entries (st_DB s'))"
    by (auto simp: held_def mem_pebble_def)
  moreover have "store_run mem_pebble [] s' [w_block]"
    by (rule flush [OF r, of True]) (use s' c in \<open>simp add: FlushBatch_def\<close>)
  ultimately show ?thesis by blast
qed

lemma w_single': "single (all_puts [w_block])"
  using w_single by (simp add: mem_entries_def)

lemma w_stored: "\<exists>s. store_run mem_pebble [] s [w_block] \<and> set (mem_entries (st_DB s)) = all_puts [w_block]"
proof -
  obtain s where s: "store_run mem_pebble [] s [w_block]"
    "held mem_entries (\<lambda>b. b) s = set (mem_entries (st_DB s))" using w_flushed by metis
  then show ?thesis
    using mem.store_run_held [OF s(1) _ w_single] w_block_wf by (auto simp: mem_entries_def)
qed

text \<open>C11. The scan of the tweak index in txid order returns what a point lookup per transaction
  returns, the same rows in the same order, in every state a run of the store reaches.\<close>

theorem TweaksForBlockAll_matches_reference:
  assumes "pebble_reliable P entries writes" and "store_run P db0 s bs" and "list_all wf_block bs"
    and "typed (set (entries db0))" and "length h = 32"
  shows "TweaksForBlockAll P s h = refTweaksForBlockAll P s h"
  by (rule pebble_reliable.TweaksForBlockAll_eq [OF assms(1)
        pebble_reliable.store_run_typed [OF assms(1-4)] assms(5)])

theorem TweaksForBlockAll_matches_reference_witness:
  "\<exists>s. store_run mem_pebble [] s [w_block] \<and> set (mem_entries (st_DB s)) = all_puts [w_block] \<and>
     TweaksForBlockAll mem_pebble s (replicate 32 5) = refTweaksForBlockAll mem_pebble s (replicate 32 5)"
proof -
  obtain s where s: "store_run mem_pebble [] s [w_block]" "set (mem_entries (st_DB s)) = all_puts [w_block]"
    using w_stored by metis
  show ?thesis
    by (rule exI [of _ s])
      (use s TweaksForBlockAll_matches_reference [OF mem_reliable s(1)] w_block_wf in
        \<open>simp add: mem_entries_def typed_def\<close>)
qed

text \<open>C12. The scan of the output index in txid order returns the outputs of the block in block
  order, exactly as one iterator per transaction would.\<close>

theorem FetchOutputsAll_matches_reference:
  assumes "pebble_reliable P entries writes" and "store_run P db0 s bs" and "list_all wf_block bs"
    and "typed (set (entries db0))" and "length h = 32"
  shows "FetchOutputsAll P s h tip = refFetchOutputs P s h"
  using pebble_reliable.refFetchOutputs_eq [OF assms(1)
        pebble_reliable.store_run_typed [OF assms(1-4)] assms(5)]
  by (simp add: FetchOutputsAll_def)

theorem FetchOutputsAll_matches_reference_witness:
  "\<exists>s. store_run mem_pebble [] s [w_block] \<and> set (mem_entries (st_DB s)) = all_puts [w_block] \<and>
     FetchOutputsAll mem_pebble s (replicate 32 5) 9 = refFetchOutputs mem_pebble s (replicate 32 5)"
proof -
  obtain s where s: "store_run mem_pebble [] s [w_block]" "set (mem_entries (st_DB s)) = all_puts [w_block]"
    using w_stored by metis
  show ?thesis
    by (rule exI [of _ s])
      (use s FetchOutputsAll_matches_reference [OF mem_reliable s(1)] w_block_wf in
        \<open>simp add: mem_entries_def typed_def\<close>)
qed




text \<open>The chain tip is the block of the greatest height in the chain index, and nothing at
  height zero when the index is empty; the first block is the one of the least height.\<close>

theorem GetChainTip_highest:
  assumes "pebble_reliable P entries writes" and "store_run P db0 s bs" and "list_all wf_block bs"
    and "typed (set (entries db0))"
  shows "\<exists>tip first. GetChainTip P s = Inr tip \<and> is_tip (entries (st_DB s)) tip \<and>
     FirstBlock P s = Inr first \<and> is_first (entries (st_DB s)) first"
  using pebble_reliable.GetChainTip_eq [OF assms(1) pebble_reliable.store_run_typed [OF assms]]
    pebble_reliable.FirstBlock_eq [OF assms(1) pebble_reliable.store_run_typed [OF assms]] by blast

theorem GetChainTip_highest_witness:
  "\<exists>s tip first. store_run mem_pebble [] s [w_block] \<and> GetChainTip mem_pebble s = Inr tip \<and>
     is_tip (mem_entries (st_DB s)) tip \<and> FirstBlock mem_pebble s = Inr first \<and>
     is_first (mem_entries (st_DB s)) first"
proof -
  obtain s where s: "store_run mem_pebble [] s [w_block]" using w_run1 by metis
  show ?thesis
    by (rule exI [of _ s])
      (use s GetChainTip_highest [OF mem_reliable s] w_block_wf in
        \<open>auto simp: mem_entries_def typed_def\<close>)
qed

text \<open>C13. Let blocks of different hashes be applied to an empty database, no two of them writing different
  values under one key, and be committed.  Then \<open>spentAtHeightTip\<close> answers whether one of them, at or
  below the given height, has an input that spends the output.\<close>

theorem spentAtHeightTip_spec:
  assumes "pebble_reliable P entries writes" and "store_run P db0 s bs" and "list_all wf_block bs"
    and "entries db0 = []" and "single (all_puts bs)"
    and "held entries writes s = set (entries (st_DB s))"
    and "distinct (map blk_Hash bs)" and "length t = 32"
  shows "spentAtHeightTip P s t n H = Inr (\<exists>blk \<in> set bs. blk_Height blk \<le> H \<and>
     (\<exists>(i, x) \<in> set (block_txs blk). \<exists>inp \<in> set (tx_Ins x).
        in_PrevTxid inp = t \<and> in_PrevVout inp = n))"
  using pebble_reliable.spent_read_back [OF assms] .

theorem spentAtHeightTip_spec_witness:
  "\<exists>s. store_run mem_pebble [] s [w_block] \<and>
     spentAtHeightTip mem_pebble s (replicate 32 3) 2 7 = Inr True \<and>
     spentAtHeightTip mem_pebble s (replicate 32 3) 2 6 = Inr False"
proof -
  obtain s where s: "store_run mem_pebble [] s [w_block]"
    "held mem_entries (\<lambda>b. b) s = set (mem_entries (st_DB s))" using w_flushed by metis
  note sp = spentAtHeightTip_spec [OF mem_reliable s(1) _ _ w_single' s(2), of "replicate 32 3" 2]
  show ?thesis
    by (rule exI [of _ s])
      (use s(1) sp [of 7] sp [of 6] w_block_wf in
        \<open>simp add: mem_entries_def w_block_def block_txs_def w_tx_def\<close>)
qed

text \<open>C14. Cut-through of the outputs of a block: of the outputs the reference returns, those at
  or above the dust limit that are not spent at the given height, in the same order.\<close>

theorem FetchOutputsCutThrough_spec:
  assumes "pebble_reliable P entries writes" and "store_run P db0 s bs" and "list_all wf_block bs"
    and "typed (set (entries db0))" and "length h = 32"
  shows "FetchOutputsCutThroughDustLimit P s h H dust =
    bindR (refFetchOutputs P s h) (\<lambda>outs. Inr (filter (\<lambda>o'. dust \<le> out_Amount o' \<and>
      \<not> spent_by (entries (st_DB s)) (out_Txid o') (out_Vout o') H) outs))"
  by (rule pebble_reliable.FetchOutputsCutThrough_eq [OF assms(1)
        pebble_reliable.store_run_typed [OF assms(1-4)] assms(5)])

theorem FetchOutputsCutThrough_spec_witness:
  "\<exists>s. store_run mem_pebble [] s [w_block] \<and> set (mem_entries (st_DB s)) = all_puts [w_block] \<and>
     FetchOutputsCutThroughDustLimit mem_pebble s (replicate 32 5) 9 1000 =
     bindR (refFetchOutputs mem_pebble s (replicate 32 5)) (\<lambda>outs. Inr (filter (\<lambda>o'.
       1000 \<le> out_Amount o' \<and>
       \<not> spent_by (mem_entries (st_DB s)) (out_Txid o') (out_Vout o') 9) outs))"
proof -
  obtain s where s: "store_run mem_pebble [] s [w_block]" "set (mem_entries (st_DB s)) = all_puts [w_block]"
    using w_stored by metis
  show ?thesis
    by (rule exI [of _ s], intro conjI s, rule FetchOutputsCutThrough_spec [OF mem_reliable s(1)])
      (use w_block_wf in \<open>simp_all add: mem_entries_def typed_def\<close>)
qed

text \<open>C15. Cut-through of the tweaks of a block: the rows of the transactions that have a tweak
  and an output not spent at the given height, in block order.\<close>

theorem TweaksForBlockCutThrough_spec:
  assumes "pebble_reliable P entries writes" and "store_run P db0 s bs" and "list_all wf_block bs"
    and "typed (set (entries db0))" and "length h = 32"
  shows "TweaksForBlockCutThrough P s h H = Inr (List.map_filter
    (unspent_tweak (entries (st_DB s)) H) (txids_at (entries (st_DB s)) h))"
  by (rule pebble_reliable.TweaksForBlockCutThrough_eq [OF assms(1)
        pebble_reliable.store_run_typed [OF assms(1-4)] assms(5)])

theorem TweaksForBlockCutThrough_spec_witness:
  "\<exists>s. store_run mem_pebble [] s [w_block] \<and> set (mem_entries (st_DB s)) = all_puts [w_block] \<and>
     TweaksForBlockCutThrough mem_pebble s (replicate 32 5) 9 = Inr (List.map_filter
       (unspent_tweak (mem_entries (st_DB s)) 9) (txids_at (mem_entries (st_DB s)) (replicate 32 5)))"
proof -
  obtain s where s: "store_run mem_pebble [] s [w_block]" "set (mem_entries (st_DB s)) = all_puts [w_block]"
    using w_stored by metis
  show ?thesis
    by (rule exI [of _ s], intro conjI s, rule TweaksForBlockCutThrough_spec [OF mem_reliable s(1)])
      (use w_block_wf in \<open>simp_all add: mem_entries_def typed_def\<close>)
qed

text \<open>The dust-limit variant of the tweak cut-through does not use its limit: it returns what
  the variant without a limit returns, for every limit.\<close>

theorem dust_limit_ignored:
  "TweaksForBlockCutThroughDustLimit P s h H dust = TweaksForBlockCutThrough P s h H"
  by (simp add: TweaksForBlockCutThroughDustLimit_def TweaksForBlockCutThrough_def
      cutThroughDustLoop_eq cong: bindR_cong)

text \<open>\<open>TweaksForBlock\<close> does apply the limit: with the view of the chain that the index has,
  it keeps the transactions with an unspent output and, for a limit other than zero, an unspent
  output of at least the limit.\<close>

theorem TweaksForBlock_spec:
  assumes "pebble_reliable P entries writes" and "store_run P db0 s bs" and "list_all wf_block bs"
    and "typed (set (entries db0))" and "length h = 32"
    and "\<And>h. length h = 32 \<Longrightarrow> heightIfOnBestChain P s h = Inr (active h)"
  shows "TweaksForBlock P s h H dust active = Inr (List.map_filter (\<lambda>t.
    if has_unspent (entries (st_DB s)) H t \<and> (dust = 0 \<or> dusted (entries (st_DB s)) H dust t)
    then tweak_at (entries (st_DB s)) t else None) (txids_at (entries (st_DB s)) h))"
  using pebble_reliable.TweaksForBlock_eq [OF assms(1)
      pebble_reliable.store_run_typed [OF assms(1-4)] assms(5,6)] .

theorem TweaksForBlock_spec_witness:
  "\<exists>s. store_run mem_pebble [] s [w_block] \<and>
     TweaksForBlock mem_pebble s (replicate 32 5) 9 600
       (\<lambda>h. case height_of (mem_entries (st_DB s)) h of None \<Rightarrow> (0, False) | Some n \<Rightarrow> (n, True)) =
     Inr (List.map_filter (\<lambda>t. if has_unspent (mem_entries (st_DB s)) 9 t \<and>
         (600 = (0 :: u64) \<or> dusted (mem_entries (st_DB s)) 9 600 t)
       then tweak_at (mem_entries (st_DB s)) t else None)
       (txids_at (mem_entries (st_DB s)) (replicate 32 5)))"
proof -
  obtain s where s: "store_run mem_pebble [] s [w_block]" using w_run1 by metis
  have e: "typed (set (mem_entries []))" "list_all wf_block [w_block]"
    using w_block_wf by (simp_all add: mem_entries_def typed_def)
  show ?thesis
    by (rule exI [of _ s], rule conjI [OF s], rule TweaksForBlock_spec [OF mem_reliable s e(2,1)])
      (simp_all add: mem.heightIfOnBestChain_eq [OF mem.store_run_typed [OF s e(2,1)]])
qed

text \<open>A block that a reorganisation replaced still counts: if its hash is in the hash index, a
  spend recorded in it makes the output spent, although the chain index has another block at its
  height.\<close>

theorem stale_block_still_spends:
  assumes "pebble_reliable P entries writes" and "typed (set (entries (st_DB s)))"
    and "length t = 32" and "length h = 32"
    and "map_of (entries (st_DB s)) (KeySpend t n h) = Some v"
    and "map_of (entries (st_DB s)) (KeyCIBlock h) = Some (put_be32 m)" and "m \<le> H"
    and "map_of (entries (st_DB s)) (KeyCIHeight m) = Some h'" and "h' \<noteq> h"
  shows "GetBlockHashByHeight P s m = Inr (Some h') \<and> spentAtHeightTip P s t n H = Inr True"
proof -
  have "height_of (entries (st_DB s)) h = Some m"
    using assms(6) get_put_exact(1) [of m] by (simp add: height_of_def get_be32_def)
  then have "spent_by (entries (st_DB s)) t n H" unfolding spent_by_def using assms(4,5,7) by blast
  then show ?thesis
    using pebble_reliable.spentAtHeightTip_eq [OF assms(1-3)] pebble_reliable.get_eq [OF assms(1)]
      assms(8) by (simp add: GetBlockHashByHeight_def)
qed

definition w_stale :: "kv list" where
  "w_stale = map enc_put
     [(DSpend (replicate 32 3) 2 (replicate 32 5), replicate 32 9),
      (DCIHeight 7, replicate 32 6), (DCIBlock (replicate 32 5), put_be32 7)]"

theorem stale_block_still_spends_witness:
  "let s = NewStore mem_pebble w_stale
   in GetBlockHashByHeight mem_pebble s 7 = Inr (Some (replicate 32 6)) \<and>
      spentAtHeightTip mem_pebble s (replicate 32 3) 2 8 = Inr True"
proof -
  let ?s = "NewStore mem_pebble w_stale"
  have m: "map_of (mem_entries (st_DB ?s)) = map_of (rev w_stale)"
    by (simp add: mem_entries_def map_of_kv_puts NewStore_def)
  have "set (mem_entries w_stale) \<subseteq> set w_stale"
    using set_kv_puts_subset [of "[]" w_stale] by (simp add: mem_entries_def)
  moreover have "typed (set w_stale)"
    unfolding w_stale_def by (rule typed_puts) (simp add: wf_put_def replicate_eq_replicate)
  ultimately have t: "typed (set (mem_entries (st_DB ?s)))"
    by (auto simp: NewStore_def intro: typed_subset)
  show ?thesis unfolding Let_def
    by (rule stale_block_still_spends [OF mem_reliable t, where h = "replicate 32 5"])
      (unfold m, simp_all add: w_stale_def key_defs replicate_eq_replicate)
qed

text \<open>C33. The rows keep their types: whatever a run of the store has written, in the database, in the batches
  whose commit is under way and in the active batch, is under a key of a known kind and has a value
  of the form of that kind.\<close>

theorem stored_rows_typed:
  assumes "pebble_reliable P entries writes" and "store_run P db0 s bs" and "list_all wf_block bs"
    and "typed (set (entries db0))"
  shows "typed (held entries writes s)"
proof (rule typed_subset)
  show "held entries writes s \<subseteq> set (entries db0) \<union> all_puts bs"
    by (rule pebble_reliable.store_run_subset [OF assms(1-3)])
  show "typed (set (entries db0) \<union> all_puts bs)"
    using typed_all_puts [OF assms(3)] assms(4) by (simp add: typed_Un)
qed

theorem stored_rows_typed_witness:
  "\<exists>s. store_run mem_pebble [] s [w_block] \<and> typed (held mem_entries (\<lambda>b. b) s)"
proof -
  obtain s where s: "store_run mem_pebble [] s [w_block]" using w_run1 by metis
  then show ?thesis using stored_rows_typed [OF mem_reliable s] w_block_wf by (auto simp: mem_entries_def typed_def)
qed

end
