(* ===== verification/Compute_Index.thy ===== *)
theory Compute_Index
  imports Read_Spec
begin

text \<open>
  The compute index (\<open>dbpebble/compute_index.go\<close>): reading the entries of a height, rebuilding
  them from the tweak and output indexes, and writing them through the batch of the store.
\<close>

section \<open>Operations\<close>

definition FetchComputeIndex ::
    "(bytes \<Rightarrow> bytes) \<Rightarrow> ('db, 'b) pebble_api \<Rightarrow> ('db, 'b) Store \<Rightarrow> u32
     \<Rightarrow> ComputeIndexTxItem list res" where
  "FetchComputeIndex ReverseBytes P s height =
     (let (lb, ub) = BoundsComputeIndexOneHeight height
      in bindR (pb_iter P (st_DB s) (Some lb) (Some ub)) (\<lambda>it.
         mapR (\<lambda>(key, data). DeserialiseComputeIndexToProto ReverseBytes key data) (it_First it)))"

text \<open>A height without a block has the nil hash, which is the empty byte string here.\<close>

definition BuildComputeIndexForHeight ::
    "('db, 'b) pebble_api \<Rightarrow> ('db, 'b) Store \<Rightarrow> u32 \<Rightarrow> ComputeIndex list res" where
  "BuildComputeIndexForHeight P s height =
     bindR (GetBlockHashByHeight P s height) (\<lambda>blockhash.
     bindR (TweaksForBlockAll P s (case blockhash of None \<Rightarrow> [] | Some h \<Rightarrow> h)) (\<lambda>tweaks.
     mapR (\<lambda>tweak.
       bindR (OutputsForTx P s (row_Txid tweak)) (\<lambda>outputs.
       Inr \<lparr>ci_TxId = row_Txid tweak, ci_Height = height, ci_Tweak = row_Tweak tweak,
            ci_OutputsShort = map (\<lambda>o'. fit 8 (out_Pubkey o')) outputs\<rparr>)) tweaks))"

fun attachComputeIndexToBatch ::
    "('db, 'b) pebble_api \<Rightarrow> ComputeIndex list \<Rightarrow> ('b, unit) batchM" where
  "attachComputeIndexToBatch P [] = retB ()"
| "attachComputeIndexToBatch P (computeIndex # computeIndexes) =
     bindB (setB P (ci_SerialiseKey computeIndex) (ci_SerialiseData computeIndex)) (\<lambda>_.
     attachComputeIndexToBatch P computeIndexes)"

text \<open>
  The part of \<open>FinishComputeIndex\<close> under the lock of the batch: the entries are attached, the
  counter is raised, and the result says whether the batch is to be committed.  On a nil batch the
  loop over no entries does nothing.
\<close>

definition finishLocked ::
    "('db, 'b) pebble_api \<Rightarrow> ComputeIndex list \<Rightarrow> ('db, 'b) Store \<Rightarrow> bool res \<times> ('db, 'b) Store" where
  "finishLocked P computeIndexes s =
     (case (case dbBatch s of
              None \<Rightarrow> (if computeIndexes = [] then Inr (Inr (), None)
                       else Inl (Panic ''nil pointer dereference''))
            | Some b \<Rightarrow> (case attachComputeIndexToBatch P computeIndexes b of (r, b') \<Rightarrow> Inr (r, Some b'))) of
        Inl e \<Rightarrow> (Inl e, s)
      | Inr (Inl e, ob) \<Rightarrow> (Inl e, s\<lparr>dbBatch := ob\<rparr>)
      | Inr (Inr _, ob) \<Rightarrow>
          (let s1 = s\<lparr>dbBatch := ob, batchCounter := batchCounter s + 1\<rparr>
           in (Inr (batchCounter s1 \<ge> 200), s1)))"

definition FinishComputeIndex ::
    "('db, 'b) pebble_api \<Rightarrow> u32 \<Rightarrow> ComputeIndex list \<Rightarrow> ('db, 'b) Store
     \<Rightarrow> unit res \<times> ('db, 'b) Store" where
  "FinishComputeIndex P height computeIndexes s =
     (case finishLocked P computeIndexes s of
        (Inl e, s1) \<Rightarrow> (Inl e, s1)
      | (Inr shouldCommit, s1) \<Rightarrow> if shouldCommit then commitBatch P False s1 else (Inr (), s1))"

section \<open>What is read\<close>

definition ci_item :: "(bytes \<Rightarrow> bytes) \<Rightarrow> kv \<Rightarrow> ComputeIndexTxItem" where
  "ci_item R e = \<lparr>cit_Txid = R (drop 5 (fst e)), cit_Tweak = take 33 (snd e),
     cit_OutputsShort = drop 33 (snd e)\<rparr>"

context pebble_reliable
begin

lemma FetchComputeIndex_eq:
  assumes "typed (set (entries (st_DB s)))"
  shows "FetchComputeIndex R P s n =
    Inr (map (ci_item R) (range_of (BoundsComputeIndexOneHeight n) (entries (st_DB s))))"
proof -
  let ?es = "entries (st_DB s)" and ?B = "BoundsComputeIndexOneHeight n"
  obtain it where it: "pb_iter P (st_DB s) (Some (fst ?B)) (Some (snd ?B)) = Inr it"
    "it_First it = range_of ?B ?es" by (rule iter_eq)
  have "DeserialiseComputeIndexToProto R k v = Inr (ci_item R (k, v))"
    if "(k, v) \<in> set (range_of ?B ?es)" for k v
  proof -
    have kv: "(k, v) \<in> set ?es" "within ?B k" using that by (auto simp: range_of_within)
    obtain dk where dk: "wf_key dk" "k = enc_key dk" "wf_val dk v" by (rule typedE [OF assms kv(1)])
    then obtain t where "dk = DComputeIndex n t"
      using within_ComputeIndex [OF dk(1), of n n] kv(2) by (auto simp: BoundsComputeIndexOneHeight_eq)
    then show ?thesis using dk
      by (simp add: DeserialiseComputeIndexToProto_def ci_item_def KeyComputeIndex_def)
  qed
  then have "mapR (\<lambda>(key, data). DeserialiseComputeIndexToProto R key data) (range_of ?B ?es) =
      Inr (map (ci_item R) (range_of ?B ?es))"
    by (intro mapR_Inr) auto
  then show ?thesis using it by (simp add: FetchComputeIndex_def split_beta)
qed

lemma emits_attachComputeIndex:
  "emits writes (attachComputeIndexToBatch P cis)
     (map (\<lambda>c. (ci_SerialiseKey c, ci_SerialiseData c)) cis) ()"
  by (induction cis) (simp_all add: emits_ret emits_set_bind)

lemma FinishComputeIndex_held:
  assumes "FinishComputeIndex P n cis s = (Inr (), s')" and "dbBatch s = Some b" and "\<not> closed s"
    and "single (held entries writes s \<union> set (map (\<lambda>c. (ci_SerialiseKey c, ci_SerialiseData c)) cis))"
  shows "held entries writes s' = held entries writes s \<union>
    set (map (\<lambda>c. (ci_SerialiseKey c, ci_SerialiseData c)) cis)"
proof -
  let ?ws = "map (\<lambda>c. (ci_SerialiseKey c, ci_SerialiseData c)) cis"
  obtain b' where b': "attachComputeIndexToBatch P cis b = (Inr (), b')" "writes b' = writes b @ ?ws"
    using emits_attachComputeIndex [of cis] unfolding emits_def by blast
  let ?s = "s\<lparr>dbBatch := Some b', batchCounter := batchCounter s + 1\<rparr>"
  have h: "held entries writes ?s = held entries writes s \<union> set ?ws" "\<not> closed ?s"
    using assms(2,3) b'(2) by (auto simp: held_def)
  have "if 200 \<le> batchCounter ?s then commitBatch P False ?s = (Inr (), s') else s' = ?s"
    using assms(1,2) b'(1) by (auto simp: FinishComputeIndex_def finishLocked_def Let_def split: if_splits)
  then show ?thesis
    using assms(4) h commitBatch_held [of False ?s s'] by (auto split: if_splits)
qed

end

section \<open>Round trip of the compute index\<close>

text \<open>The rows of one height, as the blocks at that height were applied.\<close>

definition block_ci :: "DBBlock \<Rightarrow> (bytes \<times> bytes) set" where
  "block_ci blk = {(tx_Txid t, tw @ concat (outs_short t)) |i t tw.
     (i, t) \<in> set (block_txs blk) \<and> tx_Tweak t = Some tw}"

lemma ci_rows_of_height:
  assumes "holds_blocks es bs"
  shows "(k, v) \<in> set (range_of (BoundsComputeIndexOneHeight n) es) \<longleftrightarrow>
    (\<exists>blk \<in> set bs. \<exists>t. blk_Height blk = n \<and> k = KeyComputeIndex n t \<and> (t, v) \<in> block_ci blk)"
proof -
  note hb = assms [unfolded holds_blocks_def]
  have ty: "typed (set es)" using hb typed_all_puts by auto
  have mem: "(enc_key (DComputeIndex n t), v) \<in> set es \<longleftrightarrow>
      (\<exists>blk \<in> set bs. blk_Height blk = n \<and> (t, v) \<in> block_ci blk)" if "length t = 32" for t
  proof -
    have "(enc_key (DComputeIndex n t), v) \<in> set es \<longleftrightarrow>
        (\<exists>blk \<in> set bs. (DComputeIndex n t, v) \<in> set (block_puts blk))"
      using holds_lookup [OF assms, of "DComputeIndex n t" v] that hb map_of_sorted_iff by simp
    also have "\<dots> \<longleftrightarrow> (\<exists>blk \<in> set bs. blk_Height blk = n \<and> (t, v) \<in> block_ci blk)"
      unfolding block_puts_mem block_ci_def by fastforce
    finally show ?thesis .
  qed
  show ?thesis
  proof
    assume "(k, v) \<in> set (range_of (BoundsComputeIndexOneHeight n) es)"
    then have kv: "(k, v) \<in> set es" "within (BoundsComputeIndex n n) k"
      by (auto simp: range_of_within BoundsComputeIndexOneHeight_eq)
    obtain dk where dk: "wf_key dk" "k = enc_key dk" "wf_val dk v" by (rule typedE [OF ty kv(1)])
    then obtain t where t: "dk = DComputeIndex n t" using within_ComputeIndex [OF dk(1)] kv(2) by auto
    then have "length t = 32" using dk(1) by simp
    then show "\<exists>blk \<in> set bs. \<exists>t. blk_Height blk = n \<and> k = KeyComputeIndex n t \<and> (t, v) \<in> block_ci blk"
      using mem kv(1) dk(2) t by auto
  next
    assume "\<exists>blk \<in> set bs. \<exists>t. blk_Height blk = n \<and> k = KeyComputeIndex n t \<and> (t, v) \<in> block_ci blk"
    then obtain blk t where b: "blk \<in> set bs" "blk_Height blk = n" "k = enc_key (DComputeIndex n t)"
      "(t, v) \<in> block_ci blk" by auto
    have t: "hash_ok t"
      using hb b(1,4) by (auto simp: block_ci_def list_all_iff wf_block_def wf_tx_def)
    then have "(k, v) \<in> set es" using mem b by (auto simp: hash_ok_def)
    moreover have "within (BoundsComputeIndex n n) k"
      using within_ComputeIndex [of "DComputeIndex n t" n n] t b(3)
      by (simp add: hash_ok_def maxTxid_def)
    ultimately show "(k, v) \<in> set (range_of (BoundsComputeIndexOneHeight n) es)"
      by (simp add: range_of_within BoundsComputeIndexOneHeight_eq)
  qed
qed

lemma single_heights:
  assumes "single (all_puts bs)" and "b \<in> set bs" and "b' \<in> set bs"
    and "blk_Height b = blk_Height b'"
  shows "blk_Hash b = blk_Hash b'"
proof -
  have "(KeyCIHeight (blk_Height c), blk_Hash c) \<in> all_puts bs" if c: "c \<in> set bs" for c
  proof -
    have "enc_put (DCIHeight (blk_Height c), blk_Hash c) \<in> enc_put ` set (block_puts c)"
      by (rule imageI) (simp add: block_puts_mem)
    then show ?thesis using c by (auto simp: all_puts_def)
  qed
  then show ?thesis using assms unfolding single_def by metis
qed

lemma KeyComputeIndex_less:
  "length a = 32 \<Longrightarrow> length b = 32 \<Longrightarrow> KeyComputeIndex n a < KeyComputeIndex n b \<longleftrightarrow> a < b"
  by (simp add: KeyComputeIndex_def)

definition ci_pair_item :: "(bytes \<Rightarrow> bytes) \<Rightarrow> bytes \<times> bytes \<Rightarrow> ComputeIndexTxItem" where
  "ci_pair_item R p = \<lparr>cit_Txid = R (fst p), cit_Tweak = take 33 (snd p),
     cit_OutputsShort = drop 33 (snd p)\<rparr>"

lemma ci_rows_pairs:
  assumes "holds_blocks es bs" and "single (all_puts bs)" and "distinct (map blk_Hash bs)"
    and "blk \<in> set bs"
  shows "\<exists>ps. range_of (BoundsComputeIndexOneHeight (blk_Height blk)) es =
      map (\<lambda>(t, v). (KeyComputeIndex (blk_Height blk) t, v)) ps \<and>
    set ps = block_ci blk \<and> sorted_wrt (<) (map fst ps) \<and> (\<forall>p \<in> set ps. length (fst p) = 32)"
proof -
  let ?n = "blk_Height blk" and ?rows = "range_of (BoundsComputeIndexOneHeight (blk_Height blk)) es"
  let ?f = "\<lambda>(t, v). (KeyComputeIndex ?n t, v)"
  define ps where "ps = map (\<lambda>(k, v). (drop 5 k, v)) ?rows"
  have uniq: "b = blk" if "b \<in> set bs" "blk_Height b = ?n" for b
    using single_heights [OF assms(2) that(1) assms(4) that(2)] assms(3,4) that(1)
    by (auto simp: distinct_map inj_on_def)
  have rows: "(k, v) \<in> set ?rows \<longleftrightarrow> (\<exists>t. k = KeyComputeIndex ?n t \<and> (t, v) \<in> block_ci blk)" for k v
    using ci_rows_of_height [OF assms(1), of k v ?n] uniq assms(4) by blast
  have wf: "wf_block blk" using assms(1,4) by (auto simp: holds_blocks_def list_all_iff)
  have len: "length t = 32" if "(t, v) \<in> block_ci blk" for t v
    using that wf by (auto simp: block_ci_def wf_block_def list_all_iff wf_tx_def hash_ok_def)
  have dr: "drop 5 (KeyComputeIndex ?n t) = t" if "length t = 32" for t
    using that by (simp add: KeyComputeIndex_def)
  have "?f (drop 5 k, v) = (k, v)" if "(k, v) \<in> set ?rows" for k v
    using that rows dr len by auto
  then have map: "?rows = map ?f ps"
    unfolding ps_def map_map comp_def by (intro map_idI [symmetric]) (auto simp: split_beta)
  have set: "set ps = block_ci blk"
  proof -
    have "p \<in> set ps \<longleftrightarrow> p \<in> block_ci blk" for p
      unfolding ps_def using rows dr len by (cases p) force
    then show ?thesis by blast
  qed
  have l: "\<forall>p \<in> set ps. length (fst p) = 32" using set len by auto
  have "kv_sorted ?rows" using assms(1) by (simp add: holds_blocks_def range_of_def)
  then have "sorted_wrt (\<lambda>p q. KeyComputeIndex ?n (fst p) < KeyComputeIndex ?n (fst q)) ps"
    unfolding map by (simp add: sorted_wrt_map split_beta)
  then have "sorted_wrt (\<lambda>p q. fst p < fst q) ps"
    by (rule sorted_wrt_mono_rel [rotated]) (use l KeyComputeIndex_less in auto)
  then show ?thesis using map set l by (auto simp: sorted_wrt_map)
qed

context pebble_reliable
begin

lemma FetchComputeIndex_block:
  assumes "store_run P db0 s bs" and "list_all wf_block bs" and "entries db0 = []"
    and "single (all_puts bs)" and "held entries writes s = set (entries (st_DB s))"
    and "distinct (map blk_Hash bs)" and "blk \<in> set bs"
  shows "\<exists>ps. FetchComputeIndex R P s (blk_Height blk) = Inr (map (ci_pair_item R) ps) \<and>
    set ps = block_ci blk \<and> sorted_wrt (<) (map fst ps)"
proof -
  note h = flushed_holds [OF assms(1-5)]
  have ty: "typed (set (entries (st_DB s)))" using h typed_all_puts by (auto simp: holds_blocks_def)
  obtain ps where ps: "range_of (BoundsComputeIndexOneHeight (blk_Height blk)) (entries (st_DB s)) =
      map (\<lambda>(t, v). (KeyComputeIndex (blk_Height blk) t, v)) ps"
    "set ps = block_ci blk" "sorted_wrt (<) (map fst ps)" "\<forall>p \<in> set ps. length (fst p) = 32"
    using ci_rows_pairs [OF h assms(4,6,7)] by blast
  have "ci_item R (KeyComputeIndex n t, v) = ci_pair_item R (t, v)" if "length t = 32" for n t v
    using that by (simp add: ci_item_def ci_pair_item_def KeyComputeIndex_def)
  then have "map (ci_item R) (map (\<lambda>(t, v). (KeyComputeIndex (blk_Height blk) t, v)) ps) =
      map (ci_pair_item R) ps" using ps(4) by auto
  then have "FetchComputeIndex R P s (blk_Height blk) = Inr (map (ci_pair_item R) ps)"
    unfolding FetchComputeIndex_eq [OF ty, of R "blk_Height blk"] ps(1) by (rule arg_cong)
  then show ?thesis using ps(2,3) by blast
qed

end

section \<open>Properties of the compute index\<close>

text \<open>C16. Let blocks of different hashes be applied to an empty database, no two of them writing different
  values under one key (so at most one block per height: no reorganisation).  Once they are committed,
  the compute index of a height is exactly the transactions of its block that have a tweak, each once and
  in txid order: the id, the 33 bytes of the tweak and the short forms of the outputs it was applied
  with.  (Where a second block comes to the same height this fails, because nothing deletes the rows of
  the first: \<open>replaced_block_stays_indexed\<close> of the theory Continuous.)\<close>

theorem compute_index_roundtrip:
  assumes "pebble_reliable P entries writes" and "store_run P db0 s bs" and "list_all wf_block bs"
    and "entries db0 = []" and "single (all_puts bs)"
    and "held entries writes s = set (entries (st_DB s))"
    and "distinct (map blk_Hash bs)" and "blk \<in> set bs"
  shows "\<exists>ps. FetchComputeIndex R P s (blk_Height blk) = Inr (map (ci_pair_item R) ps) \<and>
    set ps = block_ci blk \<and> sorted_wrt (<) (map fst ps)"
  using pebble_reliable.FetchComputeIndex_block [OF assms] .

theorem compute_index_roundtrip_witness:
  "\<exists>s ps. store_run mem_pebble [] s [w_block] \<and>
     FetchComputeIndex rev mem_pebble s 7 = Inr (map (ci_pair_item rev) ps) \<and>
     set ps = block_ci w_block \<and> sorted_wrt (<) (map fst ps)"
proof -
  obtain s where s: "store_run mem_pebble [] s [w_block]"
    "held mem_entries (\<lambda>b. b) s = set (mem_entries (st_DB s))" using w_flushed by metis
  have h: "blk_Height w_block = 7" by (simp add: w_block_def)
  show ?thesis
    by (rule exI [of _ s])
      (use s compute_index_roundtrip [OF mem_reliable s(1) _ _ w_single' s(2), of w_block rev]
         w_block_wf h in \<open>simp add: mem_entries_def\<close>)
qed

text \<open>Writing rebuilt compute-index entries through the batch keeps everything the store
  holds and adds exactly these entries, whether or not the batch is rotated.\<close>

theorem FinishComputeIndex_adds:
  assumes "pebble_reliable P entries writes"
    and "FinishComputeIndex P n cis s = (Inr (), s')" and "dbBatch s = Some b" and "\<not> closed s"
    and "single (held entries writes s \<union> set (map (\<lambda>c. (ci_SerialiseKey c, ci_SerialiseData c)) cis))"
  shows "held entries writes s' = held entries writes s \<union>
    set (map (\<lambda>c. (ci_SerialiseKey c, ci_SerialiseData c)) cis)"
  using pebble_reliable.FinishComputeIndex_held [OF assms] .

theorem FinishComputeIndex_adds_witness:
  "let c = \<lparr>ci_TxId = replicate 32 1, ci_Height = 7, ci_Tweak = replicate 33 2,
            ci_OutputsShort = [replicate 8 4]\<rparr>;
       s = (NewStore mem_pebble [])\<lparr>batchCounter := 199\<rparr>;
       s' = s\<lparr>dbBatch := Some [], batchCounter := 0,
              pending := [[(ci_SerialiseKey c, ci_SerialiseData c)]]\<rparr>
   in FinishComputeIndex mem_pebble 7 [c] s = (Inr (), s') \<and>
      held mem_entries (\<lambda>b. b) s' = held mem_entries (\<lambda>b. b) s \<union>
        set (map (\<lambda>c. (ci_SerialiseKey c, ci_SerialiseData c)) [c])"
proof -
  let ?c = "\<lparr>ci_TxId = replicate 32 1, ci_Height = 7, ci_Tweak = replicate 33 2,
            ci_OutputsShort = [replicate 8 4]\<rparr>"
  let ?s = "(NewStore mem_pebble [])\<lparr>batchCounter := 199\<rparr>"
  let ?s' = "?s\<lparr>dbBatch := Some [], batchCounter := 0,
              pending := [[(ci_SerialiseKey ?c, ci_SerialiseData ?c)]]\<rparr>"
  have f: "FinishComputeIndex mem_pebble 7 [?c] ?s = (Inr (), ?s')"
    by (simp add: FinishComputeIndex_def finishLocked_def NewStore_def mem_pebble_def commitBatch_def rotateLocked_def
        bindB_def setB_def retB_def Let_def)
  have "held mem_entries (\<lambda>b. b) ?s = {}"
    by (simp add: held_def NewStore_def mem_pebble_def mem_entries_def)
  then have "single (held mem_entries (\<lambda>b. b) ?s \<union>
      set (map (\<lambda>c. (ci_SerialiseKey c, ci_SerialiseData c)) [?c]))" by (simp add: single_def)
  from FinishComputeIndex_adds [OF mem_reliable f _ _ this] f show ?thesis
    unfolding Let_def by (simp add: NewStore_def)
qed

end
