(* ===== verification/Scan.thy ===== *)
theory Scan
  imports Compute_Index "HOL-Library.Multiset"
begin

text \<open>
  Scanning the compute index for the outputs of a receiver (\<open>dbpebble/compute.go\<close>): the scan of
  the short outputs of one transaction, the scan of a range of heights and its split into ranges
  for parallel workers.  The curve operations of \<open>go-bip352\<close> and \<open>ConvertToFixedLength33\<close> of
  \<open>blindbit-lib\<close> are a parameter.
\<close>

section \<open>The library the scan calls\<close>

text \<open>The fields of a \<open>bip352.Label\<close> that the scan reads.\<close>

record Label =
  lb_PubKey :: bytes
  lb_Tweak :: bytes

record bip352_api =
  CreateSharedSecret :: "bytes \<Rightarrow> bytes \<Rightarrow> bytes option \<Rightarrow> bytes res"
  CreateOutputPubKeyTweak :: "bytes \<Rightarrow> bytes \<Rightarrow> u32 \<Rightarrow> (bytes \<times> bytes) res"
  AddPrivateKeys :: "bytes \<Rightarrow> bytes \<Rightarrow> bytes res"
  NegatePublicKey :: "bytes \<Rightarrow> bytes res"
  AddPublicKeys :: "bytes \<Rightarrow> bytes \<Rightarrow> bytes res"
  ConvertToFixedLength33 :: "bytes \<Rightarrow> bytes res"

record FoundOutputShort =
  fo_Output :: bytes
  fo_SecKeyTweak :: bytes
  fo_Label :: "Label option"
  fo_Txid :: bytes

definition GetOutput :: "FoundOutputShort \<Rightarrow> bytes" where
  "GetOutput f = fo_Output f"

definition GetSecKeyTweak :: "FoundOutputShort \<Rightarrow> bytes" where
  "GetSecKeyTweak f = fo_SecKeyTweak f"

definition GetLabel :: "FoundOutputShort \<Rightarrow> Label option" where
  "GetLabel f = fo_Label f"

definition newFound :: "bytes \<Rightarrow> bytes \<Rightarrow> Label option \<Rightarrow> FoundOutputShort" where
  "newFound out tw l = \<lparr>fo_Output = out, fo_SecKeyTweak = tw, fo_Label = l,
     fo_Txid = replicate 32 0\<rparr>"

section \<open>One transaction\<close>

definition MatchLabels ::
    "bip352_api \<Rightarrow> bytes \<Rightarrow> bytes \<Rightarrow> Label list \<Rightarrow> Label option res" where
  "MatchLabels C txOutput pk labels =
     bindR (NegatePublicKey C pk) (\<lambda>pkNeg.
     bindR (AddPublicKeys C txOutput pkNeg) (\<lambda>labelMatch.
     Inr (find (\<lambda>label. take 8 (drop 1 labelMatch) = take 8 (drop 1 (lb_PubKey label))) labels)))"

text \<open>
  What one output gives: nothing, or a found output.  \<open>labels\<close> is \<open>None\<close> for the nil slice.
\<close>

definition tryOutput ::
    "bip352_api \<Rightarrow> Label list option \<Rightarrow> bytes \<Rightarrow> bytes \<Rightarrow> bytes \<Rightarrow> FoundOutputShort option res" where
  "tryOutput C labels outputPubKey tweak out =
     (if take 8 outputPubKey = out then Inr (Some (newFound out tweak None))
      else case labels of
        None \<Rightarrow> Inr None
      | Some ls \<Rightarrow>
          bindR (ConvertToFixedLength33 C ([0x02] @ out)) (\<lambda>prependedTxOutput.
          bindR (ConvertToFixedLength33 C ([0x02] @ outputPubKey)) (\<lambda>prependedOutputPubKey.
          bindR (MatchLabels C prependedTxOutput prependedOutputPubKey ls) (\<lambda>foundLabel.
          case foundLabel of
            Some l \<Rightarrow>
              bindR (AddPrivateKeys C tweak (lb_Tweak l)) (\<lambda>secKeyTweak.
              Inr (Some (newFound out secKeyTweak (Some l))))
          | None \<Rightarrow>
              bindR (NegatePublicKey C prependedTxOutput) (\<lambda>negated.
              bindR (MatchLabels C negated prependedOutputPubKey ls) (\<lambda>foundLabel2.
              case foundLabel2 of
                Some l \<Rightarrow>
                  bindR (AddPrivateKeys C tweak (lb_Tweak l)) (\<lambda>secKeyTweak.
                  Inr (Some (newFound (take 8 (drop 1 negated)) secKeyTweak (Some l))))
              | None \<Rightarrow> Inr None))))))"

text \<open>The loop over the outputs: the first that gives something, and the outputs without it.\<close>

fun scanOutputs ::
    "bip352_api \<Rightarrow> Label list option \<Rightarrow> bytes \<Rightarrow> bytes \<Rightarrow> bytes list \<Rightarrow> bytes list
     \<Rightarrow> (FoundOutputShort \<times> bytes list) option res" where
  "scanOutputs C labels outputPubKey tweak pre [] = Inr None"
| "scanOutputs C labels outputPubKey tweak pre (out # outs) =
     bindR (tryOutput C labels outputPubKey tweak out) (\<lambda>r.
     case r of
       Some f \<Rightarrow> Inr (Some (f, pre @ outs))
     | None \<Rightarrow> scanOutputs C labels outputPubKey tweak (pre @ [out]) outs)"

lemma scanOutputs_shrinks:
  "scanOutputs C labels pk tw pre outs = Inr (Some (f, outs')) \<Longrightarrow>
   length outs' < length pre + length outs"
proof (induction outs arbitrary: pre)
  case (Cons out outs)
  then show ?case using Cons.IH [of "pre @ [out]"] by (auto split: option.splits)
qed simp

function scanFrom ::
    "bip352_api \<Rightarrow> bytes \<Rightarrow> bytes \<Rightarrow> Label list option \<Rightarrow> u32 \<Rightarrow> bytes list
     \<Rightarrow> FoundOutputShort list res" where
  "scanFrom C sharedSecret spendPubKey labels k txOutputs =
     bindR (CreateOutputPubKeyTweak C sharedSecret spendPubKey k) (\<lambda>pt.
     bindR (scanOutputs C labels (fst pt) (snd pt) [] txOutputs) (\<lambda>r.
     case r of
       None \<Rightarrow> Inr []
     | Some fo \<Rightarrow>
         bindR (scanFrom C sharedSecret spendPubKey labels (k + 1) (snd fo)) (\<lambda>rest.
         Inr (fst fo # rest))))"
  by pat_completeness auto

termination
  by (relation "measure (\<lambda>(C, sec, sp, ls, k, outs). length outs)")
    (auto dest: scanOutputs_shrinks)

declare scanFrom.simps [simp del]

definition ReceiverScanTransactionShortOutputs ::
    "bip352_api \<Rightarrow> bytes \<Rightarrow> bytes \<Rightarrow> Label list option \<Rightarrow> bytes list \<Rightarrow> bytes \<Rightarrow> bytes option
     \<Rightarrow> FoundOutputShort list res" where
  "ReceiverScanTransactionShortOutputs C scanKey receiverSpendPubKey labels txOutputs
     publicComponent inputHash =
     bindR (CreateSharedSecret C publicComponent scanKey inputHash) (\<lambda>sharedSecret.
     scanFrom C sharedSecret receiverSpendPubKey labels 0 txOutputs)"

section \<open>A range of heights\<close>

text \<open>
  \<open>done\<close> tells whether the context is done before the row with the given number is processed.
  \<open>scanKey\<close> and \<open>spendPubKey\<close> are the keys drawn when the package is loaded.
\<close>

fun scanRows ::
    "bip352_api \<Rightarrow> bytes \<Rightarrow> bytes \<Rightarrow> (nat \<Rightarrow> bool) \<Rightarrow> nat \<Rightarrow> kv list \<Rightarrow> FoundOutputShort list res" where
  "scanRows C scanKey spendPubKey ctxDone counter [] = Inr []"
| "scanRows C scanKey spendPubKey ctxDone counter ((k, data) # rows) =
     (if ctxDone counter then Inl (Err ''context canceled'')
      else if length data < SizeTweak then Inl (Panic ''slice bounds out of range'')
      else bindR (ReceiverScanTransactionShortOutputs C scanKey spendPubKey None
                    (chunks 8 (drop SizeTweak data)) (take SizeTweak data) None) (\<lambda>foundPerTx.
           if length foundPerTx > 0 \<and> length k < 1 + SizeHeight
           then Inl (Panic ''slice bounds out of range'')
           else bindR (scanRows C scanKey spendPubKey ctxDone (Suc counter) rows) (\<lambda>rest.
                Inr (map (\<lambda>f. f\<lparr>fo_Txid := fit 32 (drop (1 + SizeHeight) k)\<rparr>) foundPerTx
                     @ rest))))"

definition DBComputeComputeIndex ::
    "bip352_api \<Rightarrow> bytes \<Rightarrow> bytes \<Rightarrow> (nat \<Rightarrow> bool) \<Rightarrow> ('db, 'b) pebble_api \<Rightarrow> ('db, 'b) Store
     \<Rightarrow> u32 \<Rightarrow> u32 \<Rightarrow> FoundOutputShort list res" where
  "DBComputeComputeIndex C scanKey spendPubKey ctxDone P s startHeight endHeight =
     (let (lb, ub) = BoundsComputeIndex startHeight endHeight
      in bindR (pb_iter P (st_DB s) (Some lb) (Some ub)) (\<lambda>it.
         scanRows C scanKey spendPubKey ctxDone 0 (it_First it)))"

section \<open>The work queue\<close>

record WorkRange =
  wr_startHeight :: u32
  wr_endHeight :: u32
  wr_lowerBound :: bytes
  wr_upperBound :: bytes

record WorkStealingQueue =
  wq_ranges :: "WorkRange list"
  wq_index :: int

definition workRange :: "u32 \<Rightarrow> u32 \<Rightarrow> WorkRange" where
  "workRange a b = \<lparr>wr_startHeight = a, wr_endHeight = b,
     wr_lowerBound = fst (BoundsComputeIndex a b), wr_upperBound = snd (BoundsComputeIndex a b)\<rparr>"

text \<open>The loop over the start heights; the additions wrap around, so it may not end.\<close>

partial_function (option) rangesFrom :: "u32 \<Rightarrow> u32 \<Rightarrow> u32 \<Rightarrow> WorkRange list option" where
  "rangesFrom current endHeight rangeSize =
     (if current < endHeight
      then Option.bind (rangesFrom (current + rangeSize) endHeight rangeSize) (\<lambda>rs.
           Some (workRange current (min (current + rangeSize) endHeight) # rs))
      else Some [])"

definition NewWorkStealingQueue :: "u32 \<Rightarrow> u32 \<Rightarrow> u32 \<Rightarrow> WorkStealingQueue option" where
  "NewWorkStealingQueue startHeight endHeight rangeSize =
     map_option (\<lambda>rs. \<lparr>wq_ranges = rs, wq_index = 0\<rparr>) (rangesFrom startHeight endHeight rangeSize)"

definition GetNextRange :: "WorkStealingQueue \<Rightarrow> WorkRange option \<times> WorkStealingQueue" where
  "GetNextRange q =
     (let currentIndex = wq_index q; q' = q\<lparr>wq_index := wq_index q + 1\<rparr>
      in if currentIndex \<ge> int (length (wq_ranges q)) then (None, q')
         else (Some (wq_ranges q ! nat currentIndex), q'))"

record ProgressTracker =
  pt_totalProcessed :: int
  pt_totalRanges :: int

definition NewProgressTracker :: "int \<Rightarrow> ProgressTracker" where
  "NewProgressTracker totalRanges = \<lparr>pt_totalProcessed = 0, pt_totalRanges = totalRanges\<rparr>"

definition UpdateProgress :: "int \<Rightarrow> ProgressTracker \<Rightarrow> ProgressTracker" where
  "UpdateProgress processed pt = pt\<lparr>pt_totalProcessed := pt_totalProcessed pt + processed\<rparr>"

definition GetProgress :: "ProgressTracker \<Rightarrow> int \<times> int" where
  "GetProgress pt = (pt_totalProcessed pt, pt_totalRanges pt)"

section \<open>The parallel scan\<close>

text \<open>
  The workers share the queue; the only shared write is the atomic increment of its index.  A
  worker is \<open>Some acc\<close> with what it has found so far, or \<open>None\<close> once it has returned; results and
  errors are the contents of the two channels.  In one step a running worker sees the cancelled
  context and returns, takes a range and scans it, fails on it, or finds the queue empty and
  sends its results.
\<close>

record par_state =
  ps_queue :: WorkStealingQueue
  ps_workers :: "FoundOutputShort list option list"
  ps_results :: "FoundOutputShort list list"
  ps_errors :: "go_error list"

definition par_start :: "WorkStealingQueue \<Rightarrow> int \<Rightarrow> par_state" where
  "par_start q numWorkers = \<lparr>ps_queue = q,
     ps_workers = replicate (min (nat (if numWorkers \<le> 0 then 1 else numWorkers))
                              (length (wq_ranges q))) (Some []),
     ps_results = [], ps_errors = []\<rparr>"

inductive par_step :: "(WorkRange \<Rightarrow> FoundOutputShort list res) \<Rightarrow> bool \<Rightarrow> par_state \<Rightarrow> par_state \<Rightarrow> bool"
  for scan :: "WorkRange \<Rightarrow> FoundOutputShort list res" and cancelled :: bool where
  cancel: "w < length (ps_workers p) \<Longrightarrow> ps_workers p ! w = Some acc \<Longrightarrow> cancelled \<Longrightarrow>
     par_step scan cancelled p (p\<lparr>ps_workers := (ps_workers p)[w := None]\<rparr>)"
| work: "w < length (ps_workers p) \<Longrightarrow> ps_workers p ! w = Some acc \<Longrightarrow>
     GetNextRange (ps_queue p) = (Some r, q') \<Longrightarrow> scan r = Inr found \<Longrightarrow>
     par_step scan cancelled p
       (p\<lparr>ps_queue := q', ps_workers := (ps_workers p)[w := Some (acc @ found)]\<rparr>)"
| fail: "w < length (ps_workers p) \<Longrightarrow> ps_workers p ! w = Some acc \<Longrightarrow>
     GetNextRange (ps_queue p) = (Some r, q') \<Longrightarrow> scan r = Inl e \<Longrightarrow>
     par_step scan cancelled p
       (p\<lparr>ps_queue := q', ps_workers := (ps_workers p)[w := None], ps_errors := ps_errors p @ [e]\<rparr>)"
| finish: "w < length (ps_workers p) \<Longrightarrow> ps_workers p ! w = Some acc \<Longrightarrow>
     GetNextRange (ps_queue p) = (None, q') \<Longrightarrow>
     par_step scan cancelled p
       (p\<lparr>ps_queue := q', ps_workers := (ps_workers p)[w := None],
          ps_results := ps_results p @ [acc]\<rparr>)"

inductive_cases par_stepE: "par_step scan cancelled p p'"

definition par_return :: "par_state \<Rightarrow> FoundOutputShort list res" where
  "par_return p = (case ps_errors p of e # _ \<Rightarrow> Inl e | [] \<Rightarrow> Inr (concat (ps_results p)))"

definition defaultRangeSize :: "u32 \<Rightarrow> u32" where
  "defaultRangeSize rangeSize = (if rangeSize \<le> 0 then 144 else rangeSize)"

text \<open>A run of \<open>DBComputeComputeIndexParallel\<close> under some schedule of its workers.\<close>

definition DBComputeComputeIndexParallel ::
    "(u32 \<Rightarrow> u32 \<Rightarrow> FoundOutputShort list res) \<Rightarrow> bool \<Rightarrow> u32 \<Rightarrow> u32 \<Rightarrow> int \<Rightarrow> u32
     \<Rightarrow> FoundOutputShort list res \<Rightarrow> bool" where
  "DBComputeComputeIndexParallel compute cancelled startHeight endHeight numWorkers rangeSize r \<longleftrightarrow>
     (\<exists>q p. NewWorkStealingQueue startHeight endHeight (defaultRangeSize rangeSize) = Some q \<and>
        (par_step (\<lambda>w. compute (wr_startHeight w) (wr_endHeight w)) cancelled)\<^sup>*\<^sup>*
          (par_start q numWorkers) p \<and>
        (\<forall>w \<in> set (ps_workers p). w = None) \<and> r = par_return p)"

section \<open>The ranges cover the heights\<close>

lemma u32_add: "unat (a + b :: u32) = unat a + unat b" if "unat a + unat b < 4294967296"
  using that by (simp add: unat_word_ariths)

lemma rangesFrom_cover:
  assumes "0 < size'" and "unat e + unat size' < 4294967296"
  shows "\<exists>rs. rangesFrom c e size' = Some rs \<and>
    (\<forall>n. (\<exists>r \<in> set rs. wr_startHeight r \<le> n \<and> n \<le> wr_endHeight r) \<longleftrightarrow> c < e \<and> c \<le> n \<and> n \<le> e)"
proof (induction "unat e - unat c" arbitrary: c rule: less_induct)
  case less
  show ?case
  proof (cases "c < e")
    case False
    then show ?thesis by (subst rangesFrom.simps) simp
  next
    case True
    then have lt: "unat c < unat e" by (simp add: word_less_nat_alt)
    have pos: "0 < unat size'" using assms(1) by (simp add: word_less_nat_alt)
    have add: "unat (c + size') = unat c + unat size'" using lt assms(2) by (intro u32_add) linarith
    obtain rs where rs: "rangesFrom (c + size') e size' = Some rs"
      "\<And>n. (\<exists>r \<in> set rs. wr_startHeight r \<le> n \<and> n \<le> wr_endHeight r) \<longleftrightarrow>
        c + size' < e \<and> c + size' \<le> n \<and> n \<le> e"
      using less.hyps [of "c + size'"] lt pos add by fastforce
    let ?r = "workRange c (min (c + size') e)"
    have "(wr_startHeight ?r \<le> n \<and> n \<le> wr_endHeight ?r \<or>
        (c + size' < e \<and> c + size' \<le> n \<and> n \<le> e)) \<longleftrightarrow> c \<le> n \<and> n \<le> e" for n
      using True add pos lt
      by (auto simp: workRange_def min_def word_le_nat_alt word_less_nat_alt split: if_splits)
    then have "(\<exists>r \<in> set (?r # rs). wr_startHeight r \<le> n \<and> n \<le> wr_endHeight r) \<longleftrightarrow>
        c < e \<and> c \<le> n \<and> n \<le> e" for n
      using rs(2) [of n] True by auto
    moreover have "rangesFrom c e size' = Some (?r # rs)"
      using True rs(1) by (subst rangesFrom.simps) simp
    ultimately show ?thesis by blast
  qed
qed

text \<open>Ranges that meet share their boundary height.\<close>

lemma rangesFrom_two:
  assumes "c < e" and "c + size' < e" and "rangesFrom c e size' = Some rs"
  shows "\<exists>rest. rs = workRange c (c + size') #
    workRange (c + size') (min (c + size' + size') e) # rest"
proof -
  obtain rs1 where r1: "rangesFrom (c + size') e size' = Some rs1"
    "rs = workRange c (min (c + size') e) # rs1"
    using assms(1,3) by (subst (asm) rangesFrom.simps) (auto simp: bind_eq_Some_conv)
  then obtain rs2 where "rs1 = workRange (c + size') (min (c + size' + size') e) # rs2"
    using assms(2) by (subst (asm) rangesFrom.simps) (auto simp: bind_eq_Some_conv)
  then show ?thesis using r1(2) less_imp_le [OF assms(2)] by (simp add: min_absorb1)
qed

section \<open>Every schedule finds the same outputs\<close>

definition scanned :: "(WorkRange \<Rightarrow> FoundOutputShort list res) \<Rightarrow> WorkRange \<Rightarrow> FoundOutputShort list" where
  "scanned scan r = (case scan r of Inl _ \<Rightarrow> [] | Inr fs \<Rightarrow> fs)"

definition worker_found :: "FoundOutputShort list option list \<Rightarrow> FoundOutputShort multiset" where
  "worker_found ws = sum_list (map (\<lambda>w. case w of None \<Rightarrow> {#} | Some a \<Rightarrow> mset a) ws)"

lemma worker_found_Cons [simp]:
  "worker_found [] = {#}" "worker_found (None # ws) = worker_found ws"
  "worker_found (Some acc # ws) = mset acc + worker_found ws"
  by (simp_all add: worker_found_def)

lemma worker_found_append [simp]: "worker_found (xs @ ys) = worker_found xs + worker_found ys"
  by (simp add: worker_found_def)

lemma worker_found_empty: "\<forall>w \<in> set ws. w = None \<or> w = Some [] \<Longrightarrow> worker_found ws = {#}"
  by (induction ws) auto

lemma worker_found_update:
  assumes "w < length ws" and "ws ! w = Some acc"
  shows "worker_found (ws[w := None]) + mset acc = worker_found ws"
    and "worker_found (ws[w := Some (acc @ fs)]) = worker_found ws + mset fs"
proof -
  have "worker_found ws = worker_found (take w ws @ Some acc # drop (Suc w) ws)"
    using assms id_take_nth_drop [of w ws] by simp
  then show "worker_found (ws[w := None]) + mset acc = worker_found ws"
    "worker_found (ws[w := Some (acc @ fs)]) = worker_found ws + mset fs"
    unfolding upd_conv_take_nth_drop [OF assms(1)] by simp_all
qed

definition par_inv :: "(WorkRange \<Rightarrow> FoundOutputShort list res) \<Rightarrow> WorkRange list \<Rightarrow> par_state \<Rightarrow> bool" where
  "par_inv scan rs p \<longleftrightarrow> wq_ranges (ps_queue p) = rs \<and> 0 \<le> wq_index (ps_queue p) \<and>
     (ps_results p \<noteq> [] \<longrightarrow> int (length rs) \<le> wq_index (ps_queue p)) \<and>
     (None \<in> set (ps_workers p) \<longrightarrow> ps_results p \<noteq> [] \<or> ps_errors p \<noteq> []) \<and>
     (ps_workers p = [] \<longrightarrow> rs = []) \<and>
     (ps_errors p = [] \<longrightarrow>
        mset (concat (ps_results p)) + worker_found (ps_workers p) =
          mset (concat (map (scanned scan) (take (nat (wq_index (ps_queue p))) rs))) \<and>
        (\<forall>r \<in> set (take (nat (wq_index (ps_queue p))) rs). \<exists>fs. scan r = Inr fs))"

lemma GetNextRange_Some:
  assumes "GetNextRange q = (Some r, q')" and "0 \<le> wq_index q"
  shows "q' = q\<lparr>wq_index := wq_index q + 1\<rparr>" "wq_index q < int (length (wq_ranges q))"
    "take (nat (wq_index q + 1)) (wq_ranges q) = take (nat (wq_index q)) (wq_ranges q) @ [r]"
proof -
  show "q' = q\<lparr>wq_index := wq_index q + 1\<rparr>" and lt: "wq_index q < int (length (wq_ranges q))"
    using assms by (auto simp: GetNextRange_def Let_def split: if_splits)
  have "r = wq_ranges q ! nat (wq_index q)"
    using assms by (auto simp: GetNextRange_def Let_def split: if_splits)
  moreover have "nat (wq_index q + 1) = Suc (nat (wq_index q))" using assms(2) by simp
  ultimately show "take (nat (wq_index q + 1)) (wq_ranges q) = take (nat (wq_index q)) (wq_ranges q) @ [r]"
    using lt assms(2) by (simp add: take_Suc_conv_app_nth)
qed

lemma GetNextRange_None:
  "GetNextRange q = (None, q') \<Longrightarrow>
   q' = q\<lparr>wq_index := wq_index q + 1\<rparr> \<and> int (length (wq_ranges q)) \<le> wq_index q"
  by (auto simp: GetNextRange_def Let_def split: if_splits)

lemma par_inv_work:
  assumes "par_inv scan rs p" and "w < length (ps_workers p)" "ps_workers p ! w = Some acc"
    and "GetNextRange (ps_queue p) = (Some r, q')" and "scan r = Inr found"
  shows "par_inv scan rs (p\<lparr>ps_queue := q', ps_workers := (ps_workers p)[w := Some (acc @ found)]\<rparr>)"
proof -
  note g = GetNextRange_Some [OF assms(4)] and inv = assms(1) [unfolded par_inv_def]
  have "None \<in> set ((ps_workers p)[w := Some (acc @ found)]) \<Longrightarrow> None \<in> set (ps_workers p)"
    using set_update_subset_insert by fastforce
  then show ?thesis
    using inv g worker_found_update(2) [OF assms(2,3), of found] assms(5)
    by (auto simp: par_inv_def scanned_def algebra_simps)
qed

lemma par_inv_fail:
  assumes "par_inv scan rs p" and "w < length (ps_workers p)"
    and "GetNextRange (ps_queue p) = (Some r, q')"
  shows "par_inv scan rs (p\<lparr>ps_queue := q', ps_workers := (ps_workers p)[w := None],
    ps_errors := ps_errors p @ [e]\<rparr>)"
  using assms(1,2) GetNextRange_Some [OF assms(3)] by (auto simp: par_inv_def)

lemma par_inv_finish:
  assumes "par_inv scan rs p" and "w < length (ps_workers p)" "ps_workers p ! w = Some acc"
    and "GetNextRange (ps_queue p) = (None, q')"
  shows "par_inv scan rs (p\<lparr>ps_queue := q', ps_workers := (ps_workers p)[w := None],
    ps_results := ps_results p @ [acc]\<rparr>)"
proof -
  note g = GetNextRange_None [OF assms(4)] and inv = assms(1) [unfolded par_inv_def]
  have "take (nat (wq_index (ps_queue p) + 1)) rs = take (nat (wq_index (ps_queue p))) rs"
    using g inv by (simp add: nat_le_iff le_nat_iff)
  moreover have "mset (concat (ps_results p @ [acc])) + worker_found ((ps_workers p)[w := None]) =
      mset (concat (ps_results p)) + worker_found (ps_workers p)"
    by (simp add: worker_found_update(1) [OF assms(2,3), symmetric])
  ultimately show ?thesis using inv g by (auto simp: par_inv_def add.assoc)
qed

lemma par_step_inv: "par_step scan False p p' \<Longrightarrow> par_inv scan rs p \<Longrightarrow> par_inv scan rs p'"
  by (erule par_stepE) (auto intro: par_inv_work par_inv_fail par_inv_finish)

lemma par_run_inv:
  "(par_step scan False)\<^sup>*\<^sup>* p p' \<Longrightarrow> par_inv scan rs p \<Longrightarrow> par_inv scan rs p'"
  by (induction rule: rtranclp_induct) (auto intro: par_step_inv)

lemma par_start_inv: "wq_index q = 0 \<Longrightarrow> par_inv scan (wq_ranges q) (par_start q n)"
  by (auto simp: par_inv_def par_start_def worker_found_empty min_def split: if_splits)

lemma par_result:
  assumes "par_inv scan rs p" and "\<forall>w \<in> set (ps_workers p). w = None" and "par_return p = Inr out"
  shows "mset out = mset (concat (map (scanned scan) rs)) \<and> (\<forall>r \<in> set rs. \<exists>fs. scan r = Inr fs)"
proof -
  note inv = assms(1) [unfolded par_inv_def]
  have e: "ps_errors p = []" "out = concat (ps_results p)"
    using assms(3) by (auto simp: par_return_def split: list.splits)
  have "worker_found (ps_workers p) = {#}"
    using assms(2) by (simp add: worker_found_empty)
  moreover have "take (nat (wq_index (ps_queue p))) rs = rs"
    using inv assms(2) e by (cases "ps_workers p") auto
  ultimately show ?thesis using inv e by auto
qed

text \<open>A run exists: as long as a worker runs it can take a step, and no schedule goes on forever.\<close>

definition par_left :: "par_state \<Rightarrow> nat" where
  "par_left p = nat (int (length (wq_ranges (ps_queue p))) - wq_index (ps_queue p)) +
     length (filter (\<lambda>w. w \<noteq> None) (ps_workers p))"

lemma running_update:
  assumes "w < length ws" and "ws ! w = Some acc"
  shows "length (filter (\<lambda>w. w \<noteq> None) (ws[w := None])) < length (filter (\<lambda>w. w \<noteq> None) ws)"
    and "length (filter (\<lambda>w. w \<noteq> None) (ws[w := Some x])) = length (filter (\<lambda>w. w \<noteq> None) ws)"
proof -
  have "length (filter (\<lambda>w. w \<noteq> None) ws) =
      length (filter (\<lambda>w. w \<noteq> None) (take w ws @ Some acc # drop (Suc w) ws))"
    using assms id_take_nth_drop [of w ws] by simp
  then show "length (filter (\<lambda>w. w \<noteq> None) (ws[w := None])) < length (filter (\<lambda>w. w \<noteq> None) ws)"
    "length (filter (\<lambda>w. w \<noteq> None) (ws[w := Some x])) = length (filter (\<lambda>w. w \<noteq> None) ws)"
    unfolding upd_conv_take_nth_drop [OF assms(1)] by simp_all
qed

lemma par_step_left:
  assumes "par_step scan c p p'" and "0 \<le> wq_index (ps_queue p)"
  shows "par_left p' < par_left p \<and> 0 \<le> wq_index (ps_queue p')"
  using assms(1)
proof cases
  case (cancel w acc)
  then show ?thesis using running_update [OF cancel(2,3)] assms(2) by (simp add: par_left_def)
next
  case (work w acc r q' found)
  then show ?thesis
    using running_update(2) [OF work(2,3)] GetNextRange_Some [OF work(4) assms(2)] assms(2)
    by (simp add: par_left_def)
next
  case (fail w acc r q' e)
  then show ?thesis
    using running_update(1) [OF fail(2,3)] GetNextRange_Some [OF fail(4) assms(2)] assms(2)
    by (simp add: par_left_def)
next
  case (finish w acc q')
  then show ?thesis
    using running_update(1) [OF finish(2,3)] GetNextRange_None [OF finish(4)] assms(2)
    by (simp add: par_left_def)
qed

lemma par_progress:
  assumes "Some acc \<in> set (ps_workers p)"
  shows "\<exists>p'. par_step scan c p p'"
proof -
  obtain w where w: "w < length (ps_workers p)" "ps_workers p ! w = Some acc"
    using assms by (auto simp: in_set_conv_nth)
  obtain r q' where g: "GetNextRange (ps_queue p) = (r, q')" by (cases "GetNextRange (ps_queue p)")
  show ?thesis
  proof (cases r)
    case None
    then show ?thesis using finish [OF w] g by blast
  next
    case (Some r')
    then show ?thesis using work [OF w] fail [OF w] g by (cases "scan r'") blast+
  qed
qed

lemma par_run_exists:
  "0 \<le> wq_index (ps_queue p) \<Longrightarrow>
   \<exists>p'. (par_step scan c)\<^sup>*\<^sup>* p p' \<and> (\<forall>w \<in> set (ps_workers p'). w = None)"
proof (induction "par_left p" arbitrary: p rule: less_induct)
  case less
  show ?case
  proof (cases "\<forall>w \<in> set (ps_workers p). w = None")
    case True
    then show ?thesis by blast
  next
    case False
    then obtain acc where "Some acc \<in> set (ps_workers p)" by (metis not_None_eq)
    then obtain p1 where p1: "par_step scan c p p1" using par_progress by blast
    then obtain p' where "(par_step scan c)\<^sup>*\<^sup>* p1 p'" "\<forall>w \<in> set (ps_workers p'). w = None"
      using less.hyps [of p1] par_step_left [OF p1 less.prems] by blast
    then show ?thesis using p1 by (meson converse_rtranclp_into_rtranclp)
  qed
qed

lemma par_run_no_errors:
  "(par_step scan c)\<^sup>*\<^sup>* p p' \<Longrightarrow> \<forall>r. \<exists>fs. scan r = Inr fs \<Longrightarrow> ps_errors p' = ps_errors p"
proof (induction rule: rtranclp_induct)
  case (step y z)
  have "scan r \<noteq> Inl e" for r e using step(4) by (metis Inl_Inr_False)
  then show ?case using step(2) step(3) [OF step(4)] by (auto elim!: par_stepE)
qed simp

lemma parallel_returns:
  assumes "0 < defaultRangeSize size'" and "unat b + unat (defaultRangeSize size') < 2 ^ 32"
    and "\<forall>a b. \<exists>fs. compute a b = Inr fs"
  shows "\<exists>out. DBComputeComputeIndexParallel compute c a b numWorkers size' (Inr out)"
proof -
  let ?scan = "\<lambda>w. compute (wr_startHeight w) (wr_endHeight w)"
  obtain q where q: "NewWorkStealingQueue a b (defaultRangeSize size') = Some q" "wq_index q = 0"
    using rangesFrom_cover [OF assms(1), of b a] assms(2) by (auto simp: NewWorkStealingQueue_def)
  obtain p where p: "(par_step ?scan c)\<^sup>*\<^sup>* (par_start q numWorkers) p"
    "\<forall>w \<in> set (ps_workers p). w = None"
    using par_run_exists [of "par_start q numWorkers" ?scan c] q(2) by (auto simp: par_start_def)
  have "ps_errors p = []"
    using par_run_no_errors [OF p(1)] assms(3) by (simp add: par_start_def)
  then have "par_return p = Inr (concat (ps_results p))" by (simp add: par_return_def)
  then show ?thesis using q p unfolding DBComputeComputeIndexParallel_def by metis
qed

section \<open>The scan of one transaction\<close>

lemma scanOutputs_unlabelled:
  "scanOutputs C None pk tw pre outs =
     Inr (if take 8 pk \<in> set outs
          then Some (newFound (take 8 pk) tw None, pre @ remove1 (take 8 pk) outs) else None)"
  by (induction outs arbitrary: pre) (auto simp: tryOutput_def)

text \<open>
  A scan without labels finds the outputs of the keys with the numbers from \<open>k\<close> on, one each,
  until the first number whose key is not among the outputs left.
\<close>

definition found_from ::
    "bip352_api \<Rightarrow> bytes \<Rightarrow> bytes \<Rightarrow> u32 \<Rightarrow> bytes list \<Rightarrow> FoundOutputShort list \<Rightarrow> bool" where
  "found_from C sec sp k outs fs \<longleftrightarrow>
     (\<forall>i < length fs. \<exists>pk. CreateOutputPubKeyTweak C sec sp (k + of_nat i) =
        Inr (pk, fo_SecKeyTweak (fs ! i)) \<and> take 8 pk = fo_Output (fs ! i) \<and> fo_Label (fs ! i) = None) \<and>
     mset (map fo_Output fs) \<subseteq># mset outs \<and>
     (\<exists>pk tw. CreateOutputPubKeyTweak C sec sp (k + of_nat (length fs)) = Inr (pk, tw) \<and>
        take 8 pk \<notin># mset outs - mset (map fo_Output fs))"

lemma scanFrom_unlabelled:
  assumes "\<forall>k. \<exists>pt. CreateOutputPubKeyTweak C sec sp k = Inr pt"
  shows "\<exists>fs. scanFrom C sec sp None k outs = Inr fs \<and> found_from C sec sp k outs fs"
proof (induction "length outs" arbitrary: k outs rule: less_induct)
  case less
  obtain pk tw where pt: "CreateOutputPubKeyTweak C sec sp k = Inr (pk, tw)"
    using assms by (metis surj_pair)
  show ?case
  proof (cases "take 8 pk \<in> set outs")
    case False
    then have "scanFrom C sec sp None k outs = Inr []"
      by (subst scanFrom.simps) (simp add: pt scanOutputs_unlabelled)
    then show ?thesis using False pt by (simp add: found_from_def)
  next
    case True
    let ?o = "take 8 pk" and ?outs = "remove1 (take 8 pk) outs"
    have "length ?outs < length outs" using True length_pos_if_in_set [OF True]
      by (simp add: length_remove1)
    then obtain fs where fs: "scanFrom C sec sp None (k + 1) ?outs = Inr fs"
      "found_from C sec sp (k + 1) ?outs fs" using less by blast
    let ?fs = "newFound ?o tw None # fs"
    have r: "scanFrom C sec sp None k outs = Inr ?fs"
      using fs(1) True by (subst scanFrom.simps) (simp add: pt scanOutputs_unlabelled)
    have m: "mset outs = add_mset ?o (mset ?outs)" using True by simp
    have "\<forall>i < length ?fs. \<exists>p. CreateOutputPubKeyTweak C sec sp (k + of_nat i) =
        Inr (p, fo_SecKeyTweak (?fs ! i)) \<and> take 8 p = fo_Output (?fs ! i) \<and> fo_Label (?fs ! i) = None"
    proof (intro allI impI)
      fix i assume "i < length ?fs"
      then show "\<exists>p. CreateOutputPubKeyTweak C sec sp (k + of_nat i) =
        Inr (p, fo_SecKeyTweak (?fs ! i)) \<and> take 8 p = fo_Output (?fs ! i) \<and> fo_Label (?fs ! i) = None"
      proof (cases i)
        case 0
        then show ?thesis using pt by (simp add: newFound_def)
      next
        case (Suc j)
        then have e: "k + of_nat i = k + 1 + of_nat j" "?fs ! i = fs ! j" "j < length fs"
          using \<open>i < length ?fs\<close> by simp_all
        show ?thesis unfolding e(1,2) using fs(2) e(3) unfolding found_from_def by blast
      qed
    qed
    moreover have fo: "mset (map fo_Output ?fs) = add_mset ?o (mset (map fo_Output fs))"
      by (simp add: newFound_def)
    moreover have "mset (map fo_Output ?fs) \<subseteq># mset outs"
      unfolding fo m using fs(2) unfolding found_from_def by (simp only: mset_subset_eq_add_mset_cancel)
    moreover have "mset outs - mset (map fo_Output ?fs) = mset ?outs - mset (map fo_Output fs)"
      unfolding fo m by (simp only: add_mset_diff_bothsides)
    moreover have "k + of_nat (length ?fs) = k + 1 + of_nat (length fs)" by (simp add: add.assoc)
    ultimately have "found_from C sec sp k outs ?fs"
      using fs(2) unfolding found_from_def by (simp only:)
    then show ?thesis using r by blast
  qed
qed

section \<open>The scan of a range\<close>

text \<open>What one row gives when the context is not cancelled.\<close>

definition row_found :: "bip352_api \<Rightarrow> bytes \<Rightarrow> bytes \<Rightarrow> kv \<Rightarrow> FoundOutputShort list res" where
  "row_found C sk sp e =
     bindR (ReceiverScanTransactionShortOutputs C sk sp None (chunks 8 (drop 33 (snd e)))
              (take 33 (snd e)) None) (\<lambda>fs.
     Inr (map (\<lambda>f. f\<lparr>fo_Txid := fit 32 (drop 5 (fst e))\<rparr>) fs))"

definition ci_row :: "kv \<Rightarrow> bool" where
  "ci_row e \<longleftrightarrow> 5 \<le> length (fst e) \<and> 33 \<le> length (snd e)"

lemma scanRows_eq:
  "\<forall>e \<in> set rows. ci_row e \<Longrightarrow>
   scanRows C sk sp (\<lambda>_. False) n rows =
     bindR (mapR (row_found C sk sp) rows) (\<lambda>fs. Inr (concat fs))"
proof (induction rows arbitrary: n)
  case (Cons e rows)
  obtain k d where e: "e = (k, d)" by (cases e)
  have c: "5 \<le> length k" "33 \<le> length d" using Cons.prems e by (auto simp: ci_row_def)
  have IH: "scanRows C sk sp (\<lambda>_. False) (Suc n) rows =
     bindR (mapR (row_found C sk sp) rows) (\<lambda>fs. Inr (concat fs))"
    using Cons by simp
  show ?case
    using c by (cases "ReceiverScanTransactionShortOutputs C sk sp None (chunks 8 (drop 33 d))
        (take 33 d) None"; cases "mapR (row_found C sk sp) rows")
      (simp_all add: e IH row_found_def [of C sk sp "(k, d)"])
qed simp

definition ci_entries :: "kv list \<Rightarrow> u32 \<Rightarrow> u32 \<Rightarrow> kv list" where
  "ci_entries es a b = range_of (BoundsComputeIndex a b) es"

lemma ci_entries_mem:
  assumes "typed (set es)"
  shows "(k, v) \<in> set (ci_entries es a b) \<longleftrightarrow>
    (k, v) \<in> set es \<and> (\<exists>n t. length t = 32 \<and> k = KeyComputeIndex n t \<and> a \<le> n \<and> n \<le> b)"
proof
  assume "(k, v) \<in> set (ci_entries es a b)"
  then have kv: "(k, v) \<in> set es" "within (BoundsComputeIndex a b) k"
    by (auto simp: ci_entries_def range_of_within)
  obtain dk where dk: "wf_key dk" "k = enc_key dk" "wf_val dk v" by (rule typedE [OF assms kv(1)])
  obtain n t where "dk = DComputeIndex n t" "a \<le> n" "n \<le> b"
    using within_ComputeIndex [OF dk(1), of a b] kv(2) dk(2) by auto
  then show "(k, v) \<in> set es \<and> (\<exists>n t. length t = 32 \<and> k = KeyComputeIndex n t \<and> a \<le> n \<and> n \<le> b)"
    using kv(1) dk(1,2) by (intro conjI exI [of _ n] exI [of _ t]) auto
next
  assume "(k, v) \<in> set es \<and> (\<exists>n t. length t = 32 \<and> k = KeyComputeIndex n t \<and> a \<le> n \<and> n \<le> b)"
  then obtain n t where n: "(k, v) \<in> set es" "length t = 32" "k = enc_key (DComputeIndex n t)"
    "a \<le> n" "n \<le> b" by auto
  obtain dk where dk: "wf_key dk" "k = enc_key dk" "wf_val dk v" by (rule typedE [OF assms n(1)])
  have "dk = DComputeIndex n t" by (rule enc_key_inj [OF dk(1)]) (use n dk in simp_all)
  then have "within (BoundsComputeIndex a b) k"
    using within_ComputeIndex [OF dk(1), of a b] dk n by auto
  then show "(k, v) \<in> set (ci_entries es a b)" using n(1) by (simp add: ci_entries_def range_of_within)
qed

lemma ci_entries_row:
  assumes "typed (set es)" and "e \<in> set (ci_entries es a b)"
  shows "ci_row e"
proof -
  obtain k v where e: "e = (k, v)" by (cases e)
  then obtain n t where n: "(k, v) \<in> set es" "length t = 32" "k = enc_key (DComputeIndex n t)"
    using ci_entries_mem [OF assms(1), of k v a b] assms(2) by auto
  obtain dk where dk: "wf_key dk" "k = enc_key dk" "wf_val dk v" by (rule typedE [OF assms(1) n(1)])
  have "dk = DComputeIndex n t" by (rule enc_key_inj [OF dk(1)]) (use n dk in simp_all)
  then show ?thesis using dk by (simp add: e ci_row_def KeyComputeIndex_def)
qed

context pebble_reliable
begin

lemma DBCompute_rows:
  assumes "typed (set (entries (st_DB s)))"
  shows "DBComputeComputeIndex C sk sp (\<lambda>_. False) P s a b =
    bindR (mapR (row_found C sk sp) (ci_entries (entries (st_DB s)) a b)) (\<lambda>fs. Inr (concat fs))"
proof -
  let ?B = "BoundsComputeIndex a b"
  obtain it where it: "pb_iter P (st_DB s) (Some (fst ?B)) (Some (snd ?B)) = Inr it"
    "it_First it = range_of ?B (entries (st_DB s))" by (rule iter_eq)
  have "\<forall>e \<in> set (range_of ?B (entries (st_DB s))). ci_row e"
    using ci_entries_row [OF assms] by (auto simp: ci_entries_def)
  from scanRows_eq [OF this] show ?thesis using it
    by (simp add: DBComputeComputeIndex_def split_beta ci_entries_def)
qed

text \<open>The rows of the ranges are together the rows of the whole.\<close>

lemma DBCompute_union:
  assumes "typed (set (entries (st_DB s)))"
    and "DBComputeComputeIndex C sk sp (\<lambda>_. False) P s a b = Inr all"
    and "\<And>n. (\<exists>r \<in> set rs. wr_startHeight r \<le> n \<and> n \<le> wr_endHeight r) \<longleftrightarrow> a \<le> n \<and> n \<le> b"
    and "\<forall>r \<in> set rs. DBComputeComputeIndex C sk sp (\<lambda>_. False) P s (wr_startHeight r) (wr_endHeight r)
           = Inr (f r)"
  shows "set (concat (map f rs)) = set all"
proof -
  let ?es = "entries (st_DB s)" and ?R = "row_found C sk sp"
  have scan: "x \<in> set out \<longleftrightarrow> (\<exists>e \<in> set (ci_entries ?es c d). \<exists>fs. ?R e = Inr fs \<and> x \<in> set fs)"
    if sc: "DBComputeComputeIndex C sk sp (\<lambda>_. False) P s c d = Inr out" for c d out x
  proof -
    obtain fss where m: "mapR ?R (ci_entries ?es c d) = Inr fss" "out = concat fss"
      using sc unfolding DBCompute_rows [OF assms(1)] by auto
    show ?thesis using mapR_all [OF m(1)] mapR_from [OF m(1)] m(2) by (auto; fastforce)
  qed
  have ent: "e \<in> set (ci_entries ?es a b) \<longleftrightarrow>
      (\<exists>r \<in> set rs. e \<in> set (ci_entries ?es (wr_startHeight r) (wr_endHeight r)))" for e
  proof -
    obtain k v where e: "e = (k, v)" by (cases e)
    show ?thesis unfolding e ci_entries_mem [OF assms(1)] using assms(3) by blast
  qed
  have "x \<in> set (concat (map f rs)) \<longleftrightarrow> x \<in> set all" for x
    unfolding scan [OF assms(2)] using scan assms(4) ent by (auto; blast)
  then show ?thesis by blast
qed

end

lemma defaultRangeSize_pos: "0 < defaultRangeSize n"
  by (simp add: defaultRangeSize_def word_neq_0_conv)

lemma parallel_mset:
  assumes "DBComputeComputeIndexParallel compute False a b numWorkers size' (Inr out)"
  shows "\<exists>q. NewWorkStealingQueue a b (defaultRangeSize size') = Some q \<and>
    mset out = mset (concat (map (scanned (\<lambda>w. compute (wr_startHeight w) (wr_endHeight w)))
      (wq_ranges q))) \<and>
    (\<forall>r \<in> set (wq_ranges q). \<exists>fs. compute (wr_startHeight r) (wr_endHeight r) = Inr fs)"
proof -
  obtain q p where q: "NewWorkStealingQueue a b (defaultRangeSize size') = Some q"
    and run: "(par_step (\<lambda>w. compute (wr_startHeight w) (wr_endHeight w)) False)\<^sup>*\<^sup>*
      (par_start q numWorkers) p"
    and fin: "\<forall>w \<in> set (ps_workers p). w = None" "par_return p = Inr out"
    using assms by (auto simp: DBComputeComputeIndexParallel_def)
  have "wq_index q = 0" using q by (auto simp: NewWorkStealingQueue_def)
  from par_result [OF par_run_inv [OF run par_start_inv [OF this]] fin] q show ?thesis by blast
qed

context pebble_reliable
begin

lemma parallel_scan:
  assumes "store_run P db0 s bs" and "list_all wf_block bs" and "typed (set (entries db0))"
    and "unat b + unat (defaultRangeSize size') < 2 ^ 32" and "a < b"
    and "DBComputeComputeIndex C sk sp (\<lambda>_. False) P s a b = Inr all"
    and "DBComputeComputeIndexParallel (DBComputeComputeIndex C sk sp (\<lambda>_. False) P s) False a b
           numWorkers size' (Inr out)"
  shows "set out = set all"
proof -
  let ?scan = "\<lambda>w. DBComputeComputeIndex C sk sp (\<lambda>_. False) P s (wr_startHeight w) (wr_endHeight w)"
  obtain q where q: "NewWorkStealingQueue a b (defaultRangeSize size') = Some q"
    "mset out = mset (concat (map (scanned ?scan) (wq_ranges q)))"
    "\<forall>r \<in> set (wq_ranges q). \<exists>fs. ?scan r = Inr fs"
    using parallel_mset [OF assms(7)] by blast
  have cover: "(\<exists>r \<in> set (wq_ranges q). wr_startHeight r \<le> n \<and> n \<le> wr_endHeight r) \<longleftrightarrow>
      a \<le> n \<and> n \<le> b" for n
    using rangesFrom_cover [OF defaultRangeSize_pos, of b size' a] assms(4,5) q(1)
    by (auto simp: NewWorkStealingQueue_def)
  have "\<forall>r \<in> set (wq_ranges q). ?scan r = Inr (scanned ?scan r)"
    using q(3) by (auto simp: scanned_def)
  from DBCompute_union [OF store_run_typed [OF assms(1-3)] assms(6) cover this]
  show ?thesis using mset_eq_setD [OF q(2)] by simp
qed

end

section \<open>Properties of the scan\<close>

text \<open>C17. The scan of a transaction without labels always ends, and finds, in the order of their
  numbers, the outputs that belong to the receiver: each one a different output of the
  transaction that agrees with the key of its number in the first 8 bytes, up to the first number
  whose key is not among the outputs left.\<close>

theorem ReceiverScan_complete:
  assumes "CreateSharedSecret C pub scanKey inputHash = Inr sec"
    and "\<forall>k. \<exists>pt. CreateOutputPubKeyTweak C sec sp k = Inr pt"
  shows "\<exists>fs. ReceiverScanTransactionShortOutputs C scanKey sp None outs pub inputHash = Inr fs \<and>
    found_from C sec sp 0 outs fs"
  using assms(1) scanFrom_unlabelled [OF assms(2), of 0 outs]
  by (simp add: ReceiverScanTransactionShortOutputs_def)

definition w_curve :: bip352_api where
  "w_curve = \<lparr>CreateSharedSecret = (\<lambda>pub sk h. Inr pub),
     CreateOutputPubKeyTweak = (\<lambda>sec sp k. Inr (replicate 32 (of_nat (unat k)), put_be32 k)),
     AddPrivateKeys = (\<lambda>a b. Inr a), NegatePublicKey = (\<lambda>a. Inr a),
     AddPublicKeys = (\<lambda>a b. Inr a), ConvertToFixedLength33 = (\<lambda>a. Inr (fit 33 a))\<rparr>"

theorem ReceiverScan_complete_witness:
  "\<exists>fs. ReceiverScanTransactionShortOutputs w_curve [1] [2] None
      [replicate 8 1, replicate 8 9, replicate 8 0] [3] None = Inr fs \<and>
    found_from w_curve [3] [2] 0 [replicate 8 1, replicate 8 9, replicate 8 0] fs"
  by (rule ReceiverScan_complete) (simp_all add: w_curve_def)

text \<open>The work queue: as long as the last height plus the range size stays below \<open>2^32\<close>,
  building it ends, and its ranges cover exactly the heights from the first to the last, both
  included; for an empty interval (and for a single height) there is no range at all.\<close>

theorem NewWorkStealingQueue_covers:
  assumes "0 < size'" and "unat b + unat size' < 2 ^ 32"
  shows "\<exists>q. NewWorkStealingQueue a b size' = Some q \<and>
    (\<forall>n. (\<exists>r \<in> set (wq_ranges q). wr_startHeight r \<le> n \<and> n \<le> wr_endHeight r) \<longleftrightarrow>
       a < b \<and> a \<le> n \<and> n \<le> b)"
  using rangesFrom_cover [OF assms(1), of b a] assms(2) by (auto simp: NewWorkStealingQueue_def)

theorem NewWorkStealingQueue_covers_witness:
  "\<exists>q. NewWorkStealingQueue 100 500 (144 :: u32) = Some q \<and>
    (\<forall>n. (\<exists>r \<in> set (wq_ranges q). wr_startHeight r \<le> n \<and> n \<le> wr_endHeight r) \<longleftrightarrow>
       100 < (500 :: u32) \<and> 100 \<le> n \<and> n \<le> 500)"
  by (rule NewWorkStealingQueue_covers) simp_all

text \<open>Adjacent ranges overlap: the end height of a range, which its bounds include, is the
  start height of the next, so every entry of that height lies within the bounds of both.\<close>

theorem adjacent_ranges_overlap:
  assumes "unat b + unat size' < 2 ^ 32" and "a < b" and "a + size' < b"
    and "NewWorkStealingQueue a b size' = Some q"
  shows "\<exists>r1 r2 rest. wq_ranges q = r1 # r2 # rest \<and>
    (\<forall>t. length t = 32 \<and> t \<noteq> maxTxid \<longrightarrow>
       within (wr_lowerBound r1, wr_upperBound r1) (KeyComputeIndex (a + size') t) \<and>
       within (wr_lowerBound r2, wr_upperBound r2) (KeyComputeIndex (a + size') t))"
proof -
  obtain rs where rs: "rangesFrom a b size' = Some rs" "q = \<lparr>wq_ranges = rs, wq_index = 0\<rparr>"
    using assms(4) by (auto simp: NewWorkStealingQueue_def)
  obtain rs2 where r: "rs = workRange a (a + size') #
      workRange (a + size') (min (a + size' + size') b) # rs2"
    using rangesFrom_two [OF assms(2,3) rs(1)] by blast
  have le: "a \<le> a + size'" "a + size' \<le> min (a + size' + size') b"
  proof -
    have "unat a < unat b" "unat (a + size') < unat b"
      using assms(2,3) by (simp_all add: word_less_nat_alt)
    then have "unat (a + size' + size') = unat (a + size') + unat size'"
      "unat (a + size') = unat a + unat size'"
      using assms(1) by (intro u32_add, simp)+
    then show "a \<le> a + size'" "a + size' \<le> min (a + size' + size') b"
      using assms(3) by (simp_all add: word_le_nat_alt word_less_nat_alt)
  qed
  have "within (BoundsComputeIndex c d) (KeyComputeIndex (a + size') t)"
    if "c \<le> a + size'" "a + size' \<le> d" "length t = 32" "t \<noteq> maxTxid" for c d t
    using within_ComputeIndex [of "DComputeIndex (a + size') t" c d] that by simp
  then show ?thesis using le by (auto simp: rs(2) r workRange_def)
qed

theorem adjacent_ranges_overlap_witness:
  "\<exists>q r1 r2 rest. NewWorkStealingQueue 100 500 144 = Some q \<and> wq_ranges q = r1 # r2 # rest \<and>
    (\<forall>t. length t = 32 \<and> t \<noteq> maxTxid \<longrightarrow>
       within (wr_lowerBound r1, wr_upperBound r1) (KeyComputeIndex 244 t) \<and>
       within (wr_lowerBound r2, wr_upperBound r2) (KeyComputeIndex 244 t))"
proof -
  obtain rs where "rangesFrom 100 500 144 = Some rs" using rangesFrom_cover [of 144 500 100] by auto
  then have q: "NewWorkStealingQueue 100 500 144 = Some \<lparr>wq_ranges = rs, wq_index = 0\<rparr>"
    by (simp add: NewWorkStealingQueue_def)
  show ?thesis using adjacent_ranges_overlap [OF _ _ _ q] q by simp
qed

text \<open>C18. The parallel scan under every schedule of its workers: if it is not cancelled and
  returns without an error, it has found, counted with multiplicity, what scanning each range of
  the queue once finds, and no range has failed.\<close>

theorem parallel_scan_any_schedule:
  assumes "DBComputeComputeIndexParallel compute False a b numWorkers size' (Inr out)"
  shows "\<exists>q. NewWorkStealingQueue a b (defaultRangeSize size') = Some q \<and>
    mset out = mset (concat (map (scanned (\<lambda>w. compute (wr_startHeight w) (wr_endHeight w)))
      (wq_ranges q))) \<and>
    (\<forall>r \<in> set (wq_ranges q). \<exists>fs. compute (wr_startHeight r) (wr_endHeight r) = Inr fs)"
  by (rule parallel_mset [OF assms])

theorem parallel_scan_any_schedule_witness:
  "let f = newFound (replicate 8 1) (replicate 32 2) None
   in \<exists>out. DBComputeComputeIndexParallel (\<lambda>_ _. Inr [f]) False 5 200 4 144 (Inr out) \<and> mset out = {#f, f#}"
proof -
  let ?f = "newFound (replicate 8 1) (replicate 32 2) None"
  have d: "defaultRangeSize 144 = 144" by (simp add: defaultRangeSize_def)
  obtain out where out: "DBComputeComputeIndexParallel (\<lambda>_ _. Inr [?f]) False 5 200 4 144 (Inr out)"
    using parallel_returns [of 144 200 "\<lambda>_ _. Inr [?f]" False 5 4] by (auto simp: d)
  have "rangesFrom 5 200 144 = Some [workRange 5 149, workRange 149 200]"
    by (simp add: rangesFrom.simps [of 5 200 144] rangesFrom.simps [of 149 200 144] rangesFrom.simps [of 293 200 144])
  then have "NewWorkStealingQueue 5 200 144 = Some \<lparr>wq_ranges = [workRange 5 149, workRange 149 200], wq_index = 0\<rparr>"
    by (simp add: NewWorkStealingQueue_def)
  then show ?thesis
    using parallel_scan_any_schedule [OF out] out by (auto simp: d Let_def scanned_def)
qed

text \<open>C19. The parallel scan of the compute index, not cancelled, finds the same outputs as one scan of the
  whole interval when the start is below the end: the two have the same set of found outputs, and the
  duplicates of the shared heights are the only difference.  When the start is not below the end there
  is no range and the parallel scan finds nothing, also for an interval of one height, which the
  sequential scan covers.  The end plus the size of a range must be below \<open>2^32\<close>.\<close>

theorem parallel_scan_same_outputs:
  assumes "pebble_reliable P entries writes" and "store_run P db0 s bs" and "list_all wf_block bs"
    and "typed (set (entries db0))"
    and "unat b + unat (defaultRangeSize size') < 2 ^ 32"
    and "DBComputeComputeIndex C sk sp (\<lambda>_. False) P s a b = Inr all"
    and "DBComputeComputeIndexParallel (DBComputeComputeIndex C sk sp (\<lambda>_. False) P s) False a b
           numWorkers size' (Inr out)"
  shows "set out = (if a < b then set all else {})"
proof (cases "a < b")
  case True
  from pebble_reliable.parallel_scan [OF assms(1-5) True assms(6,7)] True show ?thesis by simp
next
  case False
  then have "NewWorkStealingQueue a b (defaultRangeSize size') = Some \<lparr>wq_ranges = [], wq_index = 0\<rparr>"
    by (simp add: NewWorkStealingQueue_def rangesFrom.simps)
  then show ?thesis using parallel_mset [OF assms(7)] False by auto
qed

theorem parallel_scan_same_outputs_witness:
  "\<exists>s all out. store_run mem_pebble [] s [w_block] \<and>
     DBComputeComputeIndex w_curve [1] [2] (\<lambda>_. False) mem_pebble s 3 9 = Inr all \<and>
     DBComputeComputeIndexParallel (DBComputeComputeIndex w_curve [1] [2] (\<lambda>_. False) mem_pebble s)
       False 3 9 2 4 (Inr out) \<and> set out = set all"
proof -
  obtain s where s: "store_run mem_pebble [] s [w_block]" using w_run1 by metis
  have e: "list_all wf_block [w_block]" "typed (set (mem_entries []))"
    using w_block_wf by (simp_all add: mem_entries_def typed_def)
  note t = mem.store_run_typed [OF s e]
  have "\<exists>fs. row_found w_curve [1] [2] x = Inr fs" for x
    using scanFrom_unlabelled [of w_curve "take 33 (snd x)" "[2]" 0 "chunks 8 (drop 33 (snd x))"]
    by (auto simp: row_found_def ReceiverScanTransactionShortOutputs_def w_curve_def)
  then have tot: "\<forall>a b. \<exists>fs. DBComputeComputeIndex w_curve [1] [2] (\<lambda>_. False) mem_pebble s a b = Inr fs"
    unfolding mem.DBCompute_rows [OF t] using mapR_ok [of _ "row_found w_curve [1] [2]"]
    by (metis bindR.simps(2))
  have d: "defaultRangeSize 4 = 4" by (simp add: defaultRangeSize_def)
  obtain all where all: "DBComputeComputeIndex w_curve [1] [2] (\<lambda>_. False) mem_pebble s 3 9 = Inr all"
    using tot by blast
  obtain out where out: "DBComputeComputeIndexParallel
      (DBComputeComputeIndex w_curve [1] [2] (\<lambda>_. False) mem_pebble s) False 3 9 2 4 (Inr out)"
    using parallel_returns [OF _ _ tot, of 4 9 False 3 2] d by auto
  have "set out = set all"
    using parallel_scan_same_outputs [OF mem_reliable s e _ all out] by (simp add: d)
  then show ?thesis using s all out by blast
qed

end
