(* ===== verification/Hex.thy ===== *)
theory Hex
  imports Prelude
begin

text \<open>
  The parts of \<open>encoding/hex\<close> the code uses: \<open>hex.EncodeToString\<close>, which writes lower-case
  digits, and \<open>hex.DecodeString\<close>, which reads digits of either case and rejects other characters
  and an odd number of digits.
\<close>

definition hexDigit :: "nat \<Rightarrow> char" where
  "hexDigit n = char_of (if n < 10 then 48 + n else 87 + n)"

definition fromHexChar :: "char \<Rightarrow> nat option" where
  "fromHexChar c =
     (let n = of_char c :: nat
      in if 48 \<le> n \<and> n \<le> 57 then Some (n - 48)
         else if 97 \<le> n \<and> n \<le> 102 then Some (n - 87)
         else if 65 \<le> n \<and> n \<le> 70 then Some (n - 55)
         else None)"

fun EncodeToString :: "bytes \<Rightarrow> string" where
  "EncodeToString [] = ''''"
| "EncodeToString (b # bs) = hexDigit (unat b div 16) # hexDigit (unat b mod 16) # EncodeToString bs"

fun DecodeString :: "string \<Rightarrow> bytes res" where
  "DecodeString [] = Inr []"
| "DecodeString [c] =
     (if fromHexChar c = None then Inl (Err ''encoding/hex: invalid byte'')
      else Inl (Err ''encoding/hex: odd length hex string''))"
| "DecodeString (c # d # s) =
     (case (fromHexChar c, fromHexChar d) of
        (Some x, Some y) \<Rightarrow>
          bindR (DecodeString s) (\<lambda>bs. Inr (of_nat (x * 16 + y) # bs))
      | _ \<Rightarrow> Inl (Err ''encoding/hex: invalid byte''))"

lemma fromHexChar_hexDigit [simp]: "n < 16 \<Longrightarrow> fromHexChar (hexDigit n) = Some n"
  by (simp add: fromHexChar_def hexDigit_def Let_def)

lemma length_EncodeToString [simp, len_simps]: "length (EncodeToString bs) = 2 * length bs"
  by (induction bs) auto

lemma Decode_Encode [simp]: "DecodeString (EncodeToString bs) = Inr bs"
proof (induction bs)
  case (Cons b bs)
  have "unat b div 16 < 16" using unat_byte_lt [of b] by simp
  then show ?case using Cons by simp
qed simp

lemma EncodeToString_inj [simp]: "EncodeToString a = EncodeToString b \<longleftrightarrow> a = b"
  by (metis Decode_Encode sum.inject(2))

lemma DecodeString_length: "DecodeString s = Inr bs \<Longrightarrow> length s = 2 * length bs"
  by (induction s arbitrary: bs rule: DecodeString.induct) (auto split: option.splits if_splits)

text \<open>The digits an encoding consists of.\<close>

definition lower_hex :: "string \<Rightarrow> bool" where
  "lower_hex s \<longleftrightarrow> (\<exists>bs. s = EncodeToString bs)"

end
