(* ===== verification/Pairs.thy ===== *)
theory Pairs
  imports Hex
begin

text \<open>
  The key-value records of package \<open>types\<close> and their serialisation.  Every one implements the
  interface \<open>Pair\<close>; its contract is the locale \<open>pair_codec\<close>: a record written with \<open>SerialiseKey\<close>
  and \<open>SerialiseData\<close> and read into the zero value of its factory is the record again, short of the
  fields that are not stored.  The block header is the one that does not satisfy it.
\<close>

section \<open>The contract of a pair\<close>

locale pair_codec =
  fixes SerialiseKey :: "'a \<Rightarrow> bytes res"
    and SerialiseData :: "'a \<Rightarrow> bytes res"
    and DeSerialiseKey :: "bytes \<Rightarrow> 'a \<Rightarrow> 'a res"
    and DeSerialiseData :: "bytes \<Rightarrow> 'a \<Rightarrow> 'a res"
    and Factory :: 'a
    and wf :: "'a \<Rightarrow> bool"
    and stored :: "'a \<Rightarrow> 'a"
  assumes ser_key: "wf v \<Longrightarrow> \<exists>k. SerialiseKey v = Inr k"
    and ser_data: "wf v \<Longrightarrow> \<exists>d. SerialiseData v = Inr d"
    and de_ser: "wf v \<Longrightarrow> SerialiseKey v = Inr k \<Longrightarrow> SerialiseData v = Inr d \<Longrightarrow>
      bindR (DeSerialiseKey k Factory) (DeSerialiseData d) = Inr (stored v)"
begin

definition write_pair :: "'a \<Rightarrow> (bytes \<times> bytes) res" where
  "write_pair v = bindR (SerialiseKey v) (\<lambda>k. bindR (SerialiseData v) (\<lambda>d. Inr (k, d)))"

definition read_pair :: "bytes \<times> bytes \<Rightarrow> 'a res" where
  "read_pair = (\<lambda>(k, d). bindR (DeSerialiseKey k Factory) (DeSerialiseData d))"

lemma read_write: "wf v \<Longrightarrow> bindR (write_pair v) read_pair = Inr (stored v)"
  using ser_key [of v] ser_data [of v] de_ser [of v] by (auto simp: write_pair_def read_pair_def)

lemma read_write_all:
  "list_all wf vs \<Longrightarrow> bindR (mapR write_pair vs) (mapR read_pair) = Inr (map stored vs)"
proof (induction vs)
  case (Cons v vs)
  then obtain ps where ps: "mapR write_pair vs = Inr ps" "mapR read_pair ps = Inr (map stored vs)"
    by auto
  obtain p where "write_pair v = Inr p" "read_pair p = Inr (stored v)"
    using read_write [of v] Cons.prems by auto
  then show ?case using ps by simp
qed simp

lemma write_inj: "wf v \<Longrightarrow> wf w \<Longrightarrow> write_pair v = write_pair w \<Longrightarrow> stored v = stored w"
  using read_write [of v] read_write [of w] by auto

end

section \<open>Unspent outputs\<close>

record UTXO =
  ut_Txid :: bytes
  ut_Vout :: u32
  ut_Value :: u64
  ut_ScriptPubKey :: string
  ut_BlockHeight :: u32
  ut_BlockHash :: bytes
  ut_Timestamp :: u64
  ut_Spent :: bool

definition SerialisedKeyLengthUtxo :: nat where [simp]: "SerialisedKeyLengthUtxo = 32 + 32 + 4"
definition SerialisedDataLengthUtxo :: nat where
  [simp]: "SerialisedDataLengthUtxo = 34 + 8 + 8 + 1"

definition PairFactoryUTXO :: UTXO where
  "PairFactoryUTXO = \<lparr>ut_Txid = replicate 32 0, ut_Vout = 0, ut_Value = 0, ut_ScriptPubKey = '''',
     ut_BlockHeight = 0, ut_BlockHash = replicate 32 0, ut_Timestamp = 0, ut_Spent = False\<rparr>"

definition GetDBKeyUTXO :: "bytes \<Rightarrow> bytes \<Rightarrow> u32 \<Rightarrow> bytes res" where
  "GetDBKeyUTXO blockHash txid vout = Inr (fit 32 blockHash @ fit 32 txid @ put_be32 vout)"

definition UTXO_SerialiseKey :: "UTXO \<Rightarrow> bytes res" where
  "UTXO_SerialiseKey v = GetDBKeyUTXO (ut_BlockHash v) (ut_Txid v) (ut_Vout v)"

text \<open>\<open>encoding/binary\<close> writes a bool as one byte and reads every byte but zero as true.\<close>

definition put_bool :: "bool \<Rightarrow> bytes" where
  "put_bool b = (if b then [1] else [0])"

definition get_bool :: "bytes \<Rightarrow> bool res" where
  "get_bool bs = (case bs of [] \<Rightarrow> Inl (Err ''EOF'') | b # _ \<Rightarrow> Inr (b \<noteq> 0))"

definition UTXO_SerialiseData :: "UTXO \<Rightarrow> bytes res" where
  "UTXO_SerialiseData v =
     bindR (DecodeString (ut_ScriptPubKey v)) (\<lambda>scriptPubKeyBytes.
     let data = scriptPubKeyBytes @ put_be64 (ut_Value v) @ put_be64 (ut_Timestamp v) @
                put_bool (ut_Spent v)
     in if length data \<noteq> SerialisedDataLengthUtxo
        then Inl (Err ''data is wrong length. should not happen'') else Inr data)"

definition UTXO_DeSerialiseKey :: "bytes \<Rightarrow> UTXO \<Rightarrow> UTXO res" where
  "UTXO_DeSerialiseKey key v =
     (if length key \<noteq> SerialisedKeyLengthUtxo
      then Inl (Err ''key is wrong length. should not happen'')
      else bindR (get_be32 (drop 64 key)) (\<lambda>vout.
           Inr (v\<lparr>ut_BlockHash := take 32 key, ut_Txid := take 32 (drop 32 key), ut_Vout := vout\<rparr>)))"

definition UTXO_DeSerialiseData :: "bytes \<Rightarrow> UTXO \<Rightarrow> UTXO res" where
  "UTXO_DeSerialiseData data v =
     (if length data \<noteq> SerialisedDataLengthUtxo
      then Inl (Err ''data is wrong length. should not happen'')
      else bindR (get_be64 (take 8 (drop 34 data))) (\<lambda>value.
           bindR (get_be64 (take 8 (drop 42 data))) (\<lambda>timestamp.
           bindR (get_bool (drop 50 data)) (\<lambda>spent.
           Inr (v\<lparr>ut_ScriptPubKey := EncodeToString (take 34 data), ut_Value := value,
                  ut_Timestamp := timestamp, ut_Spent := spent\<rparr>)))))"

definition wf_UTXO :: "UTXO \<Rightarrow> bool" where
  "wf_UTXO v \<longleftrightarrow> length (ut_Txid v) = 32 \<and> length (ut_BlockHash v) = 32 \<and>
     lower_hex (ut_ScriptPubKey v) \<and> length (ut_ScriptPubKey v) = 68"

lemma get_put_bool [simp]: "get_bool (put_bool b @ xs) = Inr b" "get_bool (put_bool b) = Inr b"
  by (simp_all add: get_bool_def put_bool_def)

lemma length_put_bool [simp]: "length (put_bool b) = 1"
  by (simp add: put_bool_def)

lemma UTXO_SerialiseData_wf:
  assumes "wf_UTXO v"
  obtains bs where "length bs = 34" "ut_ScriptPubKey v = EncodeToString bs"
    "UTXO_SerialiseData v = Inr (bs @ put_be64 (ut_Value v) @ put_be64 (ut_Timestamp v) @
       put_bool (ut_Spent v))"
proof -
  obtain bs where bs: "ut_ScriptPubKey v = EncodeToString bs" "length bs = 34"
    using assms by (auto simp: wf_UTXO_def lower_hex_def)
  then show thesis by (intro that [of bs]) (simp_all add: UTXO_SerialiseData_def)
qed

interpretation utxo: pair_codec UTXO_SerialiseKey UTXO_SerialiseData UTXO_DeSerialiseKey
    UTXO_DeSerialiseData PairFactoryUTXO wf_UTXO "\<lambda>v. v\<lparr>ut_BlockHeight := 0\<rparr>"
proof unfold_locales
  fix v k d
  assume w: "wf_UTXO v"
  obtain bs where bs: "length bs = 34" "ut_ScriptPubKey v = EncodeToString bs"
    "UTXO_SerialiseData v = Inr (bs @ put_be64 (ut_Value v) @ put_be64 (ut_Timestamp v) @
       put_bool (ut_Spent v))" by (rule UTXO_SerialiseData_wf [OF w])
  show "\<exists>k. UTXO_SerialiseKey v = Inr k" by (simp add: UTXO_SerialiseKey_def GetDBKeyUTXO_def)
  show "\<exists>d. UTXO_SerialiseData v = Inr d" using bs by simp
  assume "UTXO_SerialiseKey v = Inr k" and "UTXO_SerialiseData v = Inr d"
  then show "bindR (UTXO_DeSerialiseKey k PairFactoryUTXO) (UTXO_DeSerialiseData d) =
      Inr (v\<lparr>ut_BlockHeight := 0\<rparr>)"
    using bs w by (auto simp: UTXO_SerialiseKey_def GetDBKeyUTXO_def UTXO_DeSerialiseKey_def
        UTXO_DeSerialiseData_def PairFactoryUTXO_def wf_UTXO_def)
qed

text \<open>The loop of \<open>FindBiggestRemainingUTXO\<close>: the flag and the maximum so far.\<close>

fun biggestLoop :: "UTXO \<Rightarrow> UTXO list \<Rightarrow> bool \<times> u64 \<Rightarrow> bool \<times> u64" where
  "biggestLoop utxoSpent [] acc = acc"
| "biggestLoop utxoSpent (utxo # utxos) (spentIsMax, valueMax) =
     (if ut_Spent utxo then biggestLoop utxoSpent utxos (spentIsMax, valueMax)
      else if ut_Value utxo < ut_Value utxoSpent
      then biggestLoop utxoSpent utxos
             (True, if ut_Value utxo > valueMax then ut_Value utxo else valueMax)
      else (False, 0))"

definition FindBiggestRemainingUTXO :: "UTXO \<Rightarrow> UTXO list \<Rightarrow> u64 option" where
  "FindBiggestRemainingUTXO utxoSpent utxos =
     (let (spentIsMax, valueMax) = biggestLoop utxoSpent utxos (False, 0)
      in if spentIsMax then Some valueMax else None)"

section \<open>Tweaks\<close>

definition TweakDataLength :: nat where [simp]: "TweakDataLength = 33"

record Tweak =
  tw_BlockHash :: bytes
  tw_BlockHeight :: u32
  tw_Txid :: bytes
  tw_TweakData :: bytes
  tw_HighestValue :: u64

definition PairFactoryTweak :: Tweak where
  "PairFactoryTweak = \<lparr>tw_BlockHash = replicate 32 0, tw_BlockHeight = 0, tw_Txid = replicate 32 0,
     tw_TweakData = replicate 33 0, tw_HighestValue = 0\<rparr>"

definition GetDBKeyTweak :: "bytes \<Rightarrow> bytes \<Rightarrow> bytes res" where
  "GetDBKeyTweak blockHash txid = Inr (fit 32 blockHash @ fit 32 txid)"

definition Tweak_SerialiseKey :: "Tweak \<Rightarrow> bytes res" where
  "Tweak_SerialiseKey v = GetDBKeyTweak (tw_BlockHash v) (tw_Txid v)"

definition Tweak_SerialiseData :: "Tweak \<Rightarrow> bytes res" where
  "Tweak_SerialiseData v = Inr (tw_TweakData v @ put_be64 (tw_HighestValue v))"

definition Tweak_DeSerialiseKey :: "bytes \<Rightarrow> Tweak \<Rightarrow> Tweak res" where
  "Tweak_DeSerialiseKey key v =
     (if length key \<noteq> 64 then Inl (Err ''key is wrong length. should not happen'')
      else Inr (v\<lparr>tw_BlockHash := take 32 key, tw_Txid := drop 32 key\<rparr>))"

definition Tweak_DeSerialiseData :: "bytes \<Rightarrow> Tweak \<Rightarrow> Tweak res" where
  "Tweak_DeSerialiseData data v =
     (if length data \<noteq> TweakDataLength + 8
      then Inl (Err ''data is wrong length. should not happen'')
      else bindR (get_be64 (drop TweakDataLength data)) (\<lambda>highestValue.
           Inr (v\<lparr>tw_TweakData := take TweakDataLength data, tw_HighestValue := highestValue\<rparr>)))"

definition wf_Tweak :: "Tweak \<Rightarrow> bool" where
  "wf_Tweak v \<longleftrightarrow> length (tw_BlockHash v) = 32 \<and> length (tw_Txid v) = 32 \<and>
     length (tw_TweakData v) = 33"

interpretation tweak: pair_codec Tweak_SerialiseKey Tweak_SerialiseData Tweak_DeSerialiseKey
    Tweak_DeSerialiseData PairFactoryTweak wf_Tweak "\<lambda>v. v\<lparr>tw_BlockHeight := 0\<rparr>"
  by unfold_locales
    (auto simp: Tweak_SerialiseKey_def GetDBKeyTweak_def Tweak_SerialiseData_def wf_Tweak_def
      Tweak_DeSerialiseKey_def Tweak_DeSerialiseData_def PairFactoryTweak_def)

section \<open>Tweak index of a block\<close>

record TweakIndex =
  ti_BlockHash :: bytes
  ti_BlockHeight :: u32
  ti_Data :: "bytes list"

definition PairFactoryTweakIndex :: TweakIndex where
  "PairFactoryTweakIndex = \<lparr>ti_BlockHash = replicate 32 0, ti_BlockHeight = 0, ti_Data = []\<rparr>"

definition GetDBKeyTweakIndex :: "bytes \<Rightarrow> bytes res" where
  "GetDBKeyTweakIndex blockHash = Inr blockHash"

definition TweakIndex_SerialiseKey :: "TweakIndex \<Rightarrow> bytes res" where
  "TweakIndex_SerialiseKey v = GetDBKeyTweakIndex (ti_BlockHash v)"

definition TweakIndex_SerialiseData :: "TweakIndex \<Rightarrow> bytes res" where
  "TweakIndex_SerialiseData v = Inr (concat (ti_Data v))"

definition TweakIndex_DeSerialiseKey :: "bytes \<Rightarrow> TweakIndex \<Rightarrow> TweakIndex res" where
  "TweakIndex_DeSerialiseKey key v =
     (if length key \<noteq> 32 then Inl (Err ''key is wrong length. should not happen'')
      else Inr (v\<lparr>ti_BlockHash := key\<rparr>))"

definition TweakIndex_DeSerialiseData :: "bytes \<Rightarrow> TweakIndex \<Rightarrow> TweakIndex res" where
  "TweakIndex_DeSerialiseData data v =
     (if length data mod TweakDataLength \<noteq> 0
      then Inl (Err ''data is wrong length. should not happen'')
      else Inr (v\<lparr>ti_Data := chunks TweakDataLength data\<rparr>))"

definition wf_TweakIndex :: "TweakIndex \<Rightarrow> bool" where
  "wf_TweakIndex v \<longleftrightarrow> length (ti_BlockHash v) = 32 \<and> list_all (\<lambda>d. length d = 33) (ti_Data v)"

lemma length_concat_const:
  "\<forall>x \<in> set xs. length x = w \<Longrightarrow> length (concat xs) = w * length xs"
  by (induction xs) auto

lemma concat_mod: "\<forall>x \<in> set xs. length x = w \<Longrightarrow> length (concat xs) mod w = 0"
  using length_concat_const [of xs w] by simp

interpretation tweak_index: pair_codec TweakIndex_SerialiseKey TweakIndex_SerialiseData
    TweakIndex_DeSerialiseKey TweakIndex_DeSerialiseData PairFactoryTweakIndex wf_TweakIndex
    "\<lambda>v. v\<lparr>ti_BlockHeight := 0\<rparr>"
  by unfold_locales
    (auto simp: TweakIndex_SerialiseKey_def GetDBKeyTweakIndex_def TweakIndex_SerialiseData_def
      wf_TweakIndex_def TweakIndex_DeSerialiseKey_def TweakIndex_DeSerialiseData_def
      PairFactoryTweakIndex_def list_all_iff concat_mod chunks_concat)

text \<open>
  The fields of the RPC block that the index builders read; the amounts and scripts of the inputs
  and outputs are not part of the record.
\<close>

record Transaction =
  tn_Txid :: string
  tn_Hash :: string
  tn_Version :: int

record Block =
  bl_Hash :: string
  bl_Height :: u32
  bl_PreviousBlockHash :: string
  bl_Timestamp :: u64
  bl_Txs :: "Transaction list"

definition TweakIndexFromTweakArray :: "(string \<rightharpoonup> Tweak) \<Rightarrow> Block \<Rightarrow> TweakIndex" where
  "TweakIndexFromTweakArray tweaksMap block =
     PairFactoryTweakIndex\<lparr>ti_Data :=
       concat (map (\<lambda>tx. case tweaksMap (tn_Txid tx) of
                          Some tweak \<Rightarrow> [tw_TweakData tweak] | None \<Rightarrow> []) (bl_Txs block))\<rparr>"

definition TweakIndex_ToTweakArray :: "TweakIndex \<Rightarrow> Tweak list" where
  "TweakIndex_ToTweakArray v = map (\<lambda>data. \<lparr>tw_BlockHash = ti_BlockHash v,
     tw_BlockHeight = ti_BlockHeight v, tw_Txid = replicate 32 0, tw_TweakData = data,
     tw_HighestValue = 0\<rparr>) (ti_Data v)"

section \<open>Tweak index with amounts\<close>

text \<open>The interface \<open>TweakDusted\<close> has one implementation, \<open>TweakData\<close>.\<close>

record TweakData =
  td_Data :: bytes
  td_Value :: u64

definition HighestValue :: "TweakData \<Rightarrow> u64" where "HighestValue t = td_Value t"
definition Tweak_of :: "TweakData \<Rightarrow> bytes" where "Tweak_of t = td_Data t"

record TweakIndexDust =
  tid_BlockHash :: bytes
  tid_BlockHeight :: u32
  tid_Data :: "TweakData list"

definition lengthDataTweakIndexDust :: nat where
  [simp]: "lengthDataTweakIndexDust = TweakDataLength + 8"

definition PairFactoryTweakIndexDust :: TweakIndexDust where
  "PairFactoryTweakIndexDust =
     \<lparr>tid_BlockHash = replicate 32 0, tid_BlockHeight = 0, tid_Data = []\<rparr>"

definition GetDBKeyTweakIndexDust :: "bytes \<Rightarrow> bytes res" where
  "GetDBKeyTweakIndexDust blockHash = Inr blockHash"

definition TweakIndexDust_SerialiseKey :: "TweakIndexDust \<Rightarrow> bytes res" where
  "TweakIndexDust_SerialiseKey v = GetDBKeyTweakIndexDust (tid_BlockHash v)"

definition TweakIndexDust_SerialiseData :: "TweakIndexDust \<Rightarrow> bytes res" where
  "TweakIndexDust_SerialiseData v =
     Inr (concat (map (\<lambda>t. Tweak_of t @ put_be64 (HighestValue t)) (tid_Data v)))"

definition TweakIndexDust_DeSerialiseKey :: "bytes \<Rightarrow> TweakIndexDust \<Rightarrow> TweakIndexDust res" where
  "TweakIndexDust_DeSerialiseKey key v =
     (if length key \<noteq> 32 then Inl (Err ''key is wrong length. should not happen'')
      else Inr (v\<lparr>tid_BlockHash := key\<rparr>))"

definition dust_item :: "bytes \<Rightarrow> TweakData res" where
  "dust_item x = bindR (get_be64 (take 8 (drop TweakDataLength x))) (\<lambda>value.
     Inr \<lparr>td_Data = take TweakDataLength x, td_Value = value\<rparr>)"

definition TweakIndexDust_DeSerialiseData :: "bytes \<Rightarrow> TweakIndexDust \<Rightarrow> TweakIndexDust res" where
  "TweakIndexDust_DeSerialiseData data v =
     (if length data mod lengthDataTweakIndexDust \<noteq> 0
      then Inl (Err ''data is wrong length. should not happen'')
      else bindR (mapR dust_item (chunks lengthDataTweakIndexDust data)) (\<lambda>ds.
           Inr (v\<lparr>tid_Data := ds\<rparr>)))"

definition TweakIndexDustFromTweakArray :: "(string \<rightharpoonup> Tweak) \<Rightarrow> Block \<Rightarrow> TweakIndexDust" where
  "TweakIndexDustFromTweakArray tweaksMap block =
     PairFactoryTweakIndexDust\<lparr>tid_Data :=
       concat (map (\<lambda>tx. case tweaksMap (tn_Txid tx) of
          Some tweak \<Rightarrow> [\<lparr>td_Data = tw_TweakData tweak, td_Value = tw_HighestValue tweak\<rparr>]
        | None \<Rightarrow> []) (bl_Txs block))\<rparr>"

definition TweakIndexDust_ToTweakArray :: "TweakIndexDust \<Rightarrow> Tweak list" where
  "TweakIndexDust_ToTweakArray v = map (\<lambda>data. \<lparr>tw_BlockHash = tid_BlockHash v,
     tw_BlockHeight = tid_BlockHeight v, tw_Txid = replicate 32 0, tw_TweakData = Tweak_of data,
     tw_HighestValue = HighestValue data\<rparr>) (tid_Data v)"

definition wf_TweakIndexDust :: "TweakIndexDust \<Rightarrow> bool" where
  "wf_TweakIndexDust v \<longleftrightarrow> length (tid_BlockHash v) = 32 \<and>
     list_all (\<lambda>d. length (td_Data d) = 33) (tid_Data v)"

lemma dust_items:
  assumes "list_all (\<lambda>d. length (td_Data d) = 33) ds"
  shows "mapR dust_item (chunks 41 (concat (map (\<lambda>t. Tweak_of t @ put_be64 (HighestValue t)) ds))) =
    Inr ds"
proof -
  have "chunks 41 (concat (map (\<lambda>t. Tweak_of t @ put_be64 (HighestValue t)) ds)) =
      map (\<lambda>t. Tweak_of t @ put_be64 (HighestValue t)) ds"
    using assms by (intro chunks_concat) (auto simp: Tweak_of_def list_all_iff)
  moreover have "mapR dust_item (map (\<lambda>t. Tweak_of t @ put_be64 (HighestValue t)) ds) = Inr ds"
    using assms by (induction ds) (auto simp: dust_item_def Tweak_of_def HighestValue_def)
  ultimately show ?thesis by simp
qed

interpretation tweak_index_dust: pair_codec TweakIndexDust_SerialiseKey TweakIndexDust_SerialiseData
    TweakIndexDust_DeSerialiseKey TweakIndexDust_DeSerialiseData PairFactoryTweakIndexDust
    wf_TweakIndexDust "\<lambda>v. v\<lparr>tid_BlockHeight := 0\<rparr>"
proof unfold_locales
  fix v k d
  assume w: "wf_TweakIndexDust v"
  show "\<exists>k. TweakIndexDust_SerialiseKey v = Inr k" "\<exists>d. TweakIndexDust_SerialiseData v = Inr d"
    by (simp_all add: TweakIndexDust_SerialiseKey_def GetDBKeyTweakIndexDust_def
        TweakIndexDust_SerialiseData_def)
  assume kd: "TweakIndexDust_SerialiseKey v = Inr k" "TweakIndexDust_SerialiseData v = Inr d"
  have "41 dvd length d"
    using kd(2) w length_concat_const [of "map (\<lambda>t. Tweak_of t @ put_be64 (HighestValue t)) (tid_Data v)" 41]
    by (auto simp: TweakIndexDust_SerialiseData_def wf_TweakIndexDust_def Tweak_of_def list_all_iff)
  then show "bindR (TweakIndexDust_DeSerialiseKey k PairFactoryTweakIndexDust)
      (TweakIndexDust_DeSerialiseData d) = Inr (v\<lparr>tid_BlockHeight := 0\<rparr>)"
    using kd w dust_items [of "tid_Data v"]
    by (auto simp: TweakIndexDust_SerialiseKey_def GetDBKeyTweakIndexDust_def
        TweakIndexDust_SerialiseData_def TweakIndexDust_DeSerialiseKey_def
        TweakIndexDust_DeSerialiseData_def PairFactoryTweakIndexDust_def wf_TweakIndexDust_def)
qed

section \<open>Spent outpoints\<close>

definition LenOutpointHashShort :: nat where [simp]: "LenOutpointHashShort = 8"

record SpentOutpointsIndex =
  so_BlockHash :: bytes
  so_BlockHeight :: u32
  so_Data :: "bytes list"

definition PairFactorySpentOutpointsIndex :: SpentOutpointsIndex where
  "PairFactorySpentOutpointsIndex =
     \<lparr>so_BlockHash = replicate 32 0, so_BlockHeight = 0, so_Data = []\<rparr>"

definition GetDBKeySpentOutpointsIndex :: "bytes \<Rightarrow> bytes res" where
  "GetDBKeySpentOutpointsIndex blockHash = Inr blockHash"

definition SpentOutpointsIndex_SerialiseKey :: "SpentOutpointsIndex \<Rightarrow> bytes res" where
  "SpentOutpointsIndex_SerialiseKey v = GetDBKeySpentOutpointsIndex (so_BlockHash v)"

definition SpentOutpointsIndex_SerialiseData :: "SpentOutpointsIndex \<Rightarrow> bytes res" where
  "SpentOutpointsIndex_SerialiseData v = Inr (concat (so_Data v))"

definition SpentOutpointsIndex_DeSerialiseKey ::
    "bytes \<Rightarrow> SpentOutpointsIndex \<Rightarrow> SpentOutpointsIndex res" where
  "SpentOutpointsIndex_DeSerialiseKey key v =
     (if length key \<noteq> 32 then Inl (Err ''key is wrong length. should not happen'')
      else Inr (v\<lparr>so_BlockHash := key\<rparr>))"

definition SpentOutpointsIndex_DeSerialiseData ::
    "bytes \<Rightarrow> SpentOutpointsIndex \<Rightarrow> SpentOutpointsIndex res" where
  "SpentOutpointsIndex_DeSerialiseData data v =
     (if length data mod LenOutpointHashShort \<noteq> 0
      then Inl (Err ''data is wrong length. should not happen'')
      else Inr (v\<lparr>so_Data := chunks LenOutpointHashShort data\<rparr>))"

definition wf_SpentOutpointsIndex :: "SpentOutpointsIndex \<Rightarrow> bool" where
  "wf_SpentOutpointsIndex v \<longleftrightarrow> length (so_BlockHash v) = 32 \<and>
     list_all (\<lambda>d. length d = 8) (so_Data v)"

interpretation spent_outpoints: pair_codec SpentOutpointsIndex_SerialiseKey
    SpentOutpointsIndex_SerialiseData SpentOutpointsIndex_DeSerialiseKey
    SpentOutpointsIndex_DeSerialiseData PairFactorySpentOutpointsIndex wf_SpentOutpointsIndex
    "\<lambda>v. v\<lparr>so_BlockHeight := 0\<rparr>"
  by unfold_locales
    (auto simp: SpentOutpointsIndex_SerialiseKey_def GetDBKeySpentOutpointsIndex_def
      SpentOutpointsIndex_SerialiseData_def wf_SpentOutpointsIndex_def
      SpentOutpointsIndex_DeSerialiseKey_def SpentOutpointsIndex_DeSerialiseData_def
      PairFactorySpentOutpointsIndex_def list_all_iff concat_mod chunks_concat)

section \<open>Filters\<close>

record Filter =
  fl_FilterType :: byte
  fl_BlockHeight :: u32
  fl_Data :: bytes
  fl_BlockHash :: bytes

definition PairFactoryFilter :: Filter where
  "PairFactoryFilter =
     \<lparr>fl_FilterType = 0, fl_BlockHeight = 0, fl_Data = [], fl_BlockHash = replicate 32 0\<rparr>"

definition GetDBKeyFilter :: "bytes \<Rightarrow> bytes res" where
  "GetDBKeyFilter blockHash = Inr blockHash"

definition Filter_SerialiseKey :: "Filter \<Rightarrow> bytes res" where
  "Filter_SerialiseKey v = GetDBKeyFilter (fl_BlockHash v)"

definition Filter_SerialiseData :: "Filter \<Rightarrow> bytes res" where
  "Filter_SerialiseData v = Inr ([fl_FilterType v] @ fl_Data v)"

definition Filter_DeSerialiseKey :: "bytes \<Rightarrow> Filter \<Rightarrow> Filter res" where
  "Filter_DeSerialiseKey key v =
     (if length key \<noteq> 32 then Inl (Err ''key is wrong length. should not happen'')
      else Inr (v\<lparr>fl_BlockHash := key\<rparr>))"

definition Filter_DeSerialiseData :: "bytes \<Rightarrow> Filter \<Rightarrow> Filter res" where
  "Filter_DeSerialiseData data v =
     (case data of
        [] \<Rightarrow> Inl (Panic ''index out of range'')
      | b # bs \<Rightarrow> Inr (v\<lparr>fl_FilterType := b, fl_Data := bs\<rparr>))"

interpretation filter_pair: pair_codec Filter_SerialiseKey Filter_SerialiseData
    Filter_DeSerialiseKey Filter_DeSerialiseData PairFactoryFilter
    "\<lambda>v. length (fl_BlockHash v) = 32" "\<lambda>v. v\<lparr>fl_BlockHeight := 0\<rparr>"
  by unfold_locales
    (auto simp: Filter_SerialiseKey_def GetDBKeyFilter_def Filter_SerialiseData_def
      Filter_DeSerialiseKey_def Filter_DeSerialiseData_def PairFactoryFilter_def)

section \<open>Block headers\<close>

record BlockHeaderInv =
  bi_Hash :: bytes
  bi_Height :: u32
  bi_Flag :: bool

definition PairFactoryBlockHeaderInv :: BlockHeaderInv where
  "PairFactoryBlockHeaderInv = \<lparr>bi_Hash = replicate 32 0, bi_Height = 0, bi_Flag = False\<rparr>"

definition GetKeyBlockHeaderInv :: "u32 \<Rightarrow> bytes res" where
  "GetKeyBlockHeaderInv height = Inr (put_be32 height)"

definition BlockHeaderInv_SerialiseKey :: "BlockHeaderInv \<Rightarrow> bytes res" where
  "BlockHeaderInv_SerialiseKey v = GetKeyBlockHeaderInv (bi_Height v)"

definition BlockHeaderInv_SerialiseData :: "BlockHeaderInv \<Rightarrow> bytes res" where
  "BlockHeaderInv_SerialiseData v = Inr (put_bool (bi_Flag v) @ bi_Hash v)"

definition BlockHeaderInv_DeSerialiseKey :: "bytes \<Rightarrow> BlockHeaderInv \<Rightarrow> BlockHeaderInv res" where
  "BlockHeaderInv_DeSerialiseKey key v =
     (if length key \<noteq> 4 then Inl (Err ''key is wrong length. should not happen'')
      else bindR (get_be32 (take 4 key)) (\<lambda>height. Inr (v\<lparr>bi_Height := height\<rparr>)))"

definition BlockHeaderInv_DeSerialiseData :: "bytes \<Rightarrow> BlockHeaderInv \<Rightarrow> BlockHeaderInv res" where
  "BlockHeaderInv_DeSerialiseData data v =
     (if length data \<noteq> 1 + 32 then Inl (Err ''data is wrong length. should not happen'')
      else bindR (get_bool (take 1 data)) (\<lambda>flag.
           Inr (v\<lparr>bi_Flag := flag, bi_Hash := drop 1 data\<rparr>)))"

interpretation header_inv: pair_codec BlockHeaderInv_SerialiseKey BlockHeaderInv_SerialiseData
    BlockHeaderInv_DeSerialiseKey BlockHeaderInv_DeSerialiseData PairFactoryBlockHeaderInv
    "\<lambda>v. length (bi_Hash v) = 32" "\<lambda>v. v"
  by unfold_locales
    (auto simp: BlockHeaderInv_SerialiseKey_def GetKeyBlockHeaderInv_def
      BlockHeaderInv_SerialiseData_def BlockHeaderInv_DeSerialiseKey_def
      BlockHeaderInv_DeSerialiseData_def PairFactoryBlockHeaderInv_def)

record BlockHeader =
  bh_Hash :: string
  bh_PrevBlockHash :: string
  bh_Timestamp :: u64
  bh_Height :: u32

definition PairFactoryBlockHeader :: BlockHeader where
  "PairFactoryBlockHeader =
     \<lparr>bh_Hash = [], bh_PrevBlockHash = [], bh_Timestamp = 0, bh_Height = 0\<rparr>"

definition GenesisBlock :: BlockHeader where
  "GenesisBlock =
     \<lparr>bh_Hash = ''000000000019d6689c085ae165831e934ff763ae46a2a6c172b3f1b60a8ce26f'',
      bh_PrevBlockHash = ''0000000000000000000000000000000000000000000000000000000000000000'',
      bh_Timestamp = 1231006505, bh_Height = 0\<rparr>"

definition GetDBKeyBlockHeader :: "string \<Rightarrow> bytes res" where
  "GetDBKeyBlockHeader blockHash = DecodeString blockHash"

definition BlockHeader_SerialiseKey :: "BlockHeader \<Rightarrow> bytes res" where
  "BlockHeader_SerialiseKey v = GetDBKeyBlockHeader (bh_Hash v)"

definition BlockHeader_SerialiseData :: "BlockHeader \<Rightarrow> bytes res" where
  "BlockHeader_SerialiseData v =
     bindR (DecodeString (bh_PrevBlockHash v)) (\<lambda>blockHashBytes.
     Inr (put_be64 (bh_Timestamp v) @ put_be32 (bh_Height v) @ blockHashBytes))"

definition BlockHeader_DeSerialiseKey :: "bytes \<Rightarrow> BlockHeader \<Rightarrow> BlockHeader res" where
  "BlockHeader_DeSerialiseKey key v =
     (if length key \<noteq> 32 then Inl (Err ''key is wrong length. should not happen'')
      else Inr (v\<lparr>bh_Hash := EncodeToString key\<rparr>))"

definition BlockHeader_DeSerialiseData :: "bytes \<Rightarrow> BlockHeader \<Rightarrow> BlockHeader res" where
  "BlockHeader_DeSerialiseData data v =
     (if length data < 12 then Inl (Panic ''slice bounds out of range'')
      else bindR (get_be64 (take 8 data)) (\<lambda>timestamp.
           bindR (get_be32 (take 4 (drop 8 data))) (\<lambda>height.
           Inr (v\<lparr>bh_Timestamp := timestamp, bh_Height := height,
                  bh_Hash := EncodeToString (drop 12 data)\<rparr>))))"

definition wf_BlockHeader :: "BlockHeader \<Rightarrow> bool" where
  "wf_BlockHeader v \<longleftrightarrow> lower_hex (bh_Hash v) \<and> length (bh_Hash v) = 64 \<and>
     lower_hex (bh_PrevBlockHash v) \<and> length (bh_PrevBlockHash v) = 64"

section \<open>Properties of the records\<close>

lemma biggestLoop_eq:
  "biggestLoop sp utxos (f, m) =
     (if \<exists>u \<in> set utxos. \<not> ut_Spent u \<and> ut_Value sp \<le> ut_Value u then (False, 0)
      else (f \<or> (\<exists>u \<in> set utxos. \<not> ut_Spent u),
            foldl max m (map ut_Value (filter (\<lambda>u. \<not> ut_Spent u) utxos))))"
  by (induction utxos arbitrary: f m) (auto simp: not_less max_def)

lemma foldl_max_Max: "foldl max m xs = Max (insert m (set xs))" for m :: "'a :: linorder"
proof (induction xs arbitrary: m)
  case (Cons a xs)
  then show ?case by (cases "xs = []") (auto simp: Max_insert max.assoc max.left_commute)
qed simp

text \<open>The block header is not a faithful pair: after a write and a read the hash of the block
  is the hash of its predecessor, and the predecessor is empty.\<close>

lemma BlockHeader_reads_back:
  assumes "wf_BlockHeader v"
  shows "\<exists>k d. BlockHeader_SerialiseKey v = Inr k \<and> BlockHeader_SerialiseData v = Inr d \<and>
    bindR (BlockHeader_DeSerialiseKey k PairFactoryBlockHeader) (BlockHeader_DeSerialiseData d) =
      Inr (v\<lparr>bh_Hash := bh_PrevBlockHash v, bh_PrevBlockHash := []\<rparr>)"
proof -
  obtain a b where ab: "bh_Hash v = EncodeToString a" "length a = 32"
    "bh_PrevBlockHash v = EncodeToString b" "length b = 32"
    using assms by (auto simp: wf_BlockHeader_def lower_hex_def)
  show ?thesis
    by (rule exI [of _ a], rule exI [of _ "put_be64 (bh_Timestamp v) @ put_be32 (bh_Height v) @ b"])
      (simp add: ab BlockHeader_SerialiseKey_def GetDBKeyBlockHeader_def BlockHeader_SerialiseData_def
        BlockHeader_DeSerialiseKey_def BlockHeader_DeSerialiseData_def PairFactoryBlockHeader_def)
qed

text \<open>C31. Seven of the eight \<open>Pair\<close> records of the package, when they satisfy their length conditions, survive
  a write and a read, with the fields that are not stored (the block height of all but the inverse
  header) at their zero value: unspent outputs, tweaks, the two tweak indexes, spent outpoints,
  filters and inverse headers.  The eighth, the block header, does not: after a write and a read its
  hash is the hash of its predecessor, and the predecessor is empty.\<close>

theorem pairs_roundtrip:
  "wf_UTXO u \<Longrightarrow> wf_Tweak t \<Longrightarrow> wf_TweakIndex ti \<Longrightarrow> wf_TweakIndexDust tid \<Longrightarrow>
   wf_SpentOutpointsIndex so \<Longrightarrow> length (fl_BlockHash fl) = 32 \<Longrightarrow> length (bi_Hash bi) = 32 \<Longrightarrow>
   wf_BlockHeader bh \<Longrightarrow>
   bindR (utxo.write_pair u) utxo.read_pair = Inr (u\<lparr>ut_BlockHeight := 0\<rparr>) \<and>
   bindR (tweak.write_pair t) tweak.read_pair = Inr (t\<lparr>tw_BlockHeight := 0\<rparr>) \<and>
   bindR (tweak_index.write_pair ti) tweak_index.read_pair = Inr (ti\<lparr>ti_BlockHeight := 0\<rparr>) \<and>
   bindR (tweak_index_dust.write_pair tid) tweak_index_dust.read_pair =
     Inr (tid\<lparr>tid_BlockHeight := 0\<rparr>) \<and>
   bindR (spent_outpoints.write_pair so) spent_outpoints.read_pair =
     Inr (so\<lparr>so_BlockHeight := 0\<rparr>) \<and>
   bindR (filter_pair.write_pair fl) filter_pair.read_pair = Inr (fl\<lparr>fl_BlockHeight := 0\<rparr>) \<and>
   bindR (header_inv.write_pair bi) header_inv.read_pair = Inr bi \<and>
   (\<exists>k d. BlockHeader_SerialiseKey bh = Inr k \<and> BlockHeader_SerialiseData bh = Inr d \<and>
      bindR (BlockHeader_DeSerialiseKey k PairFactoryBlockHeader) (BlockHeader_DeSerialiseData d) =
        Inr (bh\<lparr>bh_Hash := bh_PrevBlockHash bh, bh_PrevBlockHash := []\<rparr>))"
  using utxo.read_write tweak.read_write tweak_index.read_write tweak_index_dust.read_write
    spent_outpoints.read_write filter_pair.read_write header_inv.read_write BlockHeader_reads_back by simp

definition w_utxo :: UTXO where
  "w_utxo = \<lparr>ut_Txid = replicate 32 1, ut_Vout = 3, ut_Value = 1500,
     ut_ScriptPubKey = EncodeToString (replicate 34 0x51), ut_BlockHeight = 9,
     ut_BlockHash = replicate 32 2, ut_Timestamp = 77, ut_Spent = True\<rparr>"

definition w_header :: BlockHeader where
  "w_header = \<lparr>bh_Hash = EncodeToString (replicate 32 1),
     bh_PrevBlockHash = EncodeToString (replicate 32 2), bh_Timestamp = 7, bh_Height = 9\<rparr>"

definition w_dust :: TweakIndexDust where
  "w_dust = \<lparr>tid_BlockHash = replicate 32 4, tid_BlockHeight = 5,
     tid_Data = [\<lparr>td_Data = replicate 33 6, td_Value = 546\<rparr>]\<rparr>"

theorem pairs_roundtrip_witness:
  "bindR (utxo.write_pair w_utxo) utxo.read_pair = Inr (w_utxo\<lparr>ut_BlockHeight := 0\<rparr>) \<and>
   bindR (tweak.write_pair PairFactoryTweak) tweak.read_pair = Inr PairFactoryTweak \<and>
   bindR (tweak_index.write_pair PairFactoryTweakIndex) tweak_index.read_pair = Inr PairFactoryTweakIndex \<and>
   bindR (tweak_index_dust.write_pair w_dust) tweak_index_dust.read_pair = Inr (w_dust\<lparr>tid_BlockHeight := 0\<rparr>) \<and>
   bindR (spent_outpoints.write_pair PairFactorySpentOutpointsIndex) spent_outpoints.read_pair =
     Inr PairFactorySpentOutpointsIndex \<and>
   bindR (filter_pair.write_pair PairFactoryFilter) filter_pair.read_pair = Inr PairFactoryFilter \<and>
   bindR (header_inv.write_pair \<lparr>bi_Hash = replicate 32 3, bi_Height = 8, bi_Flag = True\<rparr>) header_inv.read_pair =
     Inr \<lparr>bi_Hash = replicate 32 3, bi_Height = 8, bi_Flag = True\<rparr> \<and>
   (\<exists>k d. BlockHeader_SerialiseKey w_header = Inr k \<and> BlockHeader_SerialiseData w_header = Inr d \<and>
      bindR (BlockHeader_DeSerialiseKey k PairFactoryBlockHeader) (BlockHeader_DeSerialiseData d) =
        Inr (w_header\<lparr>bh_Hash := EncodeToString (replicate 32 2), bh_PrevBlockHash := []\<rparr>))"
proof -
  have u: "wf_UTXO w_utxo" by (auto simp: wf_UTXO_def w_utxo_def lower_hex_def)
  have z: "wf_Tweak PairFactoryTweak" "wf_TweakIndex PairFactoryTweakIndex" "wf_TweakIndexDust w_dust"
    "wf_SpentOutpointsIndex PairFactorySpentOutpointsIndex" "length (fl_BlockHash PairFactoryFilter) = 32"
    "length (bi_Hash \<lparr>bi_Hash = replicate 32 3, bi_Height = 8, bi_Flag = True\<rparr>) = 32"
    by (simp_all add: wf_Tweak_def PairFactoryTweak_def wf_TweakIndex_def PairFactoryTweakIndex_def
        wf_TweakIndexDust_def w_dust_def wf_SpentOutpointsIndex_def PairFactorySpentOutpointsIndex_def
        PairFactoryFilter_def)
  have h: "wf_BlockHeader w_header" by (auto simp: wf_BlockHeader_def w_header_def lower_hex_def)
  have "PairFactoryTweak\<lparr>tw_BlockHeight := 0\<rparr> = PairFactoryTweak"
    "PairFactoryTweakIndex\<lparr>ti_BlockHeight := 0\<rparr> = PairFactoryTweakIndex"
    "PairFactorySpentOutpointsIndex\<lparr>so_BlockHeight := 0\<rparr> = PairFactorySpentOutpointsIndex"
    "PairFactoryFilter\<lparr>fl_BlockHeight := 0\<rparr> = PairFactoryFilter"
    "bh_PrevBlockHash w_header = EncodeToString (replicate 32 2)"
    by (simp_all add: PairFactoryTweak_def PairFactoryTweakIndex_def PairFactorySpentOutpointsIndex_def
        PairFactoryFilter_def w_header_def)
  then show ?thesis using pairs_roundtrip [OF u z h] by (simp only: simp_thms)
qed

text \<open>\<open>FindBiggestRemainingUTXO\<close> returns a value exactly when some of the outputs are unspent
  and all of these are worth less than the spent one, and then the largest of them.\<close>

theorem FindBiggestRemainingUTXO_spec:
  "FindBiggestRemainingUTXO sp utxos = Some m \<longleftrightarrow>
     (\<exists>u \<in> set utxos. \<not> ut_Spent u) \<and>
     (\<forall>u \<in> set utxos. ut_Spent u \<or> ut_Value u < ut_Value sp) \<and>
     m = Max (ut_Value ` {u \<in> set utxos. \<not> ut_Spent u})"
proof -
  let ?S = "ut_Value ` {u \<in> set utxos. \<not> ut_Spent u}"
  have S: "?S = set (map ut_Value (filter (\<lambda>u. \<not> ut_Spent u) utxos))" by auto
  have mx: "Max (insert 0 ?S) = Max ?S" if "\<exists>u \<in> set utxos. \<not> ut_Spent u"
  proof -
    have "?S \<noteq> {}" using that by auto
    then show ?thesis by (simp add: Max_insert max_absorb2)
  qed
  show ?thesis
    unfolding FindBiggestRemainingUTXO_def biggestLoop_eq foldl_max_Max S [symmetric]
    using mx by (auto simp: not_less not_le)
qed

theorem FindBiggestRemainingUTXO_spec_witness:
  "FindBiggestRemainingUTXO (w_utxo\<lparr>ut_Value := 5000\<rparr>)
     [w_utxo\<lparr>ut_Value := 1000, ut_Spent := False\<rparr>, w_utxo\<lparr>ut_Value := 3000, ut_Spent := False\<rparr>,
      w_utxo\<lparr>ut_Value := 7000, ut_Spent := True\<rparr>] = Some 3000"
proof -
  let ?us = "[w_utxo\<lparr>ut_Value := 1000, ut_Spent := False\<rparr>, w_utxo\<lparr>ut_Value := 3000, ut_Spent := False\<rparr>,
      w_utxo\<lparr>ut_Value := 7000, ut_Spent := True\<rparr>]"
  have "{u \<in> set ?us. \<not> ut_Spent u} = {w_utxo\<lparr>ut_Value := 1000, ut_Spent := False\<rparr>,
      w_utxo\<lparr>ut_Value := 3000, ut_Spent := False\<rparr>}" by auto
  then show ?thesis
    using FindBiggestRemainingUTXO_spec [of "w_utxo\<lparr>ut_Value := 5000\<rparr>" ?us 3000] by simp
qed

end
