(* ===== verification/Gap_Check.thy ===== *)
theory Gap_Check
  imports Reads
begin

text \<open>
  The gap check of the indexer (\<open>indexer/cleanup.go\<close>): the ranges of heights without a block
  between two heights.  The loop runs over \<open>uint32\<close> heights up to and including the end height; it
  does not end if that is the largest \<open>uint32\<close>, which is the value \<open>None\<close> here.
\<close>

record HeightRange =
  hr_Start :: u32
  hr_End :: u32

definition closeRange :: "HeightRange \<Rightarrow> HeightRange" where
  "closeRange r = (if hr_End r = 0 then r\<lparr>hr_End := hr_Start r\<rparr> else r)"

partial_function (option) gapLoop ::
    "(u32 \<Rightarrow> bytes option res) \<Rightarrow> u32 \<Rightarrow> u32 \<Rightarrow> HeightRange option \<Rightarrow> HeightRange list
     \<Rightarrow> HeightRange list res option" where
  "gapLoop get height endHeight currentRange allRanges =
     (if height \<le> endHeight
      then (case get height of
          Inl e \<Rightarrow> Some (Inl e)
        | Inr blockhash \<Rightarrow>
            if blockhash \<noteq> None
            then (case currentRange of
                None \<Rightarrow> gapLoop get (height + 1) endHeight None allRanges
              | Some r \<Rightarrow> gapLoop get (height + 1) endHeight None (allRanges @ [closeRange r]))
            else (case currentRange of
                None \<Rightarrow> gapLoop get (height + 1) endHeight
                          (Some \<lparr>hr_Start = height, hr_End = 0\<rparr>) allRanges
              | Some r \<Rightarrow> gapLoop get (height + 1) endHeight (Some (r\<lparr>hr_End := height\<rparr>)) allRanges))
      else Some (Inr allRanges))"

definition identifyGapRanges ::
    "('db, 'b) pebble_api \<Rightarrow> ('db, 'b) Store \<Rightarrow> u32 \<Rightarrow> u32 \<Rightarrow> HeightRange list res option" where
  "identifyGapRanges P s startHeight endHeight =
     gapLoop (GetBlockHashByHeight P s) startHeight endHeight None []"

section \<open>The ranges are the gaps\<close>

definition covered :: "HeightRange list \<Rightarrow> u32 \<Rightarrow> bool" where
  "covered rs n \<longleftrightarrow> (\<exists>r \<in> set rs. hr_Start r \<le> n \<and> n \<le> hr_End r)"

lemma covered_append [simp]: "covered (rs @ rs') n \<longleftrightarrow> covered rs n \<or> covered rs' n"
  by (auto simp: covered_def)

lemma covered_Nil [simp]: "\<not> covered [] n"
  by (simp add: covered_def)

text \<open>The open range at a height: it reaches up to the height before, all of it missing.\<close>

definition open_range :: "u32 \<Rightarrow> HeightRange option \<Rightarrow> bool" where
  "open_range h cur \<longleftrightarrow> (case cur of None \<Rightarrow> True
     | Some r \<Rightarrow> hr_Start r < h \<and> (hr_End r = 0 \<and> unat h = unat (hr_Start r) + 1 \<or>
         hr_Start r < hr_End r \<and> unat h = unat (hr_End r) + 1))"

definition in_open :: "u32 \<Rightarrow> HeightRange option \<Rightarrow> u32 \<Rightarrow> bool" where
  "in_open h cur n \<longleftrightarrow> (case cur of None \<Rightarrow> False | Some r \<Rightarrow> hr_Start r \<le> n \<and> n < h)"

lemma open_close:
  "open_range h (Some r) \<Longrightarrow> covered [closeRange r] n \<longleftrightarrow> in_open h (Some r) n"
  by (auto simp: open_range_def in_open_def covered_def closeRange_def word_le_nat_alt
      word_less_nat_alt)

lemma unat_suc: "h \<le> e \<Longrightarrow> e \<noteq> 0xFFFFFFFF \<Longrightarrow> unat (h + 1 :: u32) = unat h + 1"
proof -
  assume a: "h \<le> e" "e \<noteq> 0xFFFFFFFF"
  have "unat e < 4294967296" using unsigned_less [where 'a = nat, of e] by simp
  moreover have "unat e \<noteq> 4294967295"
  proof
    assume "unat e = 4294967295"
    then have "of_nat (unat e) = (0xFFFFFFFF :: u32)" by simp
    then show False using a(2) by simp
  qed
  ultimately have "unat h + 1 < 4294967296" using a(1) by (simp add: word_le_nat_alt)
  then show ?thesis by (simp add: unat_word_ariths)
qed

lemma gapLoop_covers:
  assumes "\<forall>n. \<exists>b. get n = Inr b" and "e \<noteq> 0xFFFFFFFF" and "get e \<noteq> Inr None"
    and "h \<le> e" and "open_range h cur"
  shows "\<exists>rs. gapLoop get h e cur acc = Some (Inr rs) \<and>
    (\<forall>n. covered rs n \<longleftrightarrow> covered acc n \<or> in_open h cur n \<or> (h \<le> n \<and> n \<le> e \<and> get n = Inr None))"
  using assms(4,5)
proof (induction "unat e - unat h" arbitrary: h cur acc rule: less_induct)
  case less
  note le = less.prems(1)
  have suc: "unat (h + 1) = unat h + 1" by (rule unat_suc [OF le assms(2)])
  have next_le: "h + 1 \<le> n \<longleftrightarrow> h \<le> n \<and> n \<noteq> h" for n
    using suc by (auto simp: word_le_nat_alt word_unat_eq_iff)
  have lt_next: "n < h + 1 \<longleftrightarrow> n < h \<or> n = h" for n
    using suc by (auto simp: word_less_nat_alt word_unat_eq_iff)
  obtain b where b: "get h = Inr b" using assms(1) by blast
  have IH: "\<exists>rs. gapLoop get (h + 1) e cur' acc' = Some (Inr rs) \<and>
      (\<forall>n. covered rs n \<longleftrightarrow> covered acc' n \<or> in_open (h + 1) cur' n \<or>
         (h + 1 \<le> n \<and> n \<le> e \<and> get n = Inr None))"
    if "h \<noteq> e" "open_range (h + 1) cur'" for cur' acc'
    using less.hyps [of "h + 1" cur' acc'] that le next_le suc
    by (auto simp: word_le_nat_alt word_unat_eq_iff)
  have stop: "gapLoop get (h + 1) e cur' acc' = Some (Inr acc')" if "h = e" for cur' acc'
    using that next_le [of e] by (subst gapLoop.simps) simp
  show ?case
  proof (cases "b = None")
    case False
    let ?acc = "case cur of None \<Rightarrow> acc | Some r \<Rightarrow> acc @ [closeRange r]"
    have step: "gapLoop get h e cur acc = gapLoop get (h + 1) e None ?acc"
      using b False le by (subst gapLoop.simps) (simp split: option.split)
    have acc: "covered ?acc n \<longleftrightarrow> covered acc n \<or> in_open h cur n" for n
      using less.prems(2) open_close [of h _ n] by (cases cur) (auto simp: in_open_def)
    have here: "h \<le> n \<and> n \<le> e \<and> get n = Inr None \<longleftrightarrow> h + 1 \<le> n \<and> n \<le> e \<and> get n = Inr None" for n
      using b False next_le [of n] by (cases "n = h") simp_all
    show ?thesis
    proof (cases "h = e")
      case True
      have "\<not> (h + 1 \<le> n \<and> n \<le> e)" for n using True next_le [of n] by auto
      then show ?thesis unfolding step stop [OF True] here by (simp add: acc) blast
    next
      case ne: False
      have "open_range (h + 1) None" by (simp add: open_range_def)
      from IH [OF ne this, of ?acc] show ?thesis unfolding step here
        by (simp add: acc in_open_def)
    qed
  next
    case True
    then have ne: "h \<noteq> e" using b assms(3) by auto
    let ?cur = "case cur of None \<Rightarrow> \<lparr>hr_Start = h, hr_End = 0\<rparr> | Some r \<Rightarrow> r\<lparr>hr_End := h\<rparr>"
    have step: "gapLoop get h e cur acc = gapLoop get (h + 1) e (Some ?cur) acc"
      using b True le by (subst gapLoop.simps) (simp split: option.split)
    have op: "open_range (h + 1) (Some ?cur)"
      using less.prems(2) suc by (cases cur) (auto simp: open_range_def word_less_nat_alt)
    have "in_open (h + 1) (Some ?cur) n \<longleftrightarrow> in_open h cur n \<or> n = h" for n
      using less.prems(2) lt_next [of n]
      by (cases cur) (auto simp: in_open_def open_range_def less_imp_le)
    moreover have "h \<le> n \<and> n \<le> e \<and> get n = Inr None \<longleftrightarrow>
        n = h \<or> (h + 1 \<le> n \<and> n \<le> e \<and> get n = Inr None)" for n
      using b True le next_le [of n] by (cases "n = h") simp_all
    ultimately show ?thesis unfolding step using IH [OF ne op, of acc] by simp
  qed
qed

lemma gapLoop_all_missing:
  assumes "e \<noteq> 0xFFFFFFFF"
  shows "\<forall>n. h \<le> n \<and> n \<le> e \<longrightarrow> get n = Inr None \<Longrightarrow> gapLoop get h e cur acc = Some (Inr acc)"
proof (induction "unat e + 1 - unat h" arbitrary: h cur rule: less_induct)
  case less
  show ?case
  proof (cases "h \<le> e")
    case False
    then show ?thesis by (subst gapLoop.simps) simp
  next
    case True
    have suc: "unat (h + 1) = unat h + 1" by (rule unat_suc [OF True assms])
    have "gapLoop get (h + 1) e cur' acc = Some (Inr acc)" for cur'
      by (rule less.hyps) (use True suc less.prems in \<open>auto simp: word_le_nat_alt\<close>)
    then show ?thesis using True less.prems by (subst gapLoop.simps) (simp split: option.split)
  qed
qed

lemma identifyGapRanges_covers:
  assumes "pebble_reliable P entries writes" and "startHeight \<le> endHeight"
    and "endHeight \<noteq> 0xFFFFFFFF" and "map_of (entries (st_DB s)) (KeyCIHeight endHeight) \<noteq> None"
  shows "\<exists>rs. identifyGapRanges P s startHeight endHeight = Some (Inr rs) \<and>
    (\<forall>n. covered rs n \<longleftrightarrow> startHeight \<le> n \<and> n \<le> endHeight \<and>
       map_of (entries (st_DB s)) (KeyCIHeight n) = None)"
proof -
  have get: "GetBlockHashByHeight P s n = Inr (map_of (entries (st_DB s)) (KeyCIHeight n))" for n
    by (simp add: GetBlockHashByHeight_def pebble_reliable.get_eq [OF assms(1)] split: option.split)
  show ?thesis
    using gapLoop_covers [of "GetBlockHashByHeight P s" endHeight startHeight None "[]"] assms(2-4)
    by (simp add: identifyGapRanges_def get open_range_def in_open_def)
qed

section \<open>Properties of the gap check\<close>

text \<open>If the end height is indexed (as the chain tip is), the ranges of the gap check cover
  exactly the heights from the start to the end that have no block, and the check ends.\<close>

theorem identifyGapRanges_exact:
  assumes "pebble_reliable P entries writes" and "startHeight \<le> endHeight"
    and "endHeight \<noteq> 0xFFFFFFFF" and "map_of (entries (st_DB s)) (KeyCIHeight endHeight) \<noteq> None"
  shows "\<exists>rs. identifyGapRanges P s startHeight endHeight = Some (Inr rs) \<and>
    (\<forall>n. covered rs n \<longleftrightarrow> startHeight \<le> n \<and> n \<le> endHeight \<and>
       map_of (entries (st_DB s)) (KeyCIHeight n) = None)"
  by (rule identifyGapRanges_covers [OF assms])

theorem identifyGapRanges_exact_witness:
  "\<exists>rs. identifyGapRanges mem_pebble
       (NewStore mem_pebble [(KeyCIHeight 3, replicate 32 1), (KeyCIHeight 6, replicate 32 2)]) 2 6
     = Some (Inr rs) \<and> (\<forall>n. covered rs n \<longleftrightarrow> 2 \<le> n \<and> n \<le> 6 \<and> n \<noteq> 3 \<and> n \<noteq> 6)"
proof -
  let ?s = "NewStore mem_pebble [(KeyCIHeight 3, replicate 32 1), (KeyCIHeight 6, replicate 32 2)]"
  have m: "map_of (mem_entries (st_DB ?s)) (KeyCIHeight n) = None \<longleftrightarrow> n \<noteq> 3 \<and> n \<noteq> 6" for n
    by (simp add: mem_entries_def map_of_kv_puts NewStore_def KeyCIHeight_def)
  show ?thesis
    using identifyGapRanges_exact [OF mem_reliable, of 2 6 ?s] unfolding m by simp
qed

text \<open>A gap that reaches the end of the checked interval is not reported: if no height of the
  interval is indexed, the result is empty.\<close>

theorem trailing_gap_dropped:
  assumes "pebble_reliable P entries writes" and "endHeight \<noteq> 0xFFFFFFFF"
    and "\<forall>n. startHeight \<le> n \<and> n \<le> endHeight \<longrightarrow>
           map_of (entries (st_DB s)) (KeyCIHeight n) = None"
  shows "identifyGapRanges P s startHeight endHeight = Some (Inr [])"
proof -
  have get: "GetBlockHashByHeight P s n = Inr (map_of (entries (st_DB s)) (KeyCIHeight n))" for n
    by (simp add: GetBlockHashByHeight_def pebble_reliable.get_eq [OF assms(1)] split: option.split)
  show ?thesis unfolding identifyGapRanges_def
    by (rule gapLoop_all_missing [OF assms(2)]) (use assms(3) get in simp)
qed

theorem trailing_gap_dropped_witness:
  "identifyGapRanges mem_pebble (NewStore mem_pebble []) 2 6 = Some (Inr [])"
  by (rule trailing_gap_dropped [OF mem_reliable]) (simp_all add: NewStore_def mem_entries_def)

end
