(* ===== verification/Indexer.thy ===== *)
theory Indexer
  imports Read_Spec
begin

text \<open>
  From a pulled block to the block that is stored (\<open>indexer/types.go\<close>, \<open>pubkeyextract.go\<close>,
  \<open>compute.go\<close>, \<open>pull.go\<close> and the transaction part of \<open>builder.go\<close>): merging a block with its
  spent outputs, extracting the input keys, the tweak of a transaction and the rows it gives.
  The script tests, hashes and curve operations of \<open>go-bip352\<close>, \<open>go-libsecp256k1\<close> and
  \<open>blindbit-lib\<close> are a parameter.
\<close>

section \<open>Data\<close>

text \<open>
  The fields of the \<open>wire\<close> types that the code reads.  An amount is an \<open>int64\<close>; the conversion to
  \<open>uint64\<close> keeps its bits.
\<close>

record TxOut =
  to_Value :: u64
  to_PkScript :: bytes

record TxIn =
  txi_PrevHash :: bytes
  txi_PrevIndex :: u32
  txi_SignatureScript :: bytes
  txi_Witness :: "bytes list"

record Vin =
  vin_txIn :: TxIn
  vin_prevOut :: TxOut

record ITransaction =
  itx_txid :: bytes
  itx_ins :: "Vin list"
  itx_outs :: "TxOut list"

record IBlock =
  ib_Height :: int
  ib_Hash :: bytes
  ib_PrevBlockHash :: bytes
  ib_txs :: "ITransaction list"

definition SetTxIn :: "TxIn \<Rightarrow> Vin \<Rightarrow> Vin" where
  "SetTxIn i v = v\<lparr>vin_txIn := i\<rparr>"

definition SetPrevOut :: "TxOut \<Rightarrow> Vin \<Rightarrow> Vin" where
  "SetPrevOut i v = v\<lparr>vin_prevOut := i\<rparr>"

text \<open>A block as \<open>btcutil\<close> decodes it: its hash, its header's predecessor and its transactions.\<close>

record MsgTx =
  mtx_Hash :: bytes
  mtx_TxIn :: "TxIn list"
  mtx_TxOut :: "TxOut list"

record MsgBlock =
  mb_Hash :: bytes
  mb_PrevBlock :: bytes
  mb_Transactions :: "MsgTx list"

record sp_api =
  IsP2TR :: "bytes \<Rightarrow> bool"
  IsP2WPKH :: "bytes \<Rightarrow> bool"
  IsP2SH :: "bytes \<Rightarrow> bool"
  IsP2PKH :: "bytes \<Rightarrow> bool"
  NumsH :: bytes
  Hash160 :: "bytes \<Rightarrow> bytes"
  HashTagged :: "string \<Rightarrow> bytes \<Rightarrow> bytes"
  SumPublicKeys :: "bytes list \<Rightarrow> bytes res"
  PubKeyTweakMul :: "bytes \<Rightarrow> bytes \<Rightarrow> bytes res"
  ConvertPubkeySliceToFixedLength33 :: "bytes list \<Rightarrow> bytes list"

section \<open>Keys of the inputs\<close>

definition slice_panic :: "'a res" where
  "slice_panic = Inl (Panic ''slice bounds out of range'')"

definition from2 :: "bytes \<Rightarrow> bytes res" where
  "from2 script = (if length script < 2 then slice_panic else Inr (drop 2 script))"

text \<open>The nil key is \<open>None\<close>.\<close>

definition extractPubKeyFromP2TR :: "sp_api \<Rightarrow> Vin \<Rightarrow> bytes option res" where
  "extractPubKeyFromP2TR S vin =
     (let witnessStack = txi_Witness (vin_txIn vin); key = from2 (to_PkScript (vin_prevOut vin))
      in if length witnessStack \<ge> 1
         then (let stack = (if length witnessStack > 1 \<and> last witnessStack = [0x50]
                            then butlast witnessStack else witnessStack)
               in if length stack > 1
                  then (let controlBlock = last stack
                        in if length controlBlock \<ge> 33
                           then (if take 32 (drop 1 controlBlock) = NumsH S then Inr None
                                 else bindR key (\<lambda>k. Inr (Some k)))
                           else bindR key (\<lambda>k. Inr (Some k)))
                  else bindR key (\<lambda>k. Inr (Some k)))
         else Inr None)"

text \<open>The loop of \<open>extractFromP2PKH\<close> over the end positions, from the last one down to 33.\<close>

fun p2pkhLoop :: "sp_api \<Rightarrow> bytes \<Rightarrow> bytes \<Rightarrow> nat \<Rightarrow> bytes option" where
  "p2pkhLoop S sig spkHash i =
     (if i \<ge> 33
      then (let pubKeyBytes = take 33 (drop (i - 33) sig)
            in if Hash160 S pubKeyBytes = spkHash then Some pubKeyBytes
               else p2pkhLoop S sig spkHash (i - 1))
      else None)"

declare p2pkhLoop.simps [simp del]

definition extractFromP2PKH :: "sp_api \<Rightarrow> Vin \<Rightarrow> bytes option res" where
  "extractFromP2PKH S vin =
     (let script = to_PkScript (vin_prevOut vin); sig = txi_SignatureScript (vin_txIn vin)
      in if length script < 23 then slice_panic
         else Inr (p2pkhLoop S sig (take 20 (drop 3 script)) (length sig)))"

definition lastWitness :: "Vin \<Rightarrow> bytes res" where
  "lastWitness vin = (case txi_Witness (vin_txIn vin) of
     [] \<Rightarrow> Inl (Panic ''index out of range'') | ws \<Rightarrow> Inr (last ws))"

text \<open>The keys that one input adds: none or one.\<close>

definition inputKeys :: "sp_api \<Rightarrow> Vin \<Rightarrow> bytes list res" where
  "inputKeys S vin =
     (let script = to_PkScript (vin_prevOut vin); sig = txi_SignatureScript (vin_txIn vin)
      in if IsP2TR S script
         then bindR (extractPubKeyFromP2TR S vin) (\<lambda>pubKey.
              Inr (case pubKey of None \<Rightarrow> [] | Some k \<Rightarrow> if length k = 32 then [k] else []))
         else if IsP2WPKH S script
         then bindR (lastWitness vin) (\<lambda>w. Inr (if length w = 33 then [w] else []))
         else if IsP2SH S script
         then (if length sig = 23 \<and> take 3 sig = [0x16, 0x00, 0x14]
               then bindR (lastWitness vin) (\<lambda>w. Inr (if length w = 33 then [w] else []))
               else Inr [])
         else if IsP2PKH S script
         then bindR (extractFromP2PKH S vin) (\<lambda>pubKey.
              Inr (case pubKey of None \<Rightarrow> [] | Some k \<Rightarrow> [k]))
         else Inr [])"

definition extractPubKeys :: "sp_api \<Rightarrow> ITransaction \<Rightarrow> bytes list res" where
  "extractPubKeys S tx = bindR (mapR (inputKeys S) (itx_ins tx)) (\<lambda>ks. Inr (concat ks))"

section \<open>The tweak of a transaction\<close>

definition outpointOf :: "Vin \<Rightarrow> bytes" where
  "outpointOf vin = fit 32 (txi_PrevHash (vin_txIn vin)) @ put_le32 (txi_PrevIndex (vin_txIn vin))"

definition findSmallestOutpoint :: "ITransaction \<Rightarrow> bytes res" where
  "findSmallestOutpoint tx =
     (if itx_ins tx = [] then Inl (Err ''transaction has no inputs'')
      else (case sort (map outpointOf (itx_ins tx)) of
              o' # _ \<Rightarrow> Inr o'
            | [] \<Rightarrow> Inl (Err ''no valid outpoints found in transaction inputs, should not happen'')))"

definition ComputeInputHash :: "sp_api \<Rightarrow> ITransaction \<Rightarrow> bytes \<Rightarrow> bytes res" where
  "ComputeInputHash S tx sumPublicKeys =
     bindR (findSmallestOutpoint tx) (\<lambda>smallestOutpoint.
     Inr (HashTagged S ''BIP0352/Inputs'' (smallestOutpoint @ sumPublicKeys)))"

definition contains :: "string \<Rightarrow> string \<Rightarrow> bool" where
  "contains s sub = list_ex (\<lambda>i. take (length sub) (drop i s) = sub) [0..<Suc (length s)]"

text \<open>A tweak, or nil (\<open>None\<close>) for a transaction that has none.\<close>

definition ComputeTweakPerTx :: "sp_api \<Rightarrow> ITransaction \<Rightarrow> bytes option res" where
  "ComputeTweakPerTx S tx =
     bindR (extractPubKeys S tx) (\<lambda>pubKeys.
     if pubKeys = [] then Inr None
     else (case SumPublicKeys S (ConvertPubkeySliceToFixedLength33 S pubKeys) of
        Inl (Panic m) \<Rightarrow> Inl (Panic m)
      | Inl (Err m) \<Rightarrow> if contains m ''not on secp256k1 curve'' then Inr None else Inl (Err m)
      | Inr summedKey \<Rightarrow>
          bindR (ComputeInputHash S tx summedKey) (\<lambda>hash.
          bindR (PubKeyTweakMul S summedKey hash) (\<lambda>tweakBytes. Inr (Some tweakBytes)))))"

section \<open>The rows of a transaction\<close>

text \<open>The outputs that may be silent payments, with their positions.\<close>

definition dbOutputs :: "sp_api \<Rightarrow> ITransaction \<Rightarrow> Output list res" where
  "dbOutputs S tx =
     bindR (mapR (\<lambda>(i, v).
         if IsP2TR S (to_PkScript v)
         then bindR (from2 (to_PkScript v)) (\<lambda>pk.
              Inr [\<lparr>out_Txid = itx_txid tx, out_Vout = of_nat i, out_Amount = to_Value v,
                    out_Pubkey = pk\<rparr>])
         else Inr []) (enumerate 0 (itx_outs tx)))
       (\<lambda>os. Inr (concat os))"

definition dbInputs :: "sp_api \<Rightarrow> ITransaction \<Rightarrow> In list res" where
  "dbInputs S tx =
     bindR (mapR (\<lambda>(i, v).
         if IsP2TR S (to_PkScript (vin_prevOut v))
         then bindR (from2 (to_PkScript (vin_prevOut v))) (\<lambda>pk.
              Inr [\<lparr>in_SpendTxid = itx_txid tx, in_Idx = of_nat i,
                    in_PrevTxid = txi_PrevHash (vin_txIn v), in_PrevVout = txi_PrevIndex (vin_txIn v),
                    in_Pubkey = Some pk\<rparr>])
         else Inr []) (enumerate 0 (itx_ins tx)))
       (\<lambda>is. Inr (concat is))"

text \<open>An error of the tweak computation is logged and leaves the transaction without a tweak; a
  panic ends the process.\<close>

definition handleTx :: "sp_api \<Rightarrow> ITransaction \<Rightarrow> Tx option res" where
  "handleTx S tx =
     bindR (dbOutputs S tx) (\<lambda>dbOuts.
     bindR (if length dbOuts > 0
            then (case ComputeTweakPerTx S tx of
                    Inl (Panic m) \<Rightarrow> Inl (Panic m)
                  | Inl (Err m) \<Rightarrow> Inr None
                  | Inr t \<Rightarrow> Inr t)
            else Inr None) (\<lambda>tweak.
     bindR (dbInputs S tx) (\<lambda>dbIns.
     if tweak \<noteq> None \<or> length dbOuts > 0 \<or> length dbIns > 0
     then Inr (Some \<lparr>tx_Txid = itx_txid tx, tx_Tweak = tweak, tx_Outs = dbOuts, tx_Ins = dbIns\<rparr>)
     else Inr None)))"

text \<open>The block that \<open>handleBlock\<close> builds.\<close>

definition blockRows :: "sp_api \<Rightarrow> IBlock \<Rightarrow> DBBlock res" where
  "blockRows S block =
     bindR (mapR (handleTx S) (ib_txs block)) (\<lambda>dbTxs.
     Inr \<lparr>blk_Height = of_int (ib_Height block), blk_Hash = ib_Hash block, blk_Txs = dbTxs\<rparr>)"

text \<open>
  The handler: the error of a cancelled context (\<open>Some e\<close>), or a send on the writer channel, whose
  contents are a list with the oldest block first.  A send on a full channel waits for the writer
  and has no other effect.
\<close>

definition handleBlock :: "sp_api \<Rightarrow> go_error option \<Rightarrow> IBlock \<Rightarrow> DBBlock list \<Rightarrow>
    unit res \<times> DBBlock list" where
  "handleBlock S ctxErr block writerChan =
     (case blockRows S block of
        Inl e \<Rightarrow> (Inl e, writerChan)
      | Inr dbBlock \<Rightarrow>
          (case ctxErr of Some e \<Rightarrow> (Inl e, writerChan)
           | None \<Rightarrow> (Inr (), writerChan @ [dbBlock])))"

section \<open>Merging a block with its spent outputs\<close>

definition mergeTx :: "MsgTx \<Rightarrow> TxOut list \<Rightarrow> ITransaction res" where
  "mergeTx orgBlockTx spent =
     (if length spent > length (mtx_TxIn orgBlockTx) then Inl (Panic ''index out of range'')
      else Inr \<lparr>itx_txid = mtx_Hash orgBlockTx,
                itx_ins = map (\<lambda>(i, p). \<lparr>vin_txIn = i, vin_prevOut = p\<rparr>)
                            (zip (mtx_TxIn orgBlockTx) spent),
                itx_outs = mtx_TxOut orgBlockTx\<rparr>)"

definition mergeBlockAndSpentTxOuts :: "MsgBlock \<Rightarrow> TxOut list list \<Rightarrow> IBlock res" where
  "mergeBlockAndSpentTxOuts b spentTxOuts =
     (if length (mb_Transactions b) \<noteq> length spentTxOuts then Inl (Err ''unequal length'')
      else bindR (mapR (\<lambda>(tx, spent). mergeTx tx spent) (zip (mb_Transactions b) spentTxOuts)) (\<lambda>txs.
           Inr \<lparr>ib_Height = 0, ib_Hash = mb_Hash b, ib_PrevBlockHash = mb_PrevBlock b,
                ib_txs = txs\<rparr>))"

section \<open>What the rows of a transaction are\<close>

text \<open>
  The taproot outputs and the taproot inputs of a transaction with their positions, and the
  tweak of a transaction that has a taproot output.
\<close>

definition p2tr_outputs :: "sp_api \<Rightarrow> ITransaction \<Rightarrow> Output list" where
  "p2tr_outputs S tx =
     map (\<lambda>(i, v). \<lparr>out_Txid = itx_txid tx, out_Vout = of_nat i, out_Amount = to_Value v,
                    out_Pubkey = drop 2 (to_PkScript v)\<rparr>)
       (filter (\<lambda>(i, v). IsP2TR S (to_PkScript v)) (enumerate 0 (itx_outs tx)))"

definition p2tr_inputs :: "sp_api \<Rightarrow> ITransaction \<Rightarrow> In list" where
  "p2tr_inputs S tx =
     map (\<lambda>(i, v). \<lparr>in_SpendTxid = itx_txid tx, in_Idx = of_nat i,
                    in_PrevTxid = txi_PrevHash (vin_txIn v), in_PrevVout = txi_PrevIndex (vin_txIn v),
                    in_Pubkey = Some (drop 2 (to_PkScript (vin_prevOut v)))\<rparr>)
       (filter (\<lambda>(i, v). IsP2TR S (to_PkScript (vin_prevOut v))) (enumerate 0 (itx_ins tx)))"

definition tx_tweak :: "sp_api \<Rightarrow> ITransaction \<Rightarrow> bytes option" where
  "tx_tweak S tx = (if p2tr_outputs S tx = [] then None
     else case ComputeTweakPerTx S tx of Inr t \<Rightarrow> t | Inl _ \<Rightarrow> None)"

text \<open>
  What the script tests and the curve operations promise: a taproot script is a version byte, a
  push byte and a 32-byte key, a P2PKH script has 25 bytes, tweaking a key gives a compressed key,
  and neither operation panics.
\<close>

definition sp_ok :: "sp_api \<Rightarrow> bool" where
  "sp_ok S \<longleftrightarrow> (\<forall>s. IsP2TR S s \<longrightarrow> length s = 34) \<and> (\<forall>s. IsP2PKH S s \<longrightarrow> length s = 25) \<and>
     (\<forall>k h t. PubKeyTweakMul S k h = Inr t \<longrightarrow> length t = 33) \<and>
     (\<forall>ks m. SumPublicKeys S ks \<noteq> Inl (Panic m)) \<and> (\<forall>k h m. PubKeyTweakMul S k h \<noteq> Inl (Panic m))"

text \<open>
  The blocks of the node: a spend of a (possibly nested) witness key hash has a witness, hashes have
  32 bytes, and positions fit in 32 bits.
\<close>

definition valid_in :: "sp_api \<Rightarrow> Vin \<Rightarrow> bool" where
  "valid_in S v \<longleftrightarrow> length (txi_PrevHash (vin_txIn v)) = 32 \<and>
     (IsP2WPKH S (to_PkScript (vin_prevOut v)) \<longrightarrow> txi_Witness (vin_txIn v) \<noteq> []) \<and>
     (IsP2SH S (to_PkScript (vin_prevOut v)) \<and> length (txi_SignatureScript (vin_txIn v)) = 23 \<longrightarrow>
        txi_Witness (vin_txIn v) \<noteq> [])"

definition valid_itx :: "sp_api \<Rightarrow> ITransaction \<Rightarrow> bool" where
  "valid_itx S tx \<longleftrightarrow> hash_ok (itx_txid tx) \<and> list_all (valid_in S) (itx_ins tx) \<and>
     length (itx_outs tx) < 2 ^ 32 - 1"

definition valid_iblock :: "sp_api \<Rightarrow> IBlock \<Rightarrow> bool" where
  "valid_iblock S b \<longleftrightarrow> hash_ok (ib_Hash b) \<and> 0 \<le> ib_Height b \<and> ib_Height b < 2 ^ 32 - 1 \<and>
     length (ib_txs b) < 2 ^ 32 \<and> list_all (valid_itx S) (ib_txs b)"

lemma mapR_filter:
  assumes "\<And>x. x \<in> set xs \<Longrightarrow> p x \<Longrightarrow> f x = Inr [g x]" and "\<And>x. x \<in> set xs \<Longrightarrow> \<not> p x \<Longrightarrow> f x = Inr []"
  shows "bindR (mapR f xs) (\<lambda>ys. Inr (concat ys)) = Inr (map g (filter p xs))"
proof -
  have "mapR f xs = Inr (map (\<lambda>x. if p x then [g x] else []) xs)"
    using assms by (intro mapR_Inr) simp
  moreover have "concat (map (\<lambda>x. if p x then [g x] else []) xs) = map g (filter p xs)"
    by (induction xs) simp_all
  ultimately show ?thesis by simp
qed

lemma dbOutputs_eq: "sp_ok S \<Longrightarrow> dbOutputs S tx = Inr (p2tr_outputs S tx)"
  unfolding dbOutputs_def p2tr_outputs_def
  by (rule mapR_filter) (auto simp: sp_ok_def from2_def)

lemma dbInputs_eq: "sp_ok S \<Longrightarrow> dbInputs S tx = Inr (p2tr_inputs S tx)"
  unfolding dbInputs_def p2tr_inputs_def
  by (rule mapR_filter) (auto simp: sp_ok_def from2_def)

subsection \<open>No panic on a valid transaction\<close>

lemma extractPubKeyFromP2TR_ok:
  "sp_ok S \<Longrightarrow> IsP2TR S (to_PkScript (vin_prevOut v)) \<Longrightarrow> \<exists>k. extractPubKeyFromP2TR S v = Inr k"
  by (auto simp: extractPubKeyFromP2TR_def from2_def sp_ok_def Let_def)

lemma lastWitness_ok: "txi_Witness (vin_txIn v) \<noteq> [] \<Longrightarrow> \<exists>w. lastWitness v = Inr w"
  by (auto simp: lastWitness_def split: list.split)

lemma inputKeys_ok:
  assumes "sp_ok S" and "valid_in S v"
  shows "\<exists>ks. inputKeys S v = Inr ks"
  using assms extractPubKeyFromP2TR_ok [OF assms(1), of v] lastWitness_ok [of v]
  by (auto simp: inputKeys_def valid_in_def extractFromP2PKH_def sp_ok_def Let_def)

lemma ComputeTweakPerTx_no_panic:
  assumes "sp_ok S" and "valid_itx S tx"
  shows "ComputeTweakPerTx S tx \<noteq> Inl (Panic m)"
proof -
  have "\<forall>v \<in> set (itx_ins tx). \<exists>ks. inputKeys S v = Inr ks"
    using assms inputKeys_ok by (auto simp: valid_itx_def list_all_iff)
  then obtain ks where ks: "extractPubKeys S tx = Inr ks"
    using mapR_ok [of "itx_ins tx" "inputKeys S"] by (auto simp: extractPubKeys_def)
  have "findSmallestOutpoint tx \<noteq> Inl (Panic m)"
    by (auto simp: findSmallestOutpoint_def split: list.split)
  then show ?thesis using assms(1)
    by (auto simp: ComputeTweakPerTx_def ks ComputeInputHash_def bindR_split_Inl sp_ok_def
        split: sum.splits go_error.splits)
qed

lemma tx_tweak_length: "sp_ok S \<Longrightarrow> tx_tweak S tx = Some t \<Longrightarrow> length t = 33"
  by (auto simp: tx_tweak_def ComputeTweakPerTx_def sp_ok_def
      split: if_splits sum.splits go_error.splits)

lemma handleTx_eq:
  assumes "sp_ok S" and "valid_itx S tx"
  shows "handleTx S tx = Inr (if p2tr_outputs S tx = [] \<and> p2tr_inputs S tx = [] then None
     else Some \<lparr>tx_Txid = itx_txid tx, tx_Tweak = tx_tweak S tx, tx_Outs = p2tr_outputs S tx,
                tx_Ins = p2tr_inputs S tx\<rparr>)"
  using ComputeTweakPerTx_no_panic [OF assms]
  by (auto simp: handleTx_def dbOutputs_eq dbInputs_eq tx_tweak_def assms(1)
      split: sum.splits go_error.splits)

section \<open>Properties\<close>

lemma p2tr_outputs_wf:
  assumes "sp_ok S" and "valid_itx S tx"
  shows "list_all (\<lambda>o'. wf_output o' \<and> out_Txid o' = itx_txid tx \<and> out_Vout o' \<noteq> 0xFFFFFFFF)
    (p2tr_outputs S tx)"
proof -
  have "of_nat i \<noteq> (0xFFFFFFFF :: u32)" if "i < 2 ^ 32 - 1" for i
  proof
    assume "of_nat i = (0xFFFFFFFF :: u32)"
    then have "unat (of_nat i :: u32) = unat (0xFFFFFFFF :: u32)" by simp
    then show False using that by (simp add: unat_of_nat)
  qed
  then show ?thesis using assms
    by (auto simp: list_all_iff p2tr_outputs_def wf_output_def valid_itx_def hash_ok_def sp_ok_def
        in_set_enumerate_eq)
qed

lemma p2tr_inputs_wf:
  assumes "sp_ok S" and "valid_itx S tx"
  shows "list_all wf_in (p2tr_inputs S tx)"
  using assms
  by (auto simp: list_all_iff p2tr_inputs_def wf_in_def valid_itx_def valid_in_def sp_ok_def
      in_set_enumerate_eq)

lemma handleTx_wf:
  "sp_ok S \<Longrightarrow> valid_itx S tx \<Longrightarrow> handleTx S tx = Inr (Some t) \<Longrightarrow> wf_tx t"
  using p2tr_outputs_wf [of S tx] p2tr_inputs_wf [of S tx] tx_tweak_length [of S tx]
  by (auto simp: handleTx_eq wf_tx_def valid_itx_def split: if_splits)

lemma in_positions: "(i, t) \<in> set (positions n txs) \<Longrightarrow> Some t \<in> set txs"
  by (induction n txs rule: positions.induct) auto

lemma blockRows_wf:
  assumes "sp_ok S" and "valid_iblock S b"
  obtains txs where "mapR (handleTx S) (ib_txs b) = Inr txs"
    and "blockRows S b = Inr \<lparr>blk_Height = of_int (ib_Height b), blk_Hash = ib_Hash b, blk_Txs = txs\<rparr>"
    and "wf_block \<lparr>blk_Height = of_int (ib_Height b), blk_Hash = ib_Hash b, blk_Txs = txs\<rparr>"
proof -
  have v: "\<forall>tx \<in> set (ib_txs b). valid_itx S tx"
    using assms(2) by (simp add: valid_iblock_def list_all_iff)
  then obtain txs where txs: "mapR (handleTx S) (ib_txs b) = Inr txs"
    using mapR_ok [of "ib_txs b" "handleTx S"] handleTx_eq [OF assms(1)] by blast
  have "wf_tx t" if "Some t \<in> set txs" for t
    using mapR_from [OF txs that] v handleTx_wf [OF assms(1)] by blast
  moreover have "of_int (ib_Height b) \<noteq> (0xFFFFFFFF :: u32)"
  proof
    assume "of_int (ib_Height b) = (0xFFFFFFFF :: u32)"
    then have "uint (of_int (ib_Height b) :: u32) = uint (0xFFFFFFFF :: u32)" by simp
    then show False using assms(2)
      by (simp add: valid_iblock_def uint_word_of_int)
  qed
  ultimately have "wf_block \<lparr>blk_Height = of_int (ib_Height b), blk_Hash = ib_Hash b, blk_Txs = txs\<rparr>"
    using assms(2) mapR_length [OF txs] in_positions
    by (auto simp: wf_block_def valid_iblock_def block_txs_def list_all_iff)
  then show thesis using that txs by (simp add: blockRows_def)
qed

subsection \<open>An example\<close>

text \<open>
  A concrete instance of the parameter and a block with one taproot spend, on which the properties
  are evaluated.
\<close>

definition x_sp :: sp_api where
  "x_sp = \<lparr>IsP2TR = (\<lambda>s. length s = 34 \<and> take 2 s = [0x51, 0x20]),
           IsP2WPKH = (\<lambda>s. length s = 22 \<and> take 2 s = [0x00, 0x14]),
           IsP2SH = (\<lambda>s. length s = 23 \<and> take 2 s = [0xA9, 0x14]),
           IsP2PKH = (\<lambda>s. length s = 25 \<and> take 3 s = [0x76, 0xA9, 0x14]),
           NumsH = replicate 32 0x50, Hash160 = take 20, HashTagged = (\<lambda>t b. fit 32 b),
           SumPublicKeys = (\<lambda>ks. Inr (fit 33 (concat ks))),
           PubKeyTweakMul = (\<lambda>k h. Inr (fit 33 k)),
           ConvertPubkeySliceToFixedLength33 = map (\<lambda>k. if length k = 32 then 2 # k else k)\<rparr>"

definition x_script :: "byte \<Rightarrow> bytes" where
  "x_script k = [0x51, 0x20] @ replicate 32 k"

definition x_vin :: "byte \<Rightarrow> bytes list \<Rightarrow> Vin" where
  "x_vin h ws = \<lparr>vin_txIn = \<lparr>txi_PrevHash = replicate 32 h, txi_PrevIndex = 0,
                             txi_SignatureScript = [], txi_Witness = ws\<rparr>,
                 vin_prevOut = \<lparr>to_Value = 5, to_PkScript = x_script 7\<rparr>\<rparr>"

definition x_itx :: ITransaction where
  "x_itx = \<lparr>itx_txid = replicate 32 3, itx_ins = [x_vin 2 [replicate 64 9], x_vin 1 [replicate 64 9]],
            itx_outs = [\<lparr>to_Value = 4, to_PkScript = x_script 8\<rparr>]\<rparr>"

definition x_iblock :: IBlock where
  "x_iblock = \<lparr>ib_Height = 10, ib_Hash = replicate 32 4, ib_PrevBlockHash = replicate 32 5,
               ib_txs = [x_itx]\<rparr>"

lemma x_sp_ok: "sp_ok x_sp"
  by (simp add: sp_ok_def x_sp_def)

lemma x_itx_valid: "valid_itx x_sp x_itx"
  by (simp add: valid_itx_def x_itx_def hash_ok_def replicate_eq_replicate valid_in_def x_vin_def)

lemma x_iblock_valid: "valid_iblock x_sp x_iblock"
  using x_itx_valid by (simp add: valid_iblock_def x_iblock_def hash_ok_def replicate_eq_replicate)


subsection \<open>Statements\<close>

text \<open>
  The standard ways of spending an output and the public key that they reveal, as BIP352 lists them:
  a taproot output by its key or by a script whose control block has another internal key than the
  point \<open>H\<close>; P2WPKH; P2SH-P2WPKH; P2PKH.  A taproot spend with the internal key \<open>H\<close> and every other
  script reveal none.
\<close>

inductive reveals :: "sp_api \<Rightarrow> Vin \<Rightarrow> bytes option \<Rightarrow> bool" for S :: sp_api and v :: Vin where
  taproot_key: "IsP2TR S (to_PkScript (vin_prevOut v)) \<Longrightarrow> to_PkScript (vin_prevOut v) = a # b # key \<Longrightarrow>
    length key = 32 \<Longrightarrow> txi_Witness (vin_txIn v) = [sig] \<Longrightarrow> reveals S v (Some key)"
| taproot_script: "IsP2TR S (to_PkScript (vin_prevOut v)) \<Longrightarrow> to_PkScript (vin_prevOut v) = a # b # key \<Longrightarrow>
    length key = 32 \<Longrightarrow> txi_Witness (vin_txIn v) = w # ws @ [c # internal @ path] \<Longrightarrow> length internal = 32 \<Longrightarrow>
    reveals S v (if internal = NumsH S then None else Some key)"
| p2wpkh: "\<not> IsP2TR S (to_PkScript (vin_prevOut v)) \<Longrightarrow> IsP2WPKH S (to_PkScript (vin_prevOut v)) \<Longrightarrow>
    txi_Witness (vin_txIn v) = [sig, key] \<Longrightarrow> length key = 33 \<Longrightarrow> reveals S v (Some key)"
| p2sh_p2wpkh: "\<not> IsP2TR S (to_PkScript (vin_prevOut v)) \<Longrightarrow> \<not> IsP2WPKH S (to_PkScript (vin_prevOut v)) \<Longrightarrow>
    IsP2SH S (to_PkScript (vin_prevOut v)) \<Longrightarrow> txi_SignatureScript (vin_txIn v) = 0x16 # 0x00 # 0x14 # h \<Longrightarrow>
    length h = 20 \<Longrightarrow> txi_Witness (vin_txIn v) = [sig, key] \<Longrightarrow> length key = 33 \<Longrightarrow> reveals S v (Some key)"
| p2pkh: "\<not> IsP2TR S (to_PkScript (vin_prevOut v)) \<Longrightarrow> \<not> IsP2WPKH S (to_PkScript (vin_prevOut v)) \<Longrightarrow>
    \<not> IsP2SH S (to_PkScript (vin_prevOut v)) \<Longrightarrow> IsP2PKH S (to_PkScript (vin_prevOut v)) \<Longrightarrow>
    to_PkScript (vin_prevOut v) = x # y # z # Hash160 S key @ rest \<Longrightarrow> length (Hash160 S key) = 20 \<Longrightarrow>
    txi_SignatureScript (vin_txIn v) = sig @ key \<Longrightarrow> length key = 33 \<Longrightarrow> reveals S v (Some key)"
| other: "\<not> IsP2TR S (to_PkScript (vin_prevOut v)) \<Longrightarrow> \<not> IsP2WPKH S (to_PkScript (vin_prevOut v)) \<Longrightarrow>
    \<not> IsP2SH S (to_PkScript (vin_prevOut v)) \<Longrightarrow> \<not> IsP2PKH S (to_PkScript (vin_prevOut v)) \<Longrightarrow> reveals S v None"









text \<open>A transaction is indexed exactly when it creates or spends a taproot output.  Its rows
  are then all its taproot outputs and all its taproot inputs, each with its position and the
  32-byte key of the script, and it has a tweak only when it has a taproot output; handling a valid
  transaction does not panic.\<close>

theorem handleTx_rows:
  assumes "sp_ok S" and "valid_itx S tx"
  shows "handleTx S tx = Inr (if p2tr_outputs S tx = [] \<and> p2tr_inputs S tx = [] then None
     else Some \<lparr>tx_Txid = itx_txid tx, tx_Tweak = tx_tweak S tx, tx_Outs = p2tr_outputs S tx,
                tx_Ins = p2tr_inputs S tx\<rparr>)"
  using assms by (rule handleTx_eq)

theorem handleTx_rows_witness:
  "\<exists>t. handleTx x_sp x_itx = Inr (Some t) \<and> length (tx_Outs t) = 1 \<and> length (tx_Ins t) = 2"
  using handleTx_rows [OF x_sp_ok x_itx_valid]
  by (simp add: p2tr_outputs_def p2tr_inputs_def x_sp_def x_itx_def x_vin_def x_script_def)

text \<open>C20. Handling a valid block sends one block to the writer: it has the hash and height of the
  source block, one entry per transaction in order (nil for a skipped one), and it satisfies what
  the store requires of a block.  A cancelled context sends nothing.\<close>

theorem handleBlock_sends:
  assumes "sp_ok S" and "valid_iblock S b"
  shows "\<exists>blk. handleBlock S None b ch = (Inr (), ch @ [blk]) \<and> wf_block blk \<and>
      blk_Hash blk = ib_Hash b \<and> unat (blk_Height blk) = nat (ib_Height b) \<and>
      mapR (handleTx S) (ib_txs b) = Inr (blk_Txs blk) \<and>
      handleBlock S (Some e) b ch = (Inl e, ch)"
proof -
  obtain txs where txs: "mapR (handleTx S) (ib_txs b) = Inr txs"
    "blockRows S b = Inr \<lparr>blk_Height = of_int (ib_Height b), blk_Hash = ib_Hash b, blk_Txs = txs\<rparr>"
    "wf_block \<lparr>blk_Height = of_int (ib_Height b), blk_Hash = ib_Hash b, blk_Txs = txs\<rparr>"
    using blockRows_wf [OF assms] by metis
  have "unat (of_int (ib_Height b) :: u32) = nat (ib_Height b)"
    using assms(2) by (simp add: valid_iblock_def unat_eq_nat_uint uint_word_of_int)
  then show ?thesis using txs by (auto simp: handleBlock_def)
qed

theorem handleBlock_sends_witness:
  "\<exists>blk. handleBlock x_sp None x_iblock [] = (Inr (), [blk]) \<and> wf_block blk \<and>
     blk_Hash blk = replicate 32 4"
  using handleBlock_sends [OF x_sp_ok x_iblock_valid, of "[]" "Err ''cancelled''"]
  by (auto simp: x_iblock_def)

text \<open>Merging a block with its spent outputs keeps every transaction with its hash and its
  outputs, and pairs input \<open>j\<close> of transaction \<open>i\<close> with the \<open>j\<close>-th output the node reports as spent
  by it.  A coinbase transaction, for which the node reports none, has no inputs.\<close>

theorem merge_pairs_inputs:
  assumes "list_all2 (\<lambda>tx spent. length spent \<le> length (mtx_TxIn tx)) (mb_Transactions b) spent"
  shows "\<exists>blk. mergeBlockAndSpentTxOuts b spent = Inr blk \<and> ib_Hash blk = mb_Hash b \<and>
     ib_PrevBlockHash blk = mb_PrevBlock b \<and> length (ib_txs blk) = length (mb_Transactions b) \<and>
     (\<forall>i < length (ib_txs blk). itx_txid (ib_txs blk ! i) = mtx_Hash (mb_Transactions b ! i) \<and>
        itx_outs (ib_txs blk ! i) = mtx_TxOut (mb_Transactions b ! i) \<and>
        map vin_txIn (itx_ins (ib_txs blk ! i)) =
          take (length (spent ! i)) (mtx_TxIn (mb_Transactions b ! i)) \<and>
        map vin_prevOut (itx_ins (ib_txs blk ! i)) = spent ! i)"
proof -
  let ?mk = "\<lambda>(tx, spent). \<lparr>itx_txid = mtx_Hash tx,
      itx_ins = map (\<lambda>(i, p). \<lparr>vin_txIn = i, vin_prevOut = p\<rparr>) (zip (mtx_TxIn tx) spent),
      itx_outs = mtx_TxOut tx\<rparr>"
  have len: "length (mb_Transactions b) = length spent"
    and eq: "\<And>i. i < length spent \<Longrightarrow> length (spent ! i) \<le> length (mtx_TxIn (mb_Transactions b ! i))"
    using assms by (auto simp: list_all2_conv_all_nth)
  have "mapR (\<lambda>(tx, spent). mergeTx tx spent) (zip (mb_Transactions b) spent) =
      Inr (map ?mk (zip (mb_Transactions b) spent))"
    using eq by (intro mapR_Inr) (fastforce simp: mergeTx_def in_set_zip len dest: leD)
  moreover have "map vin_txIn (itx_ins (?mk (tx, sp))) = take (length sp) (mtx_TxIn tx)"
    "map vin_prevOut (itx_ins (?mk (tx, sp))) = sp" if "length sp \<le> length (mtx_TxIn tx)" for tx :: MsgTx and sp
    using that map_fst_zip_take [of "mtx_TxIn tx" sp] map_snd_zip_take [of "mtx_TxIn tx" sp]
    by (simp_all add: comp_def case_prod_unfold)
  ultimately show ?thesis using len eq by (auto simp: mergeBlockAndSpentTxOuts_def)
qed

theorem merge_pairs_inputs_witness:
  "\<exists>blk. mergeBlockAndSpentTxOuts
       \<lparr>mb_Hash = replicate 32 4, mb_PrevBlock = replicate 32 5,
        mb_Transactions = [\<lparr>mtx_Hash = replicate 32 3, mtx_TxIn = [vin_txIn (x_vin 2 [])],
                            mtx_TxOut = []\<rparr>]\<rparr> [[vin_prevOut (x_vin 2 [])]] = Inr blk \<and>
     itx_ins (ib_txs blk ! 0) = [x_vin 2 []]"
  (is "\<exists>blk. mergeBlockAndSpentTxOuts ?b ?s = Inr blk \<and> _")
proof -
  have "list_all2 (\<lambda>tx spent. length spent \<le> length (mtx_TxIn tx)) (mb_Transactions ?b) ?s" by simp
  from merge_pairs_inputs [OF this] obtain blk where blk: "mergeBlockAndSpentTxOuts ?b ?s = Inr blk"
    "map vin_txIn (itx_ins (ib_txs blk ! 0)) = [vin_txIn (x_vin 2 [])]"
    "map vin_prevOut (itx_ins (ib_txs blk ! 0)) = [vin_prevOut (x_vin 2 [])]" by auto
  then show ?thesis by (cases "itx_ins (ib_txs blk ! 0)") (auto intro: Vin.equality)
qed

text \<open>An annex is removed only when it is the single byte 0x50.  A taproot script-path spend
  whose internal key is the NUMS point is skipped without an annex; the same spend with an annex
  \<open>0x50 # a\<close> of another shape gives the output key to the sum: either the annex is too short to be
  read as a control block, or its bytes 1 to 32 stand in for the internal key.\<close>

theorem annex_hides_nums_key:
  assumes "take 32 (drop 1 cb) = NumsH S" and "33 \<le> length cb" and "ws \<noteq> []"
    and "a \<noteq> []" and "length a < 32 \<or> take 32 a \<noteq> NumsH S"
    and "2 \<le> length (to_PkScript po)"
  shows "extractPubKeyFromP2TR S \<lparr>vin_txIn = txin\<lparr>txi_Witness := ws @ [cb]\<rparr>, vin_prevOut = po\<rparr> =
      Inr None \<and>
    extractPubKeyFromP2TR S
      \<lparr>vin_txIn = txin\<lparr>txi_Witness := ws @ [cb, 0x50 # a]\<rparr>, vin_prevOut = po\<rparr> =
      Inr (Some (drop 2 (to_PkScript po)))"
  using assms by (auto simp: extractPubKeyFromP2TR_def from2_def Let_def)

theorem annex_hides_nums_key_witness:
  "extractPubKeyFromP2TR x_sp (x_vin 1 [[0x51], 0xC0 # replicate 32 0x50]) = Inr None \<and>
   extractPubKeyFromP2TR x_sp (x_vin 1 [[0x51], 0xC0 # replicate 32 0x50, [0x50, 0]]) =
     Inr (Some (replicate 32 7))"
  using annex_hides_nums_key [of "0xC0 # replicate 32 0x50" x_sp "[[0x51]]" "[0]"
      "vin_prevOut (x_vin 1 [])" "vin_txIn (x_vin 1 [])"]
  by (simp add: x_sp_def x_vin_def x_script_def)

end
