(* ===== verification/Json.thy ===== *)
theory Json
  imports Hex
begin

text \<open>
  The text side of the HTTP server: the documents that \<open>encoding/json\<close> writes, decimal numbers as
  \<open>strconv.AppendUint\<close> and \<open>strconv.ParseUint(s, 10, 32)\<close> treat them, and the lemmas on separators
  and brackets that the response types share.  Strings are those the server writes (hexadecimal
  digits and field names), which need no escape sequence.
\<close>

section \<open>Decimal numbers\<close>

definition digit :: "nat \<Rightarrow> char" where
  "digit n = char_of (48 + n)"

fun AppendUint :: "nat \<Rightarrow> string" where
  "AppendUint n = (if n < 10 then [digit n] else AppendUint (n div 10) @ [digit (n mod 10)])"

declare AppendUint.simps [simp del]

definition isDigit :: "char \<Rightarrow> bool" where
  "isDigit c \<longleftrightarrow> 48 \<le> (of_char c :: nat) \<and> (of_char c :: nat) \<le> 57"

definition digits_value :: "string \<Rightarrow> nat" where
  "digits_value s = foldl (\<lambda>n c. 10 * n + (of_char c - 48)) 0 s"

text \<open>With bit size 32; the result is a \<open>uint64\<close> below \<open>2^32\<close>.\<close>

definition ParseUint :: "string \<Rightarrow> nat res" where
  "ParseUint s =
     (if s = [] \<or> \<not> list_all isDigit s then Inl (Err ''invalid syntax'')
      else if digits_value s \<ge> 2 ^ 32 then Inl (Err ''value out of range'')
      else Inr (digits_value s))"

lemma digit_ok: "n < 10 \<Longrightarrow> isDigit (digit n) \<and> of_char (digit n) = n + 48"
  by (simp add: isDigit_def digit_def)

lemma AppendUint_digits: "list_all isDigit (AppendUint n) \<and> AppendUint n \<noteq> []"
  by (induction n rule: AppendUint.induct) (subst (1 2) AppendUint.simps, simp add: digit_ok)

lemma digits_value_AppendUint: "digits_value (AppendUint n) = n"
proof (induction n rule: AppendUint.induct)
  case (1 n)
  show ?case
  proof (cases "n < 10")
    case True
    then show ?thesis by (subst AppendUint.simps) (simp add: digits_value_def digit_ok)
  next
    case False
    then have "digits_value (AppendUint n) = 10 * (n div 10) + n mod 10"
      using 1 by (subst AppendUint.simps) (simp add: digits_value_def digit_ok)
    then show ?thesis by simp
  qed
qed

lemma Parse_Append: "n < 2 ^ 32 \<Longrightarrow> ParseUint (AppendUint n) = Inr n"
  using AppendUint_digits [of n] by (simp add: ParseUint_def digits_value_AppendUint)

lemma ParseUint_less: "ParseUint s = Inr n \<Longrightarrow> n < 2 ^ 32"
  by (auto simp: ParseUint_def split: if_splits)

section \<open>Documents\<close>

datatype json = JNull | JNum nat | JStr string | JArr "json list" | JObj "(string \<times> json) list"

definition quote :: "string \<Rightarrow> string" where
  "quote s = CHR 0x22 # s @ [CHR 0x22]"

fun sepBy :: "string list \<Rightarrow> string" where
  "sepBy [] = []"
| "sepBy [x] = x"
| "sepBy (x # y # zs) = x @ CHR '','' # sepBy (y # zs)"

text \<open>\<open>json.Marshal\<close>: no white space, the fields of a struct in the order of their declaration.\<close>

fun Marshal :: "json \<Rightarrow> string" where
  "Marshal JNull = ''null''"
| "Marshal (JNum n) = AppendUint n"
| "Marshal (JStr s) = quote s"
| "Marshal (JArr xs) = CHR ''['' # sepBy (map Marshal xs) @ '']''"
| "Marshal (JObj fs) = CHR ''{'' # sepBy (map (\<lambda>(k, v). quote k @ CHR '':'' # Marshal v) fs) @ ''}''"

text \<open>A comma before every element but the first, as the loops of the code write it.\<close>

lemma sepBy_snoc: "sepBy (xs @ [x]) = sepBy xs @ (if xs = [] then [] else '','') @ x"
  by (induction xs rule: sepBy.induct) simp_all

lemma count_list_sepBy:
  "c \<noteq> CHR '','' \<Longrightarrow> count_list (sepBy xs) c = sum_list (map (\<lambda>x. count_list x c) xs)"
  by (induction xs rule: sepBy.induct) simp_all

section \<open>Brackets\<close>

text \<open>The braces of a text are balanced in number, and its strings contain none.\<close>

definition balanced :: "string \<Rightarrow> bool" where
  "balanced s \<longleftrightarrow> count_list s (CHR ''{'') = count_list s (CHR ''}'')"

definition plain :: "string \<Rightarrow> bool" where
  "plain s \<longleftrightarrow> CHR ''{'' \<notin> set s \<and> CHR ''}'' \<notin> set s"

lemma plain_balanced: "plain s \<Longrightarrow> balanced s"
  by (simp add: plain_def balanced_def count_notin)

lemma balanced_append: "balanced a \<Longrightarrow> balanced b \<Longrightarrow> balanced (a @ b)"
  by (simp add: balanced_def)

lemma plain_simps [simp]: "plain []" "plain (c # s) \<longleftrightarrow> c \<noteq> CHR ''{'' \<and> c \<noteq> CHR ''}'' \<and> plain s"
  "plain (s @ t) \<longleftrightarrow> plain s \<and> plain t"
  by (auto simp: plain_def)

lemma plain_quote [simp]: "plain (quote s) = plain s"
  by (simp add: quote_def)

lemma plain_hex [simp]: "plain (EncodeToString bs)"
proof -
  have "hexDigit n \<noteq> CHR ''{'' \<and> hexDigit n \<noteq> CHR ''}''" if "n < 16" for n
    using fromHexChar_hexDigit [OF that] by (auto simp: fromHexChar_def)
  moreover have "unat b div 16 < 16" for b :: byte using unat_byte_lt [of b] by simp
  ultimately show ?thesis by (induction bs) simp_all
qed

lemma plain_decimal [simp]: "plain (AppendUint n)"
  using AppendUint_digits [of n] by (auto simp: plain_def list_all_iff isDigit_def)

lemma balanced_sepBy: "\<forall>x \<in> set xs. balanced x \<Longrightarrow> balanced (sepBy xs)"
  by (induction xs rule: sepBy.induct) (simp_all add: balanced_def)

end
