(* ===== verification/Node.thy ===== *)
theory Node
  imports Indexer Json
begin

text \<open>
  The client of the node (\<open>indexer/rest.go\<close>, \<open>indexer/spentoutputs.go\<close>): the four requests over
  REST and the parser of the spent outputs of a block.  Sending a request, the JSON decoder and the
  decoder of \<open>btcutil\<close> are parameters, and so are the two readers of \<open>btcd/wire\<close>, of which the
  locale \<open>wire_codec\<close> states the documented behaviour.  \<open>logging.L.Fatal\<close> ends the process and is a
  panic here.
\<close>

section \<open>Spent outputs\<close>

record wire_api =
  w_ReadVarInt :: "bytes \<Rightarrow> (u64 \<times> bytes) res"
  w_ReadVarBytes :: "nat \<Rightarrow> bytes \<Rightarrow> (bytes \<times> bytes) res"

text \<open>\<open>make\<close> of a slice of \<open>n\<close> elements of the given size panics beyond the address space.\<close>

definition makeslice :: "nat \<Rightarrow> nat \<Rightarrow> unit res" where
  "makeslice w n = (if w * n > 2 ^ 48 then Inl (Panic ''makeslice: len out of range'') else Inr ())"

text \<open>\<open>binary.Read\<close> of an \<open>int64\<close>\<close>

definition readValue :: "bytes \<Rightarrow> (u64 \<times> bytes) res" where
  "readValue r = (if length r < 8 then Inl (Err ''unexpected EOF'')
     else bindR (get_le64 r) (\<lambda>val. Inr (val, drop 8 r)))"

text \<open>The outputs of transaction \<open>i\<close> from input \<open>j\<close> on, and the transactions from \<open>i\<close> on; the last
  number is how many are left.\<close>

fun readOuts :: "wire_api \<Rightarrow> nat \<Rightarrow> nat \<Rightarrow> nat \<Rightarrow> bytes \<Rightarrow> (TxOut list \<times> bytes) res" where
  "readOuts W i j 0 r = Inr ([], r)"
| "readOuts W i j (Suc n) r =
     bindR (wrapf (''tx '' @ AppendUint i @ '' vin '' @ AppendUint j @ '': read value'') (readValue r)) (\<lambda>(val, r).
     bindR (wrapf (''tx '' @ AppendUint i @ '' vin '' @ AppendUint j @ '': read script'')
       (w_ReadVarBytes W 10000 r)) (\<lambda>(spk, r).
     bindR (readOuts W i (j + 1) n r) (\<lambda>(outs, r).
     Inr (\<lparr>to_Value = val, to_PkScript = spk\<rparr> # outs, r))))"

fun readTxs :: "wire_api \<Rightarrow> nat \<Rightarrow> nat \<Rightarrow> bytes \<Rightarrow> (TxOut list list \<times> bytes) res" where
  "readTxs W i 0 r = Inr ([], r)"
| "readTxs W i (Suc n) r =
     bindR (wrapf (''tx '' @ AppendUint i @ '': read k'') (w_ReadVarInt W r)) (\<lambda>(k, r).
     bindR (makeslice 8 (unat k)) (\<lambda>_.
     bindR (readOuts W i 0 (unat k) r) (\<lambda>(outs, r).
     bindR (readTxs W (i + 1) n r) (\<lambda>(res, r). Inr (outs # res, r)))))"

definition ParseSpentTxOuts :: "wire_api \<Rightarrow> bytes \<Rightarrow> TxOut list list res" where
  "ParseSpentTxOuts W r =
     bindR (wrapf ''read nTx'' (w_ReadVarInt W r)) (\<lambda>(nTx, r).
     bindR (makeslice 24 (unat nTx)) (\<lambda>_.
     bindR (readTxs W 0 (unat nTx) r) (\<lambda>(res, _). Inr res)))"

definition ParseSpentTxOutsFromBytes :: "wire_api \<Rightarrow> bytes \<Rightarrow> TxOut list list res" where
  "ParseSpentTxOutsFromBytes W b = ParseSpentTxOuts W b"

section \<open>Requests\<close>

text \<open>
  A client: creating a request, performing it (status and body), and how many bytes one \<open>Read\<close> of a
  body returns.
\<close>

record rest_client =
  rc_NewRequest :: "string \<Rightarrow> unit res"
  rc_Do :: "string \<Rightarrow> (nat \<times> bytes) res"
  rc_Read :: "bytes \<Rightarrow> nat"

text \<open>Of the chain information the code reads the number of blocks.\<close>

record ChainInfo =
  ch_Blocks :: int

record decoders =
  dec_ChainInfo :: "bytes \<Rightarrow> ChainInfo res"
  dec_Block :: "bytes \<Rightarrow> MsgBlock res"
  dec_HashString :: "bytes \<Rightarrow> string"
  dec_Wire :: wire_api

text \<open>The steps that the four requests share.\<close>

definition request :: "rest_client \<Rightarrow> string \<Rightarrow> (bytes \<Rightarrow> 'a res) \<Rightarrow> 'a res" where
  "request C url k =
     bindR (wrapf ''error creating request'' (rc_NewRequest C url)) (\<lambda>_.
     bindR (wrapf ''error performing request'' (rc_Do C url)) (\<lambda>(status, body).
     if status \<noteq> 200 then Inl (Panic ''bad status code'') else k body))"

definition FormatInt :: "int \<Rightarrow> string" where
  "FormatInt n = (if n < 0 then CHR ''-'' # AppendUint (nat (- n)) else AppendUint (nat n))"

definition GetChainInfo :: "rest_client \<Rightarrow> decoders \<Rightarrow> string \<Rightarrow> ChainInfo res" where
  "GetChainInfo C X endpoint = request C (endpoint @ ''/rest/chaininfo.json'') (dec_ChainInfo X)"

definition getBlockHashByHeight :: "rest_client \<Rightarrow> string \<Rightarrow> int \<Rightarrow> bytes res" where
  "getBlockHashByHeight C endpoint height =
     request C (endpoint @ ''/rest/blockhashbyheight/'' @ FormatInt height @ ''.bin'') (\<lambda>body.
     Inr (fit 32 (take (rc_Read C body) body)))"

definition getSpentUtxos :: "rest_client \<Rightarrow> decoders \<Rightarrow> string \<Rightarrow> string \<Rightarrow> TxOut list list res" where
  "getSpentUtxos C X endpoint blockhash =
     request C (endpoint @ ''/rest/spenttxouts/'' @ blockhash @ ''.bin'') (ParseSpentTxOuts (dec_Wire X))"

definition getBlockByHash :: "rest_client \<Rightarrow> decoders \<Rightarrow> string \<Rightarrow> string \<Rightarrow> MsgBlock res" where
  "getBlockByHash C X endpoint blockhash =
     request C (endpoint @ ''/rest/block/'' @ blockhash @ ''.bin'') (dec_Block X)"

text \<open>The node as the drivers of the indexer see it.\<close>

record node_api =
  nd_Blocks :: "int res"
  nd_BlockHash :: "int \<Rightarrow> bytes res"
  nd_SpentUtxos :: "bytes \<Rightarrow> TxOut list list res"
  nd_BlockByHash :: "bytes \<Rightarrow> MsgBlock res"

definition rest_node :: "rest_client \<Rightarrow> decoders \<Rightarrow> string \<Rightarrow> node_api" where
  "rest_node C X endpoint = \<lparr>
     nd_Blocks = bindR (GetChainInfo C X endpoint) (\<lambda>i. Inr (ch_Blocks i)),
     nd_BlockHash = getBlockHashByHeight C endpoint,
     nd_SpentUtxos = (\<lambda>h. getSpentUtxos C X endpoint (dec_HashString X h)),
     nd_BlockByHash = (\<lambda>h. getBlockByHash C X endpoint (dec_HashString X h))\<rparr>"

section \<open>Readers that read exactly one encoding\<close>

text \<open>
  A reader returns the value of an encoding and what follows it, and fails on every proper prefix
  of the encoding.
\<close>

definition exact :: "(bytes \<Rightarrow> ('a \<times> bytes) res) \<Rightarrow> bytes \<Rightarrow> 'a \<Rightarrow> bool" where
  "exact rd e a \<longleftrightarrow> (\<forall>r. rd (e @ r) = Inr (a, r)) \<and> (\<forall>p. strict_prefix p e \<longrightarrow> (\<exists>x. rd p = Inl x))"

lemma exact_Nil: "(\<And>r. rd r = Inr (a, r)) \<Longrightarrow> exact rd [] a"
  by (simp add: exact_def)

lemma exact_bind:
  assumes "exact rd e a" and "exact (k a) e' b"
  shows "exact (\<lambda>r. bindR (rd r) (\<lambda>(a, r). k a r)) (e @ e') b"
  unfolding exact_def
proof (intro conjI allI impI)
  show "bindR (rd ((e @ e') @ r)) (\<lambda>(a, r). k a r) = Inr (b, r)" for r
    using assms by (simp add: exact_def)
  fix p assume "strict_prefix p (e @ e')"
  then consider "strict_prefix p e" | p' where "p = e @ p'" "strict_prefix p' e'"
    by (metis prefix_append prefix_order.le_less same_prefix_prefix strict_prefix_def append_Nil2 prefix_def)
  then show "\<exists>x. bindR (rd p) (\<lambda>(a, r). k a r) = Inl x"
    by cases (use assms in \<open>auto simp: exact_def dest!: spec [of _ p]\<close>)
qed

lemma exact_last:
  assumes "exact rd e a"
  shows "exact (\<lambda>r. bindR (rd r) (\<lambda>(a, r). Inr (f a, r))) e (f a)"
  using exact_bind [OF assms exact_Nil, of "\<lambda>a r. Inr (f a, r)" "f a"] by simp

lemma exact_wrap: "exact rd e a \<Longrightarrow> exact (\<lambda>r. wrapf m (rd r)) e a"
  unfolding exact_def by (metis wrapf.simps wrapf.elims wrapf_Inr)

lemma exact_result:
  assumes "exact rd e a"
  shows "bindR (rd (e @ r)) (\<lambda>(x, _). Inr x) = Inr a \<and>
    (\<forall>p. strict_prefix p e \<longrightarrow> (\<exists>x. bindR (rd p) (\<lambda>(x, _). Inr x) = Inl x))"
proof (intro conjI allI impI)
  show "bindR (rd (e @ r)) (\<lambda>(x, _). Inr x) = Inr a" using assms by (simp add: exact_def)
  fix p assume "strict_prefix p e"
  then obtain x where "rd p = Inl x" using assms unfolding exact_def by blast
  then show "\<exists>x. bindR (rd p) (\<lambda>(x, _). Inr x) = Inl x" by simp
qed

section \<open>The wire format\<close>

text \<open>
  What is relied on of \<open>wire.ReadVarInt\<close> and \<open>wire.ReadVarBytes\<close>: they read back what the encoder of
  variable-length integers writes, and report an error when the input ends early.
\<close>

locale wire_codec =
  fixes W :: wire_api and putVarInt :: "nat \<Rightarrow> bytes"
  assumes read_int: "n < 2 ^ 64 \<Longrightarrow> exact (w_ReadVarInt W) (putVarInt n) (of_nat n)"
    and read_bytes: "length b \<le> m \<Longrightarrow> length b < 2 ^ 64 \<Longrightarrow>
      exact (w_ReadVarBytes W m) (putVarInt (length b) @ b) b"

definition encOut :: "(nat \<Rightarrow> bytes) \<Rightarrow> TxOut \<Rightarrow> bytes" where
  "encOut putVarInt o' = put_le64 (to_Value o') @ putVarInt (length (to_PkScript o')) @ to_PkScript o'"

definition encOuts :: "(nat \<Rightarrow> bytes) \<Rightarrow> TxOut list \<Rightarrow> bytes" where
  "encOuts putVarInt outs = putVarInt (length outs) @ concat (map (encOut putVarInt) outs)"

definition encSpent :: "(nat \<Rightarrow> bytes) \<Rightarrow> TxOut list list \<Rightarrow> bytes" where
  "encSpent putVarInt txs = putVarInt (length txs) @ concat (map (encOuts putVarInt) txs)"

text \<open>Lists that fit into memory, with scripts of at most 10000 bytes.\<close>

definition spent_ok :: "TxOut list list \<Rightarrow> bool" where
  "spent_ok txs \<longleftrightarrow> 24 * length txs \<le> 2 ^ 48 \<and>
     (\<forall>outs \<in> set txs. 8 * length outs \<le> 2 ^ 48 \<and> (\<forall>o' \<in> set outs. length (to_PkScript o') \<le> 10000))"

lemma exact_value: "exact readValue (put_le64 v) v"
  by (auto simp: exact_def readValue_def dest!: prefix_length_less)

lemma makeslice_ok: "w * n \<le> 2 ^ 48 \<Longrightarrow> makeslice w n = Inr ()"
  by (simp add: makeslice_def)

context wire_codec
begin

lemma exact_outs:
  "\<forall>o' \<in> set outs. length (to_PkScript o') \<le> 10000 \<Longrightarrow>
    exact (readOuts W i j (length outs)) (concat (map (encOut putVarInt) outs)) outs"
proof (induction outs arbitrary: j)
  case Nil
  then show ?case by (simp add: exact_Nil)
next
  case (Cons o' outs)
  let ?o = "\<lparr>to_Value = to_Value o', to_PkScript = to_PkScript o'\<rparr>"
  have eta: "?o = o'" by (rule TxOut.equality) simp_all
  note v = exact_wrap [OF exact_value, of "''tx '' @ AppendUint i @ '' vin '' @ AppendUint j @ '': read value''" "to_Value o'"]
  have "length (to_PkScript o') < 2 ^ 64" using Cons.prems by auto
  then have s: "exact (\<lambda>r. wrapf (''tx '' @ AppendUint i @ '' vin '' @ AppendUint j @ '': read script'') (w_ReadVarBytes W 10000 r))
      (putVarInt (length (to_PkScript o')) @ to_PkScript o') (to_PkScript o')"
    using Cons.prems by (intro exact_wrap read_bytes) auto
  have r: "exact (\<lambda>r. bindR (readOuts W i (j + 1) (length outs) r) (\<lambda>(outs, r). Inr (?o # outs, r)))
      (concat (map (encOut putVarInt) outs)) (?o # outs)"
    using exact_last [OF Cons.IH, of "j + 1" "\<lambda>outs. ?o # outs"] Cons.prems by simp
  show ?case
    using exact_bind [where k = "\<lambda>val r. bindR (wrapf (''tx '' @ AppendUint i @ '' vin '' @ AppendUint j @ '': read script'') (w_ReadVarBytes W 10000 r)) (\<lambda>(spk, r).
         bindR (readOuts W i (j + 1) (length outs) r) (\<lambda>(outs, r). Inr (\<lparr>to_Value = val, to_PkScript = spk\<rparr> # outs, r)))",
         OF v exact_bind [where k = "\<lambda>spk r. bindR (readOuts W i (j + 1) (length outs) r) (\<lambda>(outs, r).
           Inr (\<lparr>to_Value = to_Value o', to_PkScript = spk\<rparr> # outs, r))", OF s r]]
    by (simp add: encOut_def [of putVarInt o'] eta)
qed

lemma exact_txs:
  "\<forall>outs \<in> set txs. 8 * length outs \<le> 2 ^ 48 \<and> (\<forall>o' \<in> set outs. length (to_PkScript o') \<le> 10000) \<Longrightarrow>
    exact (readTxs W i (length txs)) (concat (map (encOuts putVarInt) txs)) txs"
proof (induction txs arbitrary: i)
  case Nil
  then show ?case by (simp add: exact_Nil)
next
  case (Cons outs txs)
  have len: "8 * length outs \<le> 2 ^ 48" using Cons.prems by simp
  then have u: "unat (of_nat (length outs) :: u64) = length outs" by (simp add: unat_of_nat)
  have k: "exact (\<lambda>r. wrapf (''tx '' @ AppendUint i @ '': read k'') (w_ReadVarInt W r)) (putVarInt (length outs)) (of_nat (length outs))"
    using len by (intro exact_wrap read_int) simp
  have o: "exact (readOuts W i 0 (length outs)) (concat (map (encOut putVarInt) outs)) outs"
    using Cons.prems by (intro exact_outs) simp
  have r: "exact (\<lambda>r. bindR (readTxs W (i + 1) (length txs) r) (\<lambda>(res, r). Inr (outs # res, r)))
      (concat (map (encOuts putVarInt) txs)) (outs # txs)"
    using exact_last [OF Cons.IH, of "i + 1" "\<lambda>res. outs # res"] Cons.prems by simp
  have kk: "exact (\<lambda>r. bindR (makeslice 8 (unat (of_nat (length outs) :: u64))) (\<lambda>_.
         bindR (readOuts W i 0 (unat (of_nat (length outs) :: u64)) r) (\<lambda>(outs, r).
         bindR (readTxs W (i + 1) (length txs) r) (\<lambda>(res, r). Inr (outs # res, r)))))
       (concat (map (encOut putVarInt) outs) @ concat (map (encOuts putVarInt) txs)) (outs # txs)"
    using exact_bind [where k = "\<lambda>outs r. bindR (readTxs W (i + 1) (length txs) r) (\<lambda>(res, r). Inr (outs # res, r))",
        OF o r] by (simp add: u makeslice_ok [OF len])
  show ?case
    using exact_bind [where k = "\<lambda>k r. bindR (makeslice 8 (unat k)) (\<lambda>_.
         bindR (readOuts W i 0 (unat k) r) (\<lambda>(outs, r).
         bindR (readTxs W (i + 1) (length txs) r) (\<lambda>(res, r). Inr (outs # res, r))))", OF k kk]
    by (simp add: encOuts_def [of putVarInt outs])
qed

lemma exact_spent:
  assumes "spent_ok txs"
  shows "exact (\<lambda>r. bindR (wrapf ''read nTx'' (w_ReadVarInt W r)) (\<lambda>(nTx, r).
      bindR (makeslice 24 (unat nTx)) (\<lambda>_. readTxs W 0 (unat nTx) r))) (encSpent putVarInt txs) txs"
proof -
  have len: "24 * length txs \<le> 2 ^ 48" using assms by (simp add: spent_ok_def)
  then have u: "unat (of_nat (length txs) :: u64) = length txs" by (simp add: unat_of_nat)
  have n: "exact (\<lambda>r. wrapf ''read nTx'' (w_ReadVarInt W r)) (putVarInt (length txs)) (of_nat (length txs))"
    using len by (intro exact_wrap read_int) simp
  have "exact (readTxs W 0 (length txs)) (concat (map (encOuts putVarInt) txs)) txs"
    using assms by (intro exact_txs) (simp add: spent_ok_def)
  then show ?thesis unfolding encSpent_def
    by (intro exact_bind [where k = "\<lambda>nTx r. bindR (makeslice 24 (unat nTx)) (\<lambda>_. readTxs W 0 (unat nTx) r)", OF n])
      (simp add: u makeslice_ok [OF len])
qed

end

section \<open>The compact size encoding\<close>

text \<open>The format of Bitcoin: a number below 0xFD is one byte, a greater one is a marker byte and two, four
  or eight bytes, least significant first; a longer encoding than necessary is an error.\<close>

definition compactBytes :: "nat \<Rightarrow> nat \<Rightarrow> bytes \<Rightarrow> (u64 \<times> bytes) res" where
  "compactBytes k least r =
     (if length r < k then Inl (Err ''unexpected EOF'')
      else let n = nat_be (rev (take k r))
           in if n < least then Inl (Err ''non-canonical varint'') else Inr (of_nat n, drop k r))"

fun readCompact :: "bytes \<Rightarrow> (u64 \<times> bytes) res" where
  "readCompact [] = Inl (Err ''EOF'')"
| "readCompact (b # r) =
     (if b = 0xFF then compactBytes 8 (2 ^ 32) r
      else if b = 0xFE then compactBytes 4 (2 ^ 16) r
      else if b = 0xFD then compactBytes 2 0xFD r
      else Inr (of_nat (unat b), r))"

definition putCompact :: "nat \<Rightarrow> bytes" where
  "putCompact n =
     (if n < 0xFD then [of_nat n]
      else if n < 2 ^ 16 then 0xFD # rev (be_nat 2 n)
      else if n < 2 ^ 32 then 0xFE # rev (be_nat 4 n)
      else 0xFF # rev (be_nat 8 n))"

definition readVarBytes :: "nat \<Rightarrow> bytes \<Rightarrow> (bytes \<times> bytes) res" where
  "readVarBytes m r =
     bindR (readCompact r) (\<lambda>(n, r).
     if unat n > m then Inl (Err ''larger than the max allowed size'')
     else if length r < unat n then Inl (Err ''unexpected EOF'')
     else Inr (take (unat n) r, drop (unat n) r))"

definition compact_wire :: wire_api where
  "compact_wire = \<lparr>w_ReadVarInt = readCompact, w_ReadVarBytes = readVarBytes\<rparr>"

lemma exact_compactBytes:
  assumes "least \<le> n" and "n < 256 ^ k"
  shows "exact (compactBytes k least) (rev (be_nat k n)) (of_nat n)"
  using assms by (auto simp: exact_def compactBytes_def nat_be_be_nat dest!: prefix_length_less)

lemma exact_marker:
  assumes "exact (compactBytes k least) e a" and "\<And>r. readCompact (b # r) = compactBytes k least r"
  shows "exact readCompact (b # e) a"
  unfolding exact_def
proof (intro conjI allI impI)
  show "readCompact ((b # e) @ r) = Inr (a, r)" for r using assms by (simp add: exact_def)
  fix p assume "strict_prefix p (b # e)"
  then consider "p = []" | p' where "p = b # p'" "strict_prefix p' e" by (cases p) auto
  then show "\<exists>x. readCompact p = Inl x" using assms by cases (auto simp: exact_def)
qed

lemma exact_readCompact:
  assumes "n < 2 ^ 64"
  shows "exact readCompact (putCompact n) (of_nat n)"
proof -
  consider "n < 0xFD" | "0xFD \<le> n" "n < 2 ^ 16" | "2 ^ 16 \<le> n" "n < 2 ^ 32" | "2 ^ 32 \<le> n" by linarith
  then show ?thesis
  proof cases
    case 1
    then have u: "unat (of_nat n :: byte) = n" by (simp add: unat_of_nat)
    then have "(of_nat n :: byte) \<noteq> 0xFF" "(of_nat n :: byte) \<noteq> 0xFE" "(of_nat n :: byte) \<noteq> 0xFD"
      using 1 by (auto simp: word_unat_eq_iff)
    then show ?thesis using 1 u by (auto simp: exact_def putCompact_def prefix_Cons strict_prefix_def)
  next
    case 2
    then show ?thesis
      using exact_marker [OF exact_compactBytes [of "0xFD" n 2], of "0xFD"] by (simp add: putCompact_def)
  next
    case 3
    then show ?thesis
      using exact_marker [OF exact_compactBytes [of "2 ^ 16" n 4], of "0xFE"] by (simp add: putCompact_def)
  next
    case 4
    then show ?thesis
      using exact_marker [OF exact_compactBytes [of "2 ^ 32" n 8], of "0xFF"] assms by (simp add: putCompact_def)
  qed
qed

lemma exact_readVarBytes:
  assumes "length b \<le> m" and "length b < 2 ^ 64"
  shows "exact (readVarBytes m) (putCompact (length b) @ b) b"
  unfolding readVarBytes_def
proof (rule exact_bind [OF exact_readCompact [OF assms(2)]])
  have "unat (of_nat (length b) :: u64) = length b" using assms(2) by (simp add: unat_of_nat)
  then show "exact (\<lambda>r. if unat (of_nat (length b) :: u64) > m then Inl (Err ''larger than the max allowed size'')
     else if length r < unat (of_nat (length b) :: u64) then Inl (Err ''unexpected EOF'')
     else Inr (take (unat (of_nat (length b) :: u64)) r, drop (unat (of_nat (length b) :: u64)) r)) b b"
    using assms(1) by (auto simp: exact_def dest!: prefix_length_less)
qed

interpretation compact: wire_codec compact_wire putCompact
  by unfold_locales (simp_all add: compact_wire_def exact_readCompact exact_readVarBytes)

lemma compact_codec: "wire_codec compact_wire putCompact"
  by (rule compact.wire_codec_axioms)

section \<open>Properties of the client\<close>

text \<open>C32. The parser of the spent outputs inverts the encoding of the node: it returns the lists that
  were encoded, whatever follows them, and every body that is cut short is an error, never a
  shorter result.\<close>

theorem ParseSpentTxOuts_exact:
  assumes "wire_codec W putVarInt" and "spent_ok txs"
  shows "ParseSpentTxOuts W (encSpent putVarInt txs @ rest) = Inr txs \<and>
    (\<forall>p. strict_prefix p (encSpent putVarInt txs) \<longrightarrow> (\<exists>e. ParseSpentTxOuts W p = Inl e))"
proof -
  have eq: "ParseSpentTxOuts W r = bindR (bindR (wrapf ''read nTx'' (w_ReadVarInt W r)) (\<lambda>(nTx, r).
      bindR (makeslice 24 (unat nTx)) (\<lambda>_. readTxs W 0 (unat nTx) r))) (\<lambda>(res, _). Inr res)" for r
    by (simp add: ParseSpentTxOuts_def bindR_assoc case_prod_unfold)
  show ?thesis
    unfolding eq by (rule exact_result [OF wire_codec.exact_spent [OF assms]])
qed

theorem ParseSpentTxOuts_exact_witness:
  "ParseSpentTxOuts compact_wire (encSpent putCompact [[], [\<lparr>to_Value = 5, to_PkScript = [1, 2]\<rparr>]] @ [9]) =
     Inr [[], [\<lparr>to_Value = 5, to_PkScript = [1, 2]\<rparr>]]"
  using ParseSpentTxOuts_exact [OF compact_codec, of "[[], [\<lparr>to_Value = 5, to_PkScript = [1, 2]\<rparr>]]" "[9]"]
  by (simp add: spent_ok_def)

text \<open>The hash of a height is the body of the response if one read delivers its 32 bytes.  A read
  that delivers fewer is not noticed: the missing bytes of the hash are zero and there is no error.\<close>

theorem getBlockHashByHeight_read:
  assumes "rc_NewRequest C (endpoint @ ''/rest/blockhashbyheight/'' @ FormatInt height @ ''.bin'') = Inr ()"
    and "rc_Do C (endpoint @ ''/rest/blockhashbyheight/'' @ FormatInt height @ ''.bin'') = Inr (200, body)"
    and "length body = 32"
  shows "getBlockHashByHeight C endpoint height =
    Inr (take (rc_Read C body) body @ replicate (32 - rc_Read C body) 0)"
  using assms by (simp add: getBlockHashByHeight_def request_def fit_def min_def)

theorem getBlockHashByHeight_read_witness:
  "getBlockHashByHeight \<lparr>rc_NewRequest = (\<lambda>_. Inr ()), rc_Do = (\<lambda>_. Inr (200, replicate 32 7)), rc_Read = (\<lambda>_. 20)\<rparr>
     [] 5 = Inr (replicate 20 7 @ replicate 12 0)"
  using getBlockHashByHeight_read [of "\<lparr>rc_NewRequest = (\<lambda>_. Inr ()), rc_Do = (\<lambda>_. Inr (200, replicate 32 7)),
      rc_Read = (\<lambda>_. 20)\<rparr>" "[]" 5 "replicate 32 7"] by simp

end
