(* ===== verification/Config.thy ===== *)
theory Config
  imports Prelude
begin

text \<open>
  The configuration (\<open>config/vars.go\<close>, \<open>config/config.go\<close>): the global variables with their initial
  values, and \<open>LoadConfigs\<close>, which reads them from \<open>viper\<close>.  The package variables are a record.
  The getters of \<open>viper\<close> are a parameter; each is given the defaults that were set and the key.
  \<open>logging.L.Fatal\<close> ends the process and is an error value; the log level is passed to the logging
  library and has no other effect.
\<close>

datatype chain = Unknown | Mainnet | Signet | Regtest | Testnet3

datatype cfg_value = CNum int | CText string | CFlag bool

type_synonym defaults = "(string \<times> cfg_value) list"

record viper_api =
  v_GetUint16 :: "defaults \<Rightarrow> string \<Rightarrow> u16"
  v_GetUint32 :: "defaults \<Rightarrow> string \<Rightarrow> u32"
  v_GetInt :: "defaults \<Rightarrow> string \<Rightarrow> int"
  v_GetString :: "defaults \<Rightarrow> string \<Rightarrow> string"
  v_GetBool :: "defaults \<Rightarrow> string \<Rightarrow> bool"

record Config =
  cfg_LogLevel :: string
  cfg_TweaksOnly :: bool
  cfg_TweakIndexFullNoDust :: bool
  cfg_TweakIndexFullIncludingDust :: bool
  cfg_TweaksCutThroughWithDust :: bool
  cfg_RpcEndpoint :: string
  cfg_RestEndpoint :: string
  cfg_CookiePath :: string
  cfg_RpcUser :: string
  cfg_RpcPass :: string
  cfg_HTTPHost :: string
  cfg_GRPCHost :: string
  cfg_SyncStartHeight :: u32
  cfg_Chain :: chain
  cfg_MaxCPUCores :: int
  cfg_MaxParallelRequests :: u16
  cfg_MaxParallelTweakComputations :: int
  cfg_MaxRangeBlocks :: u32

text \<open>The variables before \<open>LoadConfigs\<close>; \<open>runtime.NumCPU()\<close> is an argument.\<close>

definition initialConfig :: "int \<Rightarrow> Config" where
  "initialConfig numCPU =
     (let cores = max 1 (numCPU - 2)
      in \<lparr>cfg_LogLevel = ''info'', cfg_TweaksOnly = False, cfg_TweakIndexFullNoDust = False,
          cfg_TweakIndexFullIncludingDust = False, cfg_TweaksCutThroughWithDust = False,
          cfg_RpcEndpoint = ''http://127.0.0.1:8332'', cfg_RestEndpoint = [], cfg_CookiePath = [],
          cfg_RpcUser = [], cfg_RpcPass = [], cfg_HTTPHost = ''127.0.0.1:8000'', cfg_GRPCHost = [],
          cfg_SyncStartHeight = 842579, cfg_Chain = Unknown, cfg_MaxCPUCores = cores,
          cfg_MaxParallelRequests = of_int (max 4 (cores * 2)),
          cfg_MaxParallelTweakComputations = cores, cfg_MaxRangeBlocks = 100\<rparr>)"

definition setDefaults :: "Config \<Rightarrow> defaults" where
  "setDefaults c =
     [(''max_parallel_requests'', CNum (uint (cfg_MaxParallelRequests c))),
      (''max_parallel_tweak_computations'', CNum (cfg_MaxParallelTweakComputations c)),
      (''max_cpu_cores'', CNum (cfg_MaxCPUCores c)),
      (''max_range_blocks'', CNum (uint (cfg_MaxRangeBlocks c))),
      (''sync_start_height'', CNum (uint (cfg_SyncStartHeight c))),
      (''http_host'', CText (cfg_HTTPHost c)), (''grpc_host'', CText (cfg_GRPCHost c)),
      (''chain'', CText ''signet''), (''core_rpc_endpoint'', CText (cfg_RpcEndpoint c)),
      (''core_rest_endpoint'', CText (cfg_RestEndpoint c)), (''tweaks_only'', CFlag False),
      (''tweaks_full_basic'', CFlag True), (''tweaks_full_with_dust_filter'', CFlag False),
      (''tweaks_cut_through_with_dust_filter'', CFlag False), (''log_level'', CText ''info'')]"

definition readChain :: "string \<Rightarrow> chain res" where
  "readChain s =
     (if s = ''main'' then Inr Mainnet else if s = ''signet'' then Inr Signet
      else if s = ''regtest'' then Inr Regtest else if s = ''testnet'' then Inr Testnet3
      else Inl (Err ''chain undefined''))"

text \<open>\<open>strings.Split(s, sep)\<close> for a one-character separator.\<close>

fun Split :: "char \<Rightarrow> string \<Rightarrow> string list" where
  "Split sep [] = [[]]"
| "Split sep (c # s) =
     (if c = sep then [] # Split sep s else (c # hd (Split sep s)) # tl (Split sep s))"

text \<open>The credentials: from the cookie file when one is named; neither may be empty.\<close>

definition credentials :: "(string \<Rightarrow> string res) \<Rightarrow> Config \<Rightarrow> Config res" where
  "credentials readFile c =
     (if cfg_RpcEndpoint c = [] then Inr c
      else bindR (if cfg_CookiePath c = [] then Inr c
                  else case readFile (cfg_CookiePath c) of
                         Inl _ \<Rightarrow> Inl (Err ''error reading cookie file'')
                       | Inr data \<Rightarrow>
                           (case Split (CHR '':'') data of
                              [user, pass] \<Rightarrow> Inr (c\<lparr>cfg_RpcUser := user, cfg_RpcPass := pass\<rparr>)
                            | _ \<Rightarrow> Inl (Err ''cookie file is invalid''))) (\<lambda>c.
           if cfg_RpcUser c = [] then Inl (Err ''rpc user not set'')
           else if cfg_RpcPass c = [] then Inl (Err ''rpc pass not set'')
           else Inr c))"

definition readValues :: "viper_api \<Rightarrow> Config \<Rightarrow> Config" where
  "readValues V c =
     (let d = setDefaults c
      in c\<lparr>cfg_SyncStartHeight := v_GetUint32 V d ''sync_start_height'',
           cfg_HTTPHost := v_GetString V d ''http_host'',
           cfg_GRPCHost := v_GetString V d ''grpc_host'',
           cfg_LogLevel := v_GetString V d ''log_level'',
           cfg_MaxParallelRequests := max 1 (v_GetUint16 V d ''max_parallel_requests''),
           cfg_MaxParallelTweakComputations := max 1 (v_GetInt V d ''max_parallel_tweak_computations''),
           cfg_MaxCPUCores := max 1 (v_GetInt V d ''max_cpu_cores''),
           cfg_MaxRangeBlocks := max 1 (v_GetUint32 V d ''max_range_blocks''),
           cfg_RpcEndpoint := v_GetString V d ''core_rpc_endpoint'',
           cfg_RestEndpoint := v_GetString V d ''core_rest_endpoint'',
           cfg_CookiePath := v_GetString V d ''cookie_path'',
           cfg_RpcPass := v_GetString V d ''rpc_pass'',
           cfg_RpcUser := v_GetString V d ''rpc_user'',
           cfg_TweaksOnly := v_GetBool V d ''tweaks_only'',
           cfg_TweakIndexFullNoDust := v_GetBool V d ''tweaks_full_basic'',
           cfg_TweakIndexFullIncludingDust := v_GetBool V d ''tweaks_full_with_dust_filter'',
           cfg_TweaksCutThroughWithDust := v_GetBool V d ''tweaks_cut_through_with_dust_filter''\<rparr>)"

definition LoadConfigs :: "viper_api \<Rightarrow> (string \<Rightarrow> string res) \<Rightarrow> Config \<Rightarrow> Config res" where
  "LoadConfigs V readFile c =
     (let c1 = readValues V c
      in bindR (readChain (v_GetString V (setDefaults c) ''chain'')) (\<lambda>ch.
         let c2 = c1\<lparr>cfg_Chain := ch\<rparr>
         in if cfg_TweaksCutThroughWithDust c2 \<and> cfg_TweaksOnly c2
            then Inl (Err ''cut through requires tweaks_only to be set to 0'')
            else credentials readFile c2))"

fun ChainToString :: "chain \<Rightarrow> string res" where
  "ChainToString Mainnet = Inr ''main''"
| "ChainToString Signet = Inr ''signet''"
| "ChainToString Regtest = Inr ''regtest''"
| "ChainToString Testnet3 = Inr ''testnet''"
| "ChainToString Unknown = Inl (Panic ''chain not defined'')"

fun HeaderMustSyncHeight :: "chain \<Rightarrow> u32 res" where
  "HeaderMustSyncHeight Mainnet = Inr 500000"
| "HeaderMustSyncHeight Signet = Inr 1"
| "HeaderMustSyncHeight Regtest = Inr 1"
| "HeaderMustSyncHeight Testnet3 = Inr 1"
| "HeaderMustSyncHeight Unknown = Inl (Panic ''chain not defined'')"

section \<open>What a loaded configuration guarantees\<close>

lemma readChain_known: "readChain s = Inr ch \<Longrightarrow> ch \<noteq> Unknown \<and> ChainToString ch = Inr s"
  by (auto simp: readChain_def split: if_splits)

lemma credentials_keep:
  assumes "credentials rf c = Inr c'"
  shows "c' = c\<lparr>cfg_RpcUser := cfg_RpcUser c', cfg_RpcPass := cfg_RpcPass c'\<rparr>"
    and "cfg_RpcEndpoint c' \<noteq> [] \<Longrightarrow> cfg_RpcUser c' \<noteq> [] \<and> cfg_RpcPass c' \<noteq> []"
  using assms by (auto simp: credentials_def split: if_splits sum.splits list.splits)

lemma max_one_pos: "0 < max 1 (x :: 'a :: len word)"
  by (metis max.coboundedI1 order.refl order_less_le_trans word_neq_0_conv zero_neq_one)

text \<open>Whatever the configuration file and the environment hold, a loaded configuration cannot stall
  the indexer or the range endpoints: every limit is at least one, the chain is known (and its name
  is the one that was read), cut-through and tweaks-only are not both set, and the credentials are
  set when there is an RPC endpoint.\<close>

theorem LoadConfigs_safe:
  assumes "LoadConfigs V rf c = Inr c'"
  shows "0 < cfg_MaxParallelRequests c' \<and> 1 \<le> cfg_MaxParallelTweakComputations c' \<and>
    1 \<le> cfg_MaxCPUCores c' \<and> 0 < cfg_MaxRangeBlocks c' \<and>
    ChainToString (cfg_Chain c') = Inr (v_GetString V (setDefaults c) ''chain'') \<and>
    \<not> (cfg_TweaksCutThroughWithDust c' \<and> cfg_TweaksOnly c') \<and>
    (cfg_RpcEndpoint c' \<noteq> [] \<longrightarrow> cfg_RpcUser c' \<noteq> [] \<and> cfg_RpcPass c' \<noteq> [])"
proof -
  obtain ch where ch: "readChain (v_GetString V (setDefaults c) ''chain'') = Inr ch"
    and ok: "\<not> (cfg_TweaksCutThroughWithDust (readValues V c) \<and> cfg_TweaksOnly (readValues V c))"
    and cr: "credentials rf ((readValues V c)\<lparr>cfg_Chain := ch\<rparr>) = Inr c'"
    using assms by (auto simp: LoadConfigs_def Let_def split: if_splits)
  from credentials_keep(1) [OF cr]
  have eq: "c' = (readValues V c)\<lparr>cfg_Chain := ch, cfg_RpcUser := cfg_RpcUser c', cfg_RpcPass := cfg_RpcPass c'\<rparr>"
    by simp
  have "0 < cfg_MaxParallelRequests c'" "0 < cfg_MaxRangeBlocks c'"
    "1 \<le> cfg_MaxParallelTweakComputations c'" "1 \<le> cfg_MaxCPUCores c'"
    "cfg_TweaksCutThroughWithDust c' = cfg_TweaksCutThroughWithDust (readValues V c)"
    "cfg_TweaksOnly c' = cfg_TweaksOnly (readValues V c)" "cfg_Chain c' = ch"
    by (subst eq, simp add: readValues_def Let_def max_one_pos)+
  then show ?thesis using ok readChain_known [OF ch] credentials_keep(2) [OF cr] by simp
qed

definition x_viper :: viper_api where
  "x_viper = \<lparr>v_GetUint16 = (\<lambda>d k. 0), v_GetUint32 = (\<lambda>d k. 0), v_GetInt = (\<lambda>d k. 0),
     v_GetString = (\<lambda>d k. if k = ''chain'' then ''main'' else if k = ''core_rpc_endpoint'' then []
                          else ''x''),
     v_GetBool = (\<lambda>d k. False)\<rparr>"

theorem LoadConfigs_safe_witness:
  "\<exists>c. LoadConfigs x_viper (\<lambda>_. Inr []) (initialConfig 4) = Inr c \<and> cfg_MaxRangeBlocks c > 0 \<and>
     ChainToString (cfg_Chain c) = Inr ''main''"
proof -
  obtain c where c: "LoadConfigs x_viper (\<lambda>_. Inr []) (initialConfig 4) = Inr c"
    by (simp add: LoadConfigs_def readChain_def credentials_def readValues_def x_viper_def Let_def)
  show ?thesis using LoadConfigs_safe [OF c] c by (auto simp: x_viper_def)
qed

end
