(* ===== verification/Sync.thy ===== *)
theory Sync
  imports Gap_Check Node Config "HOL-Library.Multiset"
begin

text \<open>
  The drivers of the indexer (\<open>indexer/pull.go\<close>, \<open>indexer/builder.go\<close>, \<open>indexer/cleanup.go\<close>): pulling a
  block with two concurrent requests, following a reorganisation backwards, the pipeline of
  \<open>SyncBlocks\<close> (pullers, handlers and one writer around two channels) as a step relation, the
  initial sync, the gap repair and the writer of the continuous sync.  The answers of the node are an
  argument (\<open>node_api\<close>), which \<open>rest_node\<close> of the theory Node provides.
\<close>

section \<open>Pulling a block\<close>

text \<open>
  \<open>PullBlockData\<close> starts two goroutines and waits for both before it looks at the error channel.
  The channel has no buffer, so a goroutine that reports an error stays in its send until the main
  function receives.
\<close>

datatype goroutine = Running | Sending go_error | Finished

datatype pull_main = Waiting | Selecting | Returned "IBlock res"

record pull_state =
  pl_spent :: goroutine
  pl_block :: goroutine
  pl_main :: pull_main

definition pull_start :: pull_state where
  "pull_start = \<lparr>pl_spent = Running, pl_block = Running, pl_main = Waiting\<rparr>"

inductive pull_step :: "TxOut list list res \<Rightarrow> MsgBlock res \<Rightarrow> pull_state \<Rightarrow> pull_state \<Rightarrow> bool"
  for spentRes :: "TxOut list list res" and blockRes :: "MsgBlock res" where
  spent_ok: "pl_spent s = Running \<Longrightarrow> spentRes = Inr sp \<Longrightarrow>
     pull_step spentRes blockRes s (s\<lparr>pl_spent := Finished\<rparr>)"
| spent_err: "pl_spent s = Running \<Longrightarrow> spentRes = Inl e \<Longrightarrow>
     pull_step spentRes blockRes s (s\<lparr>pl_spent := Sending e\<rparr>)"
| block_ok: "pl_block s = Running \<Longrightarrow> blockRes = Inr b \<Longrightarrow>
     pull_step spentRes blockRes s (s\<lparr>pl_block := Finished\<rparr>)"
| block_err: "pl_block s = Running \<Longrightarrow> blockRes = Inl e \<Longrightarrow>
     pull_step spentRes blockRes s (s\<lparr>pl_block := Sending e\<rparr>)"
| wait_done: "pl_main s = Waiting \<Longrightarrow> pl_spent s = Finished \<Longrightarrow> pl_block s = Finished \<Longrightarrow>
     pull_step spentRes blockRes s (s\<lparr>pl_main := Selecting\<rparr>)"
| receive_spent: "pl_main s = Selecting \<Longrightarrow> pl_spent s = Sending e \<Longrightarrow>
     pull_step spentRes blockRes s (s\<lparr>pl_main := Returned (Inl e), pl_spent := Finished\<rparr>)"
| receive_block: "pl_main s = Selecting \<Longrightarrow> pl_block s = Sending e \<Longrightarrow>
     pull_step spentRes blockRes s (s\<lparr>pl_main := Returned (Inl e), pl_block := Finished\<rparr>)"
| select_default: "pl_main s = Selecting \<Longrightarrow> pl_spent s = Finished \<Longrightarrow> pl_block s = Finished \<Longrightarrow>
     spentRes = Inr sp \<Longrightarrow> blockRes = Inr b \<Longrightarrow>
     pull_step spentRes blockRes s (s\<lparr>pl_main := Returned (mergeBlockAndSpentTxOuts b sp)\<rparr>)"

inductive_cases pull_stepE: "pull_step spentRes blockRes s s'"

text \<open>What the function returns; \<open>None\<close> when it does not return.\<close>

definition PullBlockData :: "TxOut list list res \<Rightarrow> MsgBlock res \<Rightarrow> IBlock res option" where
  "PullBlockData spentRes blockRes =
     (case (spentRes, blockRes) of
        (Inr sp, Inr b) \<Rightarrow> Some (mergeBlockAndSpentTxOuts b sp)
      | _ \<Rightarrow> None)"

definition pullBlock :: "node_api \<Rightarrow> int \<Rightarrow> IBlock res option" where
  "pullBlock N height =
     (case nd_BlockHash N height of
        Inl e \<Rightarrow> Some (Inl e)
      | Inr blockhash \<Rightarrow>
          (case PullBlockData (nd_SpentUtxos N blockhash) (nd_BlockByHash N blockhash) of
             None \<Rightarrow> None
           | Some (Inl e) \<Rightarrow> Some (Inl e)
           | Some (Inr block) \<Rightarrow> Some (Inr (block\<lparr>ib_Height := height\<rparr>))))"

definition pullBlockToChan :: "node_api \<Rightarrow> int \<Rightarrow> IBlock list \<Rightarrow> (unit res \<times> IBlock list) option" where
  "pullBlockToChan N height newBlockChan =
     (case pullBlock N height of
        None \<Rightarrow> None
      | Some (Inl e) \<Rightarrow> Some (Inl e, newBlockChan)
      | Some (Inr block) \<Rightarrow> Some (Inr (), newBlockChan @ [block]))"

section \<open>Following the chain backwards\<close>

text \<open>
  \<open>SingleBlockPullAndHandle\<close> recurses to the height below as long as the predecessor is not in the
  database.  The height is a \<open>uint32\<close> and wraps below zero.  The writer runs concurrently;
  \<open>inDB\<close> is what \<open>BlockhashInDB\<close> answers at the call for a height.
\<close>

partial_function (option) SingleBlockPullAndHandle ::
    "sp_api \<Rightarrow> node_api \<Rightarrow> (u32 \<Rightarrow> bytes \<Rightarrow> bool res) \<Rightarrow> go_error option \<Rightarrow> u32 \<Rightarrow> DBBlock list \<Rightarrow>
     (unit res \<times> DBBlock list) option" where
  "SingleBlockPullAndHandle S N inDB ctxErr height writerChan =
     (case pullBlock N (uint height) of
        None \<Rightarrow> None
      | Some (Inl e) \<Rightarrow> Some (Inl e, writerChan)
      | Some (Inr block) \<Rightarrow>
          (case handleBlock S ctxErr block writerChan of
             (Inl e, ch) \<Rightarrow> Some (Inl e, ch)
           | (Inr _, ch) \<Rightarrow>
               (case inDB height (ib_PrevBlockHash block) of
                  Inl e \<Rightarrow> Some (Inl e, ch)
                | Inr blockhashInDB \<Rightarrow>
                    if blockhashInDB then Some (Inr (), ch)
                    else SingleBlockPullAndHandle S N inDB ctxErr (height - 1) ch)))"

section \<open>The pipeline of a sync\<close>

text \<open>
  The state of \<open>SyncBlocks\<close>: the next height of the pull loop, the heights being pulled (each holds
  the semaphore), the block channel, the blocks that the handlers hold, the writer channel, the
  store, the blocks applied so far, and the result once the main function has returned.  The pull
  loop has ended when the next height is beyond the last one.  A goroutine whose send on the error
  channel is received makes the main function return that error.  A channel without buffer hands
  over directly, which is a buffer of one here.

  The context is cancelled at any time when \<open>ctxErr\<close> is not \<open>None\<close>.  The writer, too, leaves on a
  cancelled context and closes the done channel, so that the main function has two channels to
  choose from: it returns the error of the context or the result of the flush.  The writer reads
  the chain tip for its report, whose error it sends.  A failed background commit panics.
\<close>

record ('db, 'b) sync_state =
  sy_next :: int
  sy_pulling :: "int list"
  sy_newBlocks :: "IBlock list"
  sy_handling :: "IBlock list"
  sy_writer :: "DBBlock list"
  sy_store :: "('db, 'b) Store"
  sy_applied :: "DBBlock list"
  sy_result :: "unit res option"

definition pullLimit :: "Config \<Rightarrow> nat" where
  "pullLimit c = unat (cfg_MaxParallelRequests c)"

text \<open>
  The capacities of the two channels.  \<open>MaxParallelRequests*20\<close> is a \<open>uint16\<close> product and may
  wrap to 0, and with no workers the other product is 0: a channel without a buffer, which hands its
  value over in one step, is modelled by one of capacity one, where the sender may go on before the
  value is received.
  The product of \<open>int\<close>s does not wrap for the values that \<open>LoadConfigs\<close> lets through.
\<close>

definition newBlockCap :: "Config \<Rightarrow> nat" where
  "newBlockCap c = max 1 (unat (cfg_MaxParallelRequests c * 20))"

definition handlers :: "Config \<Rightarrow> nat" where
  "handlers c = nat (cfg_MaxParallelTweakComputations c)"

definition writerCap :: "Config \<Rightarrow> nat" where
  "writerCap c = max 1 (nat (cfg_MaxParallelTweakComputations c * 20))"

definition sync_start :: "int \<Rightarrow> ('db, 'b) Store \<Rightarrow> ('db, 'b) sync_state" where
  "sync_start start s = \<lparr>sy_next = start, sy_pulling = [], sy_newBlocks = [], sy_handling = [],
     sy_writer = [], sy_store = s, sy_applied = [], sy_result = None\<rparr>"

definition sync_idle :: "int \<Rightarrow> ('db, 'b) sync_state \<Rightarrow> bool" where
  "sync_idle e t \<longleftrightarrow> e < sy_next t \<and> sy_pulling t = [] \<and> sy_newBlocks t = [] \<and>
     sy_handling t = [] \<and> sy_writer t = []"

text \<open>The writer ends when its channel is closed and drained; the channel is closed when the handlers
  have ended, which is at once when there are none.\<close>

definition writer_done :: "Config \<Rightarrow> int \<Rightarrow> ('db, 'b) sync_state \<Rightarrow> bool" where
  "writer_done c e t \<longleftrightarrow> sy_writer t = [] \<and> (handlers c = 0 \<or> sync_idle e t)"

inductive sync_step ::
    "Config \<Rightarrow> sp_api \<Rightarrow> node_api \<Rightarrow> ('db, 'b) pebble_api \<Rightarrow> go_error option \<Rightarrow> int \<Rightarrow>
     ('db, 'b) sync_state \<Rightarrow> ('db, 'b) sync_state \<Rightarrow> bool"
  for c :: Config and S :: sp_api and N :: node_api and P :: "('db, 'b) pebble_api"
    and ctxErr :: "go_error option" and e :: int where
  start_pull: "sy_result t = None \<Longrightarrow> sy_next t \<le> e \<Longrightarrow> length (sy_pulling t) < pullLimit c \<Longrightarrow>
     sync_step c S N P ctxErr e t
       (t\<lparr>sy_next := sy_next t + 1, sy_pulling := sy_pulling t @ [sy_next t]\<rparr>)"
| pull_ok: "sy_result t = None \<Longrightarrow> h \<in> set (sy_pulling t) \<Longrightarrow> pullBlock N h = Some (Inr b) \<Longrightarrow>
     length (sy_newBlocks t) < newBlockCap c \<Longrightarrow>
     sync_step c S N P ctxErr e t
       (t\<lparr>sy_pulling := remove1 h (sy_pulling t), sy_newBlocks := sy_newBlocks t @ [b]\<rparr>)"
| pull_err: "sy_result t = None \<Longrightarrow> h \<in> set (sy_pulling t) \<Longrightarrow> pullBlock N h = Some (Inl x) \<Longrightarrow>
     sync_step c S N P ctxErr e t (t\<lparr>sy_result := Some (Inl x)\<rparr>)"
| take_block: "sy_result t = None \<Longrightarrow> sy_newBlocks t = b # bs \<Longrightarrow> length (sy_handling t) < handlers c \<Longrightarrow>
     sync_step c S N P ctxErr e t (t\<lparr>sy_newBlocks := bs, sy_handling := sy_handling t @ [b]\<rparr>)"
| handle_ok: "sy_result t = None \<Longrightarrow> b \<in> set (sy_handling t) \<Longrightarrow> blockRows S b = Inr d \<Longrightarrow>
     length (sy_writer t) < writerCap c \<Longrightarrow>
     sync_step c S N P ctxErr e t
       (t\<lparr>sy_handling := remove1 b (sy_handling t), sy_writer := sy_writer t @ [d]\<rparr>)"
| handle_err: "sy_result t = None \<Longrightarrow> b \<in> set (sy_handling t) \<Longrightarrow> blockRows S b = Inl x \<Longrightarrow>
     sync_step c S N P ctxErr e t (t\<lparr>sy_result := Some (Inl x)\<rparr>)"
| write_ok: "sy_result t = None \<Longrightarrow> sy_writer t = d # ds \<Longrightarrow>
     ApplyBlock P d (sy_store t) = (Inr (), s') \<Longrightarrow>
     sync_step c S N P ctxErr e t
       (t\<lparr>sy_writer := ds, sy_store := s', sy_applied := sy_applied t @ [d]\<rparr>)"
| write_err: "sy_result t = None \<Longrightarrow> sy_writer t = d # ds \<Longrightarrow>
     ApplyBlock P d (sy_store t) = (Inl x, s') \<Longrightarrow>
     sync_step c S N P ctxErr e t (t\<lparr>sy_writer := ds, sy_store := s', sy_result := Some (Inl x)\<rparr>)"
| commit: "sy_result t = None \<Longrightarrow> pending (sy_store t) = xs @ b # ys \<Longrightarrow>
     closeOldBatch P (Some b) (st_DB (sy_store t)) = Inr db' \<Longrightarrow>
     sync_step c S N P ctxErr e t
       (t\<lparr>sy_store := (sy_store t)\<lparr>st_DB := db', pending := xs @ ys\<rparr>\<rparr>)"
| commit_panic: "sy_result t = None \<Longrightarrow> pending (sy_store t) = xs @ b # ys \<Longrightarrow>
     closeOldBatch P (Some b) (st_DB (sy_store t)) = Inl x \<Longrightarrow>
     sync_step c S N P ctxErr e t (t\<lparr>sy_result := Some (Inl x)\<rparr>)"
| report_err: "sy_result t = None \<Longrightarrow> GetChainTip P (sy_store t) = Inl x \<Longrightarrow>
     sync_step c S N P ctxErr e t (t\<lparr>sy_result := Some (Inl x)\<rparr>)"
| finish: "sy_result t = None \<Longrightarrow> writer_done c e t \<Longrightarrow> FlushBatch P True (sy_store t) = (r, s') \<Longrightarrow>
     sync_step c S N P ctxErr e t (t\<lparr>sy_store := s', sy_result := Some r\<rparr>)"
| cancel: "sy_result t = None \<Longrightarrow> ctxErr = Some x \<Longrightarrow>
     sync_step c S N P ctxErr e t (t\<lparr>sy_result := Some (Inl x)\<rparr>)"
| cancel_done: "sy_result t = None \<Longrightarrow> ctxErr = Some x \<Longrightarrow> FlushBatch P True (sy_store t) = (r, s') \<Longrightarrow>
     sync_step c S N P ctxErr e t (t\<lparr>sy_store := s', sy_result := Some r\<rparr>)"

inductive_cases sync_stepE: "sync_step c S N P ctxErr e t t'"

definition SyncBlocks ::
    "Config \<Rightarrow> sp_api \<Rightarrow> node_api \<Rightarrow> ('db, 'b) pebble_api \<Rightarrow> go_error option \<Rightarrow> int \<Rightarrow> int \<Rightarrow>
     ('db, 'b) Store \<Rightarrow> unit res \<Rightarrow> ('db, 'b) Store \<Rightarrow> bool" where
  "SyncBlocks c S N P ctxErr startHeight endHeight s r s' \<longleftrightarrow>
     (if cfg_MaxParallelTweakComputations c < 0
      then r = Inl (Panic ''makechan: size out of range'') \<and> s' = s
      else \<exists>t. (sync_step c S N P ctxErr endHeight)\<^sup>*\<^sup>* (sync_start startHeight s) t \<and>
          sy_result t = Some r \<and> sy_store t = s')"

section \<open>Initial sync, gap repair and continuous sync\<close>

text \<open>The first height of the initial sync, computed as an \<open>int64\<close>.\<close>

definition initialStart :: "Config \<Rightarrow> u32 \<Rightarrow> int" where
  "initialStart c syncTip = uint (max syncTip (cfg_SyncStartHeight c)) + 1"

inductive InitialSyncToTip ::
    "Config \<Rightarrow> sp_api \<Rightarrow> node_api \<Rightarrow> ('db, 'b) pebble_api \<Rightarrow> go_error option \<Rightarrow>
     ('db, 'b) Store \<Rightarrow> unit res \<Rightarrow> ('db, 'b) Store \<Rightarrow> bool"
  for c S N P ctxErr where
  tip_err: "GetChainTip P s = Inl e \<Longrightarrow> InitialSyncToTip c S N P ctxErr s (Inl e) s"
| info_err: "GetChainTip P s = Inr (h, syncTip) \<Longrightarrow> nd_Blocks N = Inl e \<Longrightarrow>
     InitialSyncToTip c S N P ctxErr s (Inl e) s"
| sync: "GetChainTip P s = Inr (h, syncTip) \<Longrightarrow> nd_Blocks N = Inr blocks \<Longrightarrow>
     SyncBlocks c S N P ctxErr (initialStart c syncTip) blocks s r s' \<Longrightarrow>
     InitialSyncToTip c S N P ctxErr s r s'"

text \<open>The loop of \<open>DBIntegrityCheck\<close> over the gaps.\<close>

inductive fillGaps ::
    "Config \<Rightarrow> sp_api \<Rightarrow> node_api \<Rightarrow> ('db, 'b) pebble_api \<Rightarrow> go_error option \<Rightarrow>
     HeightRange list \<Rightarrow> ('db, 'b) Store \<Rightarrow> unit res \<Rightarrow> ('db, 'b) Store \<Rightarrow> bool"
  for c S N P ctxErr where
  no_gap: "fillGaps c S N P ctxErr [] s (Inr ()) s"
| gap_err: "SyncBlocks c S N P ctxErr (uint (hr_Start r)) (uint (hr_End r)) s (Inl e) s' \<Longrightarrow>
     fillGaps c S N P ctxErr (r # rs) s (Inl e) s'"
| gap_ok: "SyncBlocks c S N P ctxErr (uint (hr_Start r)) (uint (hr_End r)) s (Inr ()) s1 \<Longrightarrow>
     fillGaps c S N P ctxErr rs s1 res s' \<Longrightarrow> fillGaps c S N P ctxErr (r # rs) s res s'"

inductive DBIntegrityCheck ::
    "Config \<Rightarrow> sp_api \<Rightarrow> node_api \<Rightarrow> ('db, 'b) pebble_api \<Rightarrow> go_error option \<Rightarrow>
     ('db, 'b) Store \<Rightarrow> unit res \<Rightarrow> ('db, 'b) Store \<Rightarrow> bool"
  for c S N P ctxErr where
  check_tip_err: "GetChainTip P s = Inl e \<Longrightarrow> DBIntegrityCheck c S N P ctxErr s (Inl e) s"
| check_gap_err: "GetChainTip P s = Inr (h, syncTip) \<Longrightarrow>
     identifyGapRanges P s (cfg_SyncStartHeight c) syncTip = Some (Inl e) \<Longrightarrow>
     DBIntegrityCheck c S N P ctxErr s (Inl e) s"
| check_fill_err: "GetChainTip P s = Inr (h, syncTip) \<Longrightarrow>
     identifyGapRanges P s (cfg_SyncStartHeight c) syncTip = Some (Inr ranges) \<Longrightarrow>
     fillGaps c S N P ctxErr ranges s (Inl e) s' \<Longrightarrow> DBIntegrityCheck c S N P ctxErr s (Inl e) s'"
| check_ok: "GetChainTip P s = Inr (h, syncTip) \<Longrightarrow>
     identifyGapRanges P s (cfg_SyncStartHeight c) syncTip = Some (Inr ranges) \<Longrightarrow>
     fillGaps c S N P ctxErr ranges s (Inr ()) s1 \<Longrightarrow> FlushBatch P True s1 = (r, s') \<Longrightarrow>
     DBIntegrityCheck c S N P ctxErr s r s'"

inductive_cases DBIntegrityCheck_okE: "DBIntegrityCheck c S N P ctxErr s (Inr ()) s'"
inductive_cases fillGaps_NilE: "fillGaps c S N P ctxErr [] s r s'"
inductive_cases fillGaps_ConsE: "fillGaps c S N P ctxErr (g # gs) s (Inr ()) s'"

text \<open>The writer of the continuous sync: every block is flushed by itself.\<close>

definition continuousWrite ::
    "('db, 'b) pebble_api \<Rightarrow> DBBlock \<Rightarrow> ('db, 'b) Store \<Rightarrow> unit res \<times> ('db, 'b) Store" where
  "continuousWrite P dbBlock s =
     (case ApplyBlock P dbBlock s of
        (Inl e, s1) \<Rightarrow> (Inl e, s1)
      | (Inr _, s1) \<Rightarrow> FlushBatch P True s1)"

text \<open>
  The continuous sync: the main function waits in its select, or is in
  \<open>SingleBlockPullAndHandle\<close>, about to pull a height or about to look up the predecessor of the
  block it has just sent.  The writer runs beside it; after an error it stays in its send on the
  error channel, which the main function receives in its select only.  The node \<open>N\<close> is the one of
  the step, since its answers change over time.  A tick that finds nothing new changes nothing and
  is no step; the info tick only reports the tip.
\<close>

datatype cont_main = Select | Pull u32 | Check u32 bytes

record ('db, 'b) cont_state =
  cs_main :: cont_main
  cs_writer :: "DBBlock list"
  cs_failed :: "go_error option"
  cs_store :: "('db, 'b) Store"
  cs_applied :: "DBBlock list"
  cs_result :: "unit res option"

definition cont_start :: "('db, 'b) Store \<Rightarrow> ('db, 'b) cont_state" where
  "cont_start s = \<lparr>cs_main = Select, cs_writer = [], cs_failed = None, cs_store = s, cs_applied = [],
     cs_result = None\<rparr>"

inductive cont_step ::
    "Config \<Rightarrow> sp_api \<Rightarrow> ('db, 'b) pebble_api \<Rightarrow> go_error option \<Rightarrow> node_api \<Rightarrow>
     ('db, 'b) cont_state \<Rightarrow> ('db, 'b) cont_state \<Rightarrow> bool"
  for c :: Config and S :: sp_api and P :: "('db, 'b) pebble_api" and ctxErr :: "go_error option"
    and N :: node_api where
  tick: "cs_result t = None \<Longrightarrow> cs_main t = Select \<Longrightarrow> GetChainTip P (cs_store t) = Inr (h, syncTip) \<Longrightarrow>
     nd_Blocks N = Inr blocks \<Longrightarrow> of_int blocks > syncTip \<Longrightarrow>
     cont_step c S P ctxErr N t (t\<lparr>cs_main := Pull (of_int blocks)\<rparr>)"
| tick_tip_err: "cs_result t = None \<Longrightarrow> cs_main t = Select \<Longrightarrow> GetChainTip P (cs_store t) = Inl x \<Longrightarrow>
     cont_step c S P ctxErr N t (t\<lparr>cs_result := Some (Inl x)\<rparr>)"
| tick_info_err: "cs_result t = None \<Longrightarrow> cs_main t = Select \<Longrightarrow>
     GetChainTip P (cs_store t) = Inr (h, syncTip) \<Longrightarrow> nd_Blocks N = Inl x \<Longrightarrow>
     cont_step c S P ctxErr N t (t\<lparr>cs_result := Some (Inl x)\<rparr>)"
| pull_send: "cs_result t = None \<Longrightarrow> cs_main t = Pull h \<Longrightarrow> pullBlock N (uint h) = Some (Inr b) \<Longrightarrow>
     blockRows S b = Inr d \<Longrightarrow> length (cs_writer t) < writerCap c \<Longrightarrow>
     cont_step c S P ctxErr N t
       (t\<lparr>cs_main := Check h (ib_PrevBlockHash b), cs_writer := cs_writer t @ [d]\<rparr>)"
| pull_fail: "cs_result t = None \<Longrightarrow> cs_main t = Pull h \<Longrightarrow> pullBlock N (uint h) = Some (Inl x) \<Longrightarrow>
     cont_step c S P ctxErr N t (t\<lparr>cs_result := Some (Inl x)\<rparr>)"
| rows_fail: "cs_result t = None \<Longrightarrow> cs_main t = Pull h \<Longrightarrow> pullBlock N (uint h) = Some (Inr b) \<Longrightarrow>
     blockRows S b = Inl x \<Longrightarrow> cont_step c S P ctxErr N t (t\<lparr>cs_result := Some (Inl x)\<rparr>)"
| check_known: "cs_result t = None \<Longrightarrow> cs_main t = Check h prev \<Longrightarrow>
     BlockhashInDB P (cs_store t) prev = Inr True \<Longrightarrow>
     cont_step c S P ctxErr N t (t\<lparr>cs_main := Select\<rparr>)"
| check_unknown: "cs_result t = None \<Longrightarrow> cs_main t = Check h prev \<Longrightarrow>
     BlockhashInDB P (cs_store t) prev = Inr False \<Longrightarrow>
     cont_step c S P ctxErr N t (t\<lparr>cs_main := Pull (h - 1)\<rparr>)"
| check_fail: "cs_result t = None \<Longrightarrow> cs_main t = Check h prev \<Longrightarrow>
     BlockhashInDB P (cs_store t) prev = Inl x \<Longrightarrow>
     cont_step c S P ctxErr N t (t\<lparr>cs_result := Some (Inl x)\<rparr>)"
| writer_ok: "cs_result t = None \<Longrightarrow> cs_failed t = None \<Longrightarrow> cs_writer t = d # ds \<Longrightarrow>
     continuousWrite P d (cs_store t) = (Inr (), s') \<Longrightarrow>
     cont_step c S P ctxErr N t
       (t\<lparr>cs_writer := ds, cs_store := s', cs_applied := cs_applied t @ [d]\<rparr>)"
| writer_fail: "cs_result t = None \<Longrightarrow> cs_failed t = None \<Longrightarrow> cs_writer t = d # ds \<Longrightarrow>
     continuousWrite P d (cs_store t) = (Inl x, s') \<Longrightarrow>
     cont_step c S P ctxErr N t (t\<lparr>cs_writer := ds, cs_store := s', cs_failed := Some x\<rparr>)"
| receive: "cs_result t = None \<Longrightarrow> cs_main t = Select \<Longrightarrow> cs_failed t = Some x \<Longrightarrow>
     cont_step c S P ctxErr N t (t\<lparr>cs_result := Some (Inl x)\<rparr>)"
| background: "cs_result t = None \<Longrightarrow> pending (cs_store t) = xs @ b # ys \<Longrightarrow>
     closeOldBatch P (Some b) (st_DB (cs_store t)) = Inr db' \<Longrightarrow>
     cont_step c S P ctxErr N t
       (t\<lparr>cs_store := (cs_store t)\<lparr>st_DB := db', pending := xs @ ys\<rparr>\<rparr>)"
| background_panic: "cs_result t = None \<Longrightarrow> pending (cs_store t) = xs @ b # ys \<Longrightarrow>
     closeOldBatch P (Some b) (st_DB (cs_store t)) = Inl x \<Longrightarrow>
     cont_step c S P ctxErr N t (t\<lparr>cs_result := Some (Inl x)\<rparr>)"
| cancelled: "cs_result t = None \<Longrightarrow> ctxErr = Some x \<Longrightarrow>
     cont_step c S P ctxErr N t (t\<lparr>cs_result := Some (Inl x)\<rparr>)"

text \<open>\<open>ContinuousSync\<close> returns only with an error; the node answers as one of \<open>Ns\<close> at each step.\<close>

definition ContinuousSync ::
    "Config \<Rightarrow> sp_api \<Rightarrow> ('db, 'b) pebble_api \<Rightarrow> go_error option \<Rightarrow> node_api set \<Rightarrow>
     ('db, 'b) Store \<Rightarrow> unit res \<Rightarrow> ('db, 'b) Store \<Rightarrow> bool" where
  "ContinuousSync c S P ctxErr Ns s r s' \<longleftrightarrow>
     (if cfg_MaxParallelTweakComputations c < 0
      then r = Inl (Panic ''makechan: size out of range'') \<and> s' = s
      else \<exists>t. (\<lambda>t t'. \<exists>N \<in> Ns. cont_step c S P ctxErr N t t')\<^sup>*\<^sup>* (cont_start s) t \<and>
           cs_result t = Some r \<and> cs_store t = s')"

end
