(* ===== verification/Sync_Spec.thy ===== *)
theory Sync_Spec
  imports Sync
begin

text \<open>
  Properties of the drivers: pulling a block returns exactly when both requests succeed, following
  the chain backwards sends the missing blocks, and the pipeline of a sync applies every block of
  its interval once, under every schedule of its goroutines, and comes to an end.
\<close>

section \<open>Pulling a block\<close>

text \<open>A goroutine whose request failed never finishes; the main function waits for both.\<close>

definition pull_inv :: "TxOut list list res \<Rightarrow> MsgBlock res \<Rightarrow> pull_state \<Rightarrow> bool" where
  "pull_inv spentRes blockRes s \<longleftrightarrow>
     (pl_spent s = Finished \<longrightarrow> (\<exists>sp. spentRes = Inr sp)) \<and>
     (pl_block s = Finished \<longrightarrow> (\<exists>b. blockRes = Inr b)) \<and>
     (\<forall>e. pl_spent s = Sending e \<longrightarrow> spentRes = Inl e) \<and>
     (\<forall>e. pl_block s = Sending e \<longrightarrow> blockRes = Inl e) \<and>
     (pl_main s \<noteq> Waiting \<longrightarrow> pl_spent s = Finished \<and> pl_block s = Finished) \<and>
     (\<forall>r. pl_main s = Returned r \<longrightarrow> PullBlockData spentRes blockRes = Some r)"

lemma pull_inv_step:
  "pull_step spentRes blockRes s s' \<Longrightarrow> pull_inv spentRes blockRes s \<Longrightarrow> pull_inv spentRes blockRes s'"
  by (cases rule: pull_step.cases) (auto simp: pull_inv_def PullBlockData_def)

lemma pull_inv_reach:
  assumes "(pull_step spentRes blockRes)\<^sup>*\<^sup>* pull_start s"
  shows "pull_inv spentRes blockRes s"
  using assms
  by (induction rule: rtranclp_induct) (auto simp: pull_inv_step, simp add: pull_inv_def pull_start_def)

lemma pull_returns:
  assumes "spentRes = Inr sp" and "blockRes = Inr b"
  shows "\<exists>s. (pull_step spentRes blockRes)\<^sup>*\<^sup>* pull_start s \<and>
    pl_main s = Returned (mergeBlockAndSpentTxOuts b sp)"
proof -
  let ?r = "pull_step spentRes blockRes"
  let ?s1 = "pull_start\<lparr>pl_spent := Finished\<rparr>"
  let ?s2 = "?s1\<lparr>pl_block := Finished\<rparr>"
  let ?s3 = "?s2\<lparr>pl_main := Selecting\<rparr>"
  let ?s4 = "?s3\<lparr>pl_main := Returned (mergeBlockAndSpentTxOuts b sp)\<rparr>"
  have "?r pull_start ?s1" by (rule spent_ok) (simp_all add: pull_start_def assms)
  moreover have "?r ?s1 ?s2" by (rule block_ok) (simp_all add: pull_start_def assms)
  moreover have "?r ?s2 ?s3" by (rule wait_done) (simp_all add: pull_start_def)
  moreover have "?r ?s3 ?s4" by (rule select_default) (simp_all add: pull_start_def assms)
  ultimately have "?r\<^sup>*\<^sup>* pull_start ?s4" by (meson r_into_rtranclp rtranclp_trans)
  then show ?thesis by (intro exI [of _ ?s4]) simp
qed

text \<open>C23. Under every schedule of its two goroutines \<open>PullBlockData\<close> can return a result exactly when
  both requests succeed, and then it returns the merged block.  When a request fails it never
  returns: the goroutine stays in its send on the error channel, and the main function, which
  would receive from it, waits for the goroutine.\<close>

theorem PullBlockData_returns_iff:
  "(\<exists>s. (pull_step spentRes blockRes)\<^sup>*\<^sup>* pull_start s \<and> pl_main s = Returned r) \<longleftrightarrow>
     (\<exists>sp b. spentRes = Inr sp \<and> blockRes = Inr b \<and> r = mergeBlockAndSpentTxOuts b sp)"
proof
  assume "\<exists>s. (pull_step spentRes blockRes)\<^sup>*\<^sup>* pull_start s \<and> pl_main s = Returned r"
  then obtain s where "pull_inv spentRes blockRes s" "pl_main s = Returned r"
    using pull_inv_reach by blast
  then have "PullBlockData spentRes blockRes = Some r" by (simp add: pull_inv_def)
  then show "\<exists>sp b. spentRes = Inr sp \<and> blockRes = Inr b \<and> r = mergeBlockAndSpentTxOuts b sp"
    by (auto simp: PullBlockData_def split: sum.splits)
next
  assume "\<exists>sp b. spentRes = Inr sp \<and> blockRes = Inr b \<and> r = mergeBlockAndSpentTxOuts b sp"
  then show "\<exists>s. (pull_step spentRes blockRes)\<^sup>*\<^sup>* pull_start s \<and> pl_main s = Returned r"
    using pull_returns by blast
qed

section \<open>Following the chain backwards\<close>

lemma Single_step:
  assumes "pullBlock N (uint height) = Some (Inr b)" and "blockRows S b = Inr d"
    and "inDB height (ib_PrevBlockHash b) = Inr known"
  shows "SingleBlockPullAndHandle S N inDB None height ch =
    (if known then Some (Inr (), ch @ [d])
     else SingleBlockPullAndHandle S N inDB None (height - 1) (ch @ [d]))"
  by (subst SingleBlockPullAndHandle.simps) (simp add: assms handleBlock_def)

text \<open>A height above \<open>base\<close> is its successor, or its predecessor is still above \<open>base\<close>.\<close>

lemma height_cases:
  fixes base height :: u32
  assumes "base < height"
  obtains "height = base + 1" "unat height = unat base + 1"
    | "height \<noteq> base + 1" "base < height - 1" "unat (height - 1) = unat height - 1"
proof -
  have lt: "unat base < unat height" using assms by (simp add: word_less_nat_alt)
  then have "height \<noteq> 0" by auto
  then have pred: "unat (height - 1) = unat height - 1" by (rule unat_minus_one)
  have suc: "height = base + 1 \<longleftrightarrow> unat height = unat base + 1"
    using unsigned_less [where 'a = nat, of height]
    by (simp add: word_unat_eq_iff unat_plus_if_size word_size) (use lt in auto)
  show thesis
  proof (cases "height = base + 1")
    case True
    then show thesis using suc that(1) by blast
  next
    case False
    then have "base < height - 1" using suc lt pred by (simp add: word_less_nat_alt)
    then show thesis using False pred that(2) by blast
  qed
qed

text \<open>Following a reorganisation: if the node serves valid blocks above a height \<open>base\<close> and of their
  predecessors only the one at \<open>base\<close> is in the database, the call for a height above \<open>base\<close> ends
  without an error and has sent to the writer the blocks from that height down to the one above
  \<open>base\<close>, each once, newest first, and each of them acceptable to the store.\<close>

theorem reorg_sends_missing_blocks:
  assumes "sp_ok S" and "base < height"
    and "\<And>h. base < h \<Longrightarrow> h \<le> height \<Longrightarrow> pullBlock N (uint h) = Some (Inr (chain h)) \<and>
      valid_iblock S (chain h) \<and> ib_Height (chain h) = uint h \<and>
      inDB h (ib_PrevBlockHash (chain h)) = Inr (h = base + 1)"
  shows "\<exists>blks. SingleBlockPullAndHandle S N inDB None height ch = Some (Inr (), ch @ blks) \<and>
    list_all wf_block blks \<and>
    map (\<lambda>b. (unat (blk_Height b), blk_Hash b)) blks =
      map (\<lambda>n. (n, ib_Hash (chain (of_nat n)))) (rev [unat base + 1..<unat height + 1])"
  using assms(2,3)
proof (induction "unat height" arbitrary: height ch rule: less_induct)
  case less
  have h: "pullBlock N (uint height) = Some (Inr (chain height))" "valid_iblock S (chain height)"
    "ib_Height (chain height) = uint height"
    "inDB height (ib_PrevBlockHash (chain height)) = Inr (height = base + 1)"
    using less.prems(2) [of height] less.prems(1) by auto
  obtain txs where d: "blockRows S (chain height) =
      Inr \<lparr>blk_Height = height, blk_Hash = ib_Hash (chain height), blk_Txs = txs\<rparr>"
    "wf_block \<lparr>blk_Height = height, blk_Hash = ib_Hash (chain height), blk_Txs = txs\<rparr>"
    using blockRows_wf [OF assms(1) h(2)] h(3) by (metis word_of_int_uint)
  let ?d = "\<lparr>blk_Height = height, blk_Hash = ib_Hash (chain height), blk_Txs = txs\<rparr>"
  have step: "SingleBlockPullAndHandle S N inDB None height ch =
    (if height = base + 1 then Some (Inr (), ch @ [?d])
     else SingleBlockPullAndHandle S N inDB None (height - 1) (ch @ [?d]))"
    by (rule Single_step [OF h(1) d(1)]) (rule h(4))
  show ?case using less.prems(1)
  proof (cases rule: height_cases)
    case 1
    then show ?thesis using step d(2) by (intro exI [of _ "[?d]"]) (simp add: add.commute)
  next
    case 2
    have "unat (height - 1) < unat height" "height - 1 \<le> height" and up: "unat (height - 1) + 1 = unat height"
      using 2 less.prems(1) by (simp_all add: word_less_nat_alt word_le_nat_alt)
    then obtain blks where "SingleBlockPullAndHandle S N inDB None (height - 1) (ch @ [?d]) =
          Some (Inr (), (ch @ [?d]) @ blks)" "list_all wf_block blks"
        "map (\<lambda>b. (unat (blk_Height b), blk_Hash b)) blks =
          map (\<lambda>n. (n, ib_Hash (chain (of_nat n)))) (rev [unat base + 1..<unat height])"
      using less.hyps [OF _ 2(2), of "ch @ [?d]", unfolded up] less.prems(2) order_trans by blast
    moreover have "rev [unat base + 1..<unat height + 1] = unat height # rev [unat base + 1..<unat height]"
      using less.prems(1) by (simp add: word_less_nat_alt)
    ultimately show ?thesis using step d(2) 2(1) by (intro exI [of _ "?d # blks"]) simp
  qed
qed

section \<open>The pipeline applies every block once\<close>

text \<open>The block that is stored for a pulled block, and for a height.\<close>

definition rowsOf :: "sp_api \<Rightarrow> IBlock \<Rightarrow> DBBlock option" where
  "rowsOf S b = (case blockRows S b of Inr d \<Rightarrow> Some d | Inl _ \<Rightarrow> None)"

definition indexedAt :: "sp_api \<Rightarrow> node_api \<Rightarrow> int \<Rightarrow> DBBlock option" where
  "indexedAt S N h = (case pullBlock N h of Some (Inr b) \<Rightarrow> rowsOf S b | _ \<Rightarrow> None)"

text \<open>Everything that is under way, as the blocks it stands for.\<close>

definition in_pipeline :: "sp_api \<Rightarrow> node_api \<Rightarrow> ('db, 'b) sync_state \<Rightarrow> DBBlock option multiset" where
  "in_pipeline S N t =
     image_mset (indexedAt S N) (mset (sy_pulling t)) + image_mset (rowsOf S) (mset (sy_newBlocks t)) +
     image_mset (rowsOf S) (mset (sy_handling t)) + image_mset Some (mset (sy_writer t)) +
     image_mset Some (mset (sy_applied t))"

definition sync_inv ::
    "sp_api \<Rightarrow> node_api \<Rightarrow> ('db, 'b) pebble_api \<Rightarrow> 'db \<Rightarrow> DBBlock list \<Rightarrow> int \<Rightarrow> int \<Rightarrow>
     ('db, 'b) sync_state \<Rightarrow> bool" where
  "sync_inv S N P db0 bs0 a e t \<longleftrightarrow>
     a \<le> sy_next t \<and> sy_next t \<le> max a (e + 1) \<and>
     ((\<forall>x. sy_result t \<noteq> Some (Inl x)) \<longrightarrow>
        in_pipeline S N t = image_mset (indexedAt S N) (mset [a..sy_next t - 1]) \<and>
        store_run P db0 (sy_store t) (bs0 @ sy_applied t)) \<and>
     (sy_result t = Some (Inr ()) \<longrightarrow> sync_idle e t)"

lemma image_mset_remove1:
  "x \<in> set xs \<Longrightarrow> image_mset f (mset (remove1 x xs)) + {#f x#} = image_mset f (mset xs)"
  by (metis image_mset_add_mset insert_DiffM mset_remove1 set_mset_mset add_mset_add_single)

lemma upto_snoc: "(a :: int) \<le> n \<Longrightarrow> [a..n] = [a..n - 1] @ [n]"
  by (simp add: upto_rec2)

lemma pipeline_pull:
  assumes "h \<in> set (sy_pulling t)" and "pullBlock N h = Some (Inr b)"
  shows "in_pipeline S N (t\<lparr>sy_pulling := remove1 h (sy_pulling t), sy_newBlocks := sy_newBlocks t @ [b]\<rparr>) =
    in_pipeline S N t"
  using image_mset_remove1 [OF assms(1), of "indexedAt S N"] assms(2)
  by (simp add: in_pipeline_def indexedAt_def [of S N h] ac_simps)

lemma pipeline_handle:
  assumes "b \<in> set (sy_handling t)" and "blockRows S b = Inr d"
  shows "in_pipeline S N (t\<lparr>sy_handling := remove1 b (sy_handling t), sy_writer := sy_writer t @ [d]\<rparr>) =
    in_pipeline S N t"
  using image_mset_remove1 [OF assms(1), of "rowsOf S"] assms(2)
  by (simp add: in_pipeline_def rowsOf_def [of S b] ac_simps)

lemma sync_inv_step:
  assumes "sync_step c S N P None e t t'" and "sync_inv S N P db0 bs0 a e t" and "0 < handlers c"
  shows "sync_inv S N P db0 bs0 a e t'"
  using assms(1)
proof cases
  case start_pull
  then have "[a..sy_next t] = [a..sy_next t - 1] @ [sy_next t]"
    using assms(2) by (intro upto_snoc) (simp add: sync_inv_def)
  then show ?thesis using start_pull assms(2)
    by (auto simp: sync_inv_def in_pipeline_def sync_idle_def)
next
  case (pull_ok h b)
  then show ?thesis using assms(2) pipeline_pull [of h t N b S] by (auto simp: sync_inv_def)
next
  case (handle_ok b d)
  then show ?thesis using assms(2) pipeline_handle [of b t S d N] by (auto simp: sync_inv_def)
next
  case (take_block b bs)
  then show ?thesis using assms(2) by (auto simp: sync_inv_def in_pipeline_def ac_simps)
next
  case (write_ok d ds s')
  then show ?thesis using assms(2) store_run.apply_block [of P db0 "sy_store t" "bs0 @ sy_applied t" d s']
    by (auto simp: sync_inv_def in_pipeline_def ac_simps)
next
  case (commit xs b ys db')
  then show ?thesis
    using assms(2) store_run.background [of P db0 "sy_store t" "bs0 @ sy_applied t" xs b ys db']
    by (auto simp: sync_inv_def in_pipeline_def)
next
  case (finish r s')
  then show ?thesis using assms(2) store_run.flush [of P db0 "sy_store t" "bs0 @ sy_applied t" True s']
    using assms(3) by (cases r) (auto simp: sync_inv_def in_pipeline_def sync_idle_def writer_done_def)
qed (use assms(2) in \<open>auto simp: sync_inv_def\<close>)

lemma sync_inv_start:
  "store_run P db0 s bs0 \<Longrightarrow> sync_inv S N P db0 bs0 a e (sync_start a s)"
  by (simp add: sync_inv_def sync_start_def in_pipeline_def)

lemma sync_inv_reach:
  assumes "(sync_step c S N P None e)\<^sup>*\<^sup>* (sync_start a s) t" and "store_run P db0 s bs0"
    and "0 < handlers c"
  shows "sync_inv S N P db0 bs0 a e t"
  using assms(1) by (induction rule: rtranclp_induct)
    (auto intro: sync_inv_step [OF _ _ assms(3)] sync_inv_start [OF assms(2)])

lemma sync_idle_pipeline:
  assumes "sync_inv S N P db0 bs0 a e t" and "sy_result t = Some (Inr ())"
  shows "image_mset Some (mset (sy_applied t)) = image_mset (indexedAt S N) (mset [a..e])"
proof -
  have idle: "sync_idle e t" "in_pipeline S N t = image_mset (indexedAt S N) (mset [a..sy_next t - 1])"
    using assms by (auto simp: sync_inv_def)
  have "sy_next t - 1 = e \<or> e < a \<and> sy_next t - 1 < a"
    using assms(1) idle(1) by (auto simp: sync_inv_def sync_idle_def max_def split: if_splits)
  then have "[a..sy_next t - 1] = [a..e]" by auto
  then show ?thesis using idle by (simp add: in_pipeline_def sync_idle_def)
qed

lemma SyncBlocks_applies:
  assumes "SyncBlocks c S N P None a e s (Inr ()) s'" and "store_run P db0 s bs0" and "0 < handlers c"
  shows "\<exists>bs. store_run P db0 s' (bs0 @ bs) \<and>
    image_mset Some (mset bs) = image_mset (indexedAt S N) (mset [a..e])"
proof -
  obtain t where t: "(sync_step c S N P None e)\<^sup>*\<^sup>* (sync_start a s) t"
    "sy_result t = Some (Inr ())" "sy_store t = s'"
    using assms(1) by (auto simp: SyncBlocks_def split: if_splits)
  have inv: "sync_inv S N P db0 bs0 a e t" by (rule sync_inv_reach [OF t(1) assms(2,3)])
  then have "store_run P db0 s' (bs0 @ sy_applied t)" using t(2,3) by (auto simp: sync_inv_def)
  then show ?thesis using sync_idle_pipeline [OF inv t(2)] by blast
qed

section \<open>The last flush of a sync\<close>

text \<open>The counter of the batch counts modulo 201: the block that finds the batch full resets it.\<close>

lemma ApplyBlock_counter:
  assumes "ApplyBlock P d s = (Inr (), s')" and "batch_bounds s"
  shows "batchCounter s' = (batchCounter s + 1) mod 201"
proof -
  obtain b0 where "dbBatch s = Some b0" using assms(2) by (auto simp: batch_bounds_def)
  with assms(1) obtain s1 b' where c:
    "if batchCounter s + 1 > batchSize s
     then commitBatch P False (s\<lparr>batchCounter := batchCounter s + 1\<rparr>) = (Inr (), s1)
     else s1 = s\<lparr>batchCounter := batchCounter s + 1\<rparr>"
    "s' = s1\<lparr>dbBatch := Some b'\<rparr>" by (rule ApplyBlock_cases)
  show ?thesis
  proof (cases "batchCounter s + 1 > batchSize s")
    case True
    then have "batchCounter s + 1 = 201" using assms(2) by (simp add: batch_bounds_def)
    moreover have "batchCounter s1 = 0"
      using c(1) True assms(2) by (auto simp: batch_bounds_def elim!: commitBatch_cases split: if_splits)
    ultimately show ?thesis using c(2) by simp
  next
    case False
    then show ?thesis using c assms(2) by (simp add: batch_bounds_def)
  qed
qed

definition sync_count_inv ::
    "('db, 'b) pebble_api \<Rightarrow> 'db \<Rightarrow> DBBlock list \<Rightarrow> int \<Rightarrow> ('db, 'b) sync_state \<Rightarrow> bool" where
  "sync_count_inv P db0 bs0 k t \<longleftrightarrow>
     (let n = (k + int (length (sy_applied t))) mod 201
      in (sy_result t = None \<longrightarrow> batchCounter (sy_store t) = n) \<and>
         (sy_result t = Some (Inr ()) \<longrightarrow> (\<exists>s1. store_run P db0 s1 (bs0 @ sy_applied t) \<and>
            FlushBatch P True s1 = (Inr (), sy_store t) \<and> batchCounter s1 = n)))"

lemma sync_count_step:
  assumes "sync_step c S N P None e t t'" and "sync_inv S N P db0 bs0 a e t"
    and "sync_count_inv P db0 bs0 k t"
  shows "sync_count_inv P db0 bs0 k t'"
proof -
  have open_: "sy_result t = None" using assms(1) by cases auto
  then have run: "store_run P db0 (sy_store t) (bs0 @ sy_applied t)"
    and n: "batchCounter (sy_store t) = (k + int (length (sy_applied t))) mod 201"
    using assms(2,3) by (simp_all add: sync_inv_def sync_count_inv_def Let_def)
  from assms(1) show ?thesis
  proof cases
    case (write_ok d ds s')
    then have "batchCounter s' = (batchCounter (sy_store t) + 1) mod 201"
      by (intro ApplyBlock_counter [OF _ store_run_bounds [OF run]])
    then show ?thesis using write_ok n by (simp add: sync_count_inv_def mod_simps ac_simps)
  next
    case (finish r s')
    then show ?thesis using run n by (auto simp: sync_count_inv_def Let_def)
  qed (use n in \<open>auto simp: sync_count_inv_def Let_def\<close>)
qed

lemma SyncBlocks_flushes:
  assumes "SyncBlocks c S N P None a e s (Inr ()) s'" and "store_run P db0 s bs0" and "0 < handlers c"
  shows "\<exists>s1 bs. store_run P db0 s1 (bs0 @ bs) \<and> FlushBatch P True s1 = (Inr (), s') \<and>
    batchCounter s1 = (batchCounter s + int (length bs)) mod 201 \<and>
    image_mset Some (mset bs) = image_mset (indexedAt S N) (mset [a..e])"
proof -
  obtain t where t: "(sync_step c S N P None e)\<^sup>*\<^sup>* (sync_start a s) t"
    "sy_result t = Some (Inr ())" "sy_store t = s'"
    using assms(1) by (auto simp: SyncBlocks_def split: if_splits)
  have "0 \<le> batchCounter s" "batchCounter s < 201"
    using store_run_bounds [OF assms(2)] by (auto simp: batch_bounds_def)
  then have start: "sync_count_inv P db0 bs0 (batchCounter s) (sync_start a s)"
    by (simp add: sync_count_inv_def sync_start_def)
  have inv: "sync_inv S N P db0 bs0 a e t \<and> sync_count_inv P db0 bs0 (batchCounter s) t"
    using t(1)
  proof (induction rule: rtranclp_induct)
    case base
    then show ?case using start sync_inv_start [OF assms(2)] by blast
  next
    case (step u v)
    then show ?case using sync_inv_step [OF step.hyps(2) _ assms(3)] sync_count_step [OF step.hyps(2)] by metis
  qed
  have "image_mset Some (mset (sy_applied t)) = image_mset (indexedAt S N) (mset [a..e])"
    using sync_idle_pipeline [OF _ t(2)] inv by blast
  then show ?thesis using t(2,3) inv unfolding sync_count_inv_def Let_def by blast
qed

section \<open>The pipeline comes to an end\<close>

lemma commitBatch_pending:
  assumes "commitBatch P sync s = (Inr (), s')" and "\<not> closed s"
  shows "length (pending s') \<le> length (pending s) + (if sync then 0 else 1)"
  by (rule commitBatch_cases [OF assms]) (auto split: if_splits)

lemma ApplyBlock_pending:
  assumes "ApplyBlock P d s = (Inr (), s')" and "batch_bounds s"
  shows "length (pending s') \<le> length (pending s) + 1"
proof -
  obtain b0 where "dbBatch s = Some b0" using assms(2) by (auto simp: batch_bounds_def)
  with assms(1) obtain s1 b' where c:
    "if batchCounter s + 1 > batchSize s
     then commitBatch P False (s\<lparr>batchCounter := batchCounter s + 1\<rparr>) = (Inr (), s1)
     else s1 = s\<lparr>batchCounter := batchCounter s + 1\<rparr>"
    "s' = s1\<lparr>dbBatch := Some b'\<rparr>" by (rule ApplyBlock_cases)
  then show ?thesis
    using commitBatch_pending [of P False "s\<lparr>batchCounter := batchCounter s + 1\<rparr>" s1] assms(2)
    by (auto simp: batch_bounds_def split: if_splits)
qed

lemma FlushBatch_pending:
  assumes "FlushBatch P True s = (Inr (), s')" and "batch_bounds s"
  shows "length (pending s') \<le> length (pending s)"
  using assms commitBatch_pending [of P True s s']
  by (auto simp: FlushBatch_def batch_bounds_def split: if_splits)

definition sync_measure :: "int \<Rightarrow> ('db, 'b) sync_state \<Rightarrow> nat" where
  "sync_measure e t =
     6 * nat (e + 1 - sy_next t) + 5 * length (sy_pulling t) + 4 * length (sy_newBlocks t) +
     3 * length (sy_handling t) + 2 * length (sy_writer t) + length (pending (sy_store t)) +
     (if sy_result t = None then 1 else 0)"

text \<open>An interval that the node serves and whose blocks can be handled and stored.\<close>

definition servable :: "sp_api \<Rightarrow> node_api \<Rightarrow> int \<Rightarrow> int \<Rightarrow> bool" where
  "servable S N a e \<longleftrightarrow> (\<forall>h. a \<le> h \<and> h \<le> e \<longrightarrow> (\<exists>d. indexedAt S N h = Some d \<and> wf_block d))"

lemma pipeline_good:
  assumes "sync_inv S N P db0 bs0 a e t" and "sy_result t = None" and "servable S N a e"
    and "x \<in># in_pipeline S N t"
  shows "\<exists>d. x = Some d \<and> wf_block d"
proof -
  have "x \<in># image_mset (indexedAt S N) (mset [a..sy_next t - 1])" "sy_next t \<le> max a (e + 1)"
    using assms(1,2,4) by (auto simp: sync_inv_def)
  then obtain h where "a \<le> h" "h \<le> sy_next t - 1" "x = indexedAt S N h" by auto
  moreover have "h \<le> e" using calculation \<open>sy_next t \<le> max a (e + 1)\<close> by (auto simp: max_def split: if_splits)
  ultimately show ?thesis using assms(3) by (auto simp: servable_def)
qed

lemma pipeline_mem:
  "h \<in> set (sy_pulling t) \<Longrightarrow> indexedAt S N h \<in># in_pipeline S N t"
  "b \<in> set (sy_newBlocks t) \<Longrightarrow> rowsOf S b \<in># in_pipeline S N t"
  "b \<in> set (sy_handling t) \<Longrightarrow> rowsOf S b \<in># in_pipeline S N t"
  "d \<in> set (sy_writer t) \<Longrightarrow> Some d \<in># in_pipeline S N t"
  "d \<in> set (sy_applied t) \<Longrightarrow> Some d \<in># in_pipeline S N t"
  by (auto simp: in_pipeline_def)

lemma indexedAt_pull: "indexedAt S N h = Some d \<Longrightarrow> \<exists>b. pullBlock N h = Some (Inr b) \<and> blockRows S b = Inr d"
  by (auto simp: indexedAt_def rowsOf_def split: option.splits sum.splits)

context pebble_reliable
begin

lemma store_ApplyBlock:
  assumes "store_run P db0 s bs" and "wf_block d"
  shows "\<exists>s'. ApplyBlock P d s = (Inr (), s')"
  using store_run_bounds [OF assms(1)] ApplyBlock_ok [OF _ assms(2)] by (auto simp: batch_bounds_def)

lemma store_FlushBatch:
  assumes "store_run P db0 s bs"
  shows "\<exists>s'. FlushBatch P True s = (Inr (), s')"
  using store_run_bounds [OF assms] commitBatch_ok [of s _ True] by (auto simp: FlushBatch_def batch_bounds_def)

lemma sync_progress:
  assumes inv: "sync_inv S N P db0 bs0 a e t" and open_: "sy_result t = None" and good: "servable S N a e"
    and "0 < pullLimit c" and "0 < handlers c"
  shows "\<exists>t'. sync_step c S N P ctxErr e t t'"
proof -
  note pg = pipeline_good [OF inv open_ good]
  have run: "store_run P db0 (sy_store t) (bs0 @ sy_applied t)" using inv open_ by (simp add: sync_inv_def)
  consider d ds where "sy_writer t = d # ds" | "sy_writer t = []" "sy_handling t \<noteq> []"
    | b bs where "sy_handling t = []" "sy_newBlocks t = b # bs"
    | "sy_newBlocks t = []" "sy_pulling t \<noteq> []"
    | "sy_pulling t = []" "sy_next t \<le> e" | "sync_idle e t"
    by (cases "sy_writer t"; cases "sy_newBlocks t"; cases "sy_handling t = []"; cases "sy_pulling t = []";
        cases "sy_next t \<le> e") (auto simp: sync_idle_def)
  then show ?thesis
  proof cases
    case 1
    then have "wf_block d" using pg [of "Some d"] pipeline_mem(4) [of d t] by auto
    then obtain s' where "ApplyBlock P d (sy_store t) = (Inr (), s')" using store_ApplyBlock [OF run] by blast
    then show ?thesis using 1 open_ sync_step.write_ok by blast
  next
    case 2
    then obtain b where b: "b \<in> set (sy_handling t)" by (cases "sy_handling t") auto
    then obtain d where "blockRows S b = Inr d"
      using pg [OF pipeline_mem(3) [OF b]] by (auto simp: rowsOf_def split: sum.splits)
    moreover have "length (sy_writer t) < writerCap c" using 2 by (simp add: writerCap_def)
    ultimately show ?thesis using b open_ sync_step.handle_ok by blast
  next
    case 3
    have "length (sy_handling t) < handlers c" using 3 assms(5) by simp
    then show ?thesis using 3(2) open_ sync_step.take_block by blast
  next
    case 4
    then obtain h where h: "h \<in> set (sy_pulling t)" by (cases "sy_pulling t") auto
    then obtain b where "pullBlock N h = Some (Inr b)"
      using pg [OF pipeline_mem(1) [OF h]] indexedAt_pull by blast
    moreover have "length (sy_newBlocks t) < newBlockCap c" using 4 by (simp add: newBlockCap_def)
    ultimately show ?thesis using h open_ sync_step.pull_ok by blast
  next
    case 5
    have "length (sy_pulling t) < pullLimit c" using 5 assms(4) by simp
    then show ?thesis using 5(2) open_ sync_step.start_pull by blast
  next
    case 6
    obtain r s' where "FlushBatch P True (sy_store t) = (r, s')" by fastforce
    moreover have "writer_done c e t" using 6 by (simp add: writer_done_def sync_idle_def)
    ultimately show ?thesis using open_ sync_step.finish by blast
  qed
qed

lemma sync_decreases:
  assumes step: "sync_step c S N P None e t t'" and inv: "sync_inv S N P db0 bs0 a e t"
    and good: "servable S N a e" and bs0: "list_all wf_block bs0" "typed (set (entries db0))"
  shows "sync_measure e t' < sync_measure e t \<and> (\<forall>x. sy_result t' \<noteq> Some (Inl x))"
proof -
  have open_: "sy_result t = None" using step by cases auto
  note pg = pipeline_good [OF inv open_ good]
  have run: "store_run P db0 (sy_store t) (bs0 @ sy_applied t)" using inv open_ by (simp add: sync_inv_def)
  note bb = store_run_bounds [OF run]
  have "list_all wf_block (bs0 @ sy_applied t)"
    using bs0(1) pg [OF pipeline_mem(5)] by (auto simp: list_all_iff)
  then have tip: "\<exists>r. GetChainTip P (sy_store t) = Inr r"
    using GetChainTip_eq [OF store_run_typed [OF run _ bs0(2)]] by blast
  from step show ?thesis
  proof cases
    case (pull_ok h b)
    then have "length (sy_pulling t) = Suc (length (remove1 h (sy_pulling t)))"
      by (metis length_remove1 length_pos_if_in_set Suc_pred')
    then show ?thesis using pull_ok by (simp add: sync_measure_def)
  next
    case (handle_ok b d)
    then have "length (sy_handling t) = Suc (length (remove1 b (sy_handling t)))"
      by (metis length_remove1 length_pos_if_in_set Suc_pred')
    then show ?thesis using handle_ok by (simp add: sync_measure_def)
  next
    case (pull_err h x)
    then show ?thesis using pg [OF pipeline_mem(1), of h] indexedAt_pull [of S N h] by fastforce
  next
    case (handle_err b x)
    then show ?thesis using pg [OF pipeline_mem(3), of b] by (auto simp: rowsOf_def)
  next
    case (write_ok d ds s')
    then show ?thesis using ApplyBlock_pending [OF write_ok(4) bb] by (simp add: sync_measure_def)
  next
    case (write_err d ds x s')
    then show ?thesis using store_ApplyBlock [OF run, of d] pg [OF pipeline_mem(4), of d] by auto
  next
    case (commit_panic xs b ys x)
    then show ?thesis using commit_ok [of "st_DB (sy_store t)" b] by (auto simp: closeOldBatch_def)
  next
    case (report_err x)
    then show ?thesis using tip by simp
  next
    case (finish r s')
    then have "r = Inr ()" using store_FlushBatch [OF run] by auto
    then show ?thesis using finish FlushBatch_pending [OF _ bb, of P s'] by (simp add: sync_measure_def)
  qed (auto simp: sync_measure_def)
qed

lemma sync_reaches_end:
  assumes "(sync_step c S N P None e)\<^sup>*\<^sup>* (sync_start a s) t" and "store_run P db0 s bs0"
    and "list_all wf_block bs0" and "typed (set (entries db0))" and "servable S N a e"
    and "0 < pullLimit c" and "0 < handlers c" and "\<forall>x. sy_result t \<noteq> Some (Inl x)"
  shows "\<exists>t'. (sync_step c S N P None e)\<^sup>*\<^sup>* t t' \<and> sy_result t' = Some (Inr ())"
  using assms(1,8)
proof (induction "sync_measure e t" arbitrary: t rule: less_induct)
  case less
  have inv: "sync_inv S N P db0 bs0 a e t" by (rule sync_inv_reach [OF less.prems(1) assms(2,7)])
  show ?case
  proof (cases "sy_result t")
    case None
    obtain t' where step: "sync_step c S N P None e t t'"
      using sync_progress [OF inv None assms(5-7)] by blast
    note d = sync_decreases [OF step inv assms(5,3,4)]
    obtain u where "(sync_step c S N P None e)\<^sup>*\<^sup>* t' u" "sy_result u = Some (Inr ())"
      using less.hyps [of t'] d less.prems(1) step by (meson rtranclp.rtrancl_into_rtrancl)
    then show ?thesis using step by (meson converse_rtranclp_into_rtranclp)
  next
    case (Some r)
    then show ?thesis using less.prems(2) by (cases r) auto
  qed
qed

lemma sync_no_error:
  assumes "(sync_step c S N P None e)\<^sup>*\<^sup>* (sync_start a s) t" and "store_run P db0 s bs0"
    and "list_all wf_block bs0" and "typed (set (entries db0))" and "servable S N a e" and "0 < handlers c"
  shows "\<forall>x. sy_result t \<noteq> Some (Inl x)"
  using assms(1)
proof (cases rule: rtranclp.cases)
  case rtrancl_refl
  then show ?thesis by (simp add: sync_start_def)
next
  case (rtrancl_into_rtrancl u)
  then show ?thesis using sync_decreases [OF _ sync_inv_reach [OF _ assms(2,6)] assms(5,3,4)] by blast
qed

lemma SyncBlocks_ok:
  assumes "store_run P db0 s bs0" and "list_all wf_block bs0" and "typed (set (entries db0))"
    and "servable S N a e" and "0 < pullLimit c" and "0 < cfg_MaxParallelTweakComputations c"
  shows "\<exists>s'. SyncBlocks c S N P None a e s (Inr ()) s'"
  using sync_reaches_end [OF rtranclp.rtrancl_refl assms(1-5)] assms(6)
  by (auto simp: SyncBlocks_def sync_start_def handlers_def)

end

section \<open>What the database holds after a sync\<close>

text \<open>The blocks of an interval, and the conditions of a chain: hashes are not repeated, and a
  transaction that is in two blocks has the same entries in both.\<close>

definition chain_blocks :: "sp_api \<Rightarrow> node_api \<Rightarrow> int \<Rightarrow> int \<Rightarrow> DBBlock list" where
  "chain_blocks S N a e = map (\<lambda>h. the (indexedAt S N h)) [a..e]"

definition proper_chain :: "DBBlock list \<Rightarrow> bool" where
  "proper_chain bs \<longleftrightarrow> single (all_puts bs) \<and> same_tweaks bs \<and> distinct (map blk_Hash bs)"

lemma chain_blocks_Some:
  assumes "servable S N a e"
  shows "map Some (chain_blocks S N a e) = map (indexedAt S N) [a..e]" "list_all wf_block (chain_blocks S N a e)"
  using assms by (auto simp: chain_blocks_def servable_def list_all_iff)

lemma indexedAt_height: "indexedAt S N h = Some d \<Longrightarrow> blk_Height d = of_int h"
  by (auto simp: indexedAt_def rowsOf_def blockRows_def pullBlock_def bindR_Inr_iff
      split: option.splits sum.splits)

lemma inj_image_Some: "image_mset Some A = image_mset Some B \<Longrightarrow> A = B"
  by (metis inj_Some multiset.inj_map_strong option.inject)

lemma all_puts_mset: "set bs = set bs' \<Longrightarrow> all_puts bs = all_puts bs'"
  by (simp add: all_puts_def)

context pebble_reliable
begin

lemma sync_holds:
  assumes "SyncBlocks c S N P None a e (NewStore P db0) (Inr ()) s'"
    and "0 < cfg_MaxParallelTweakComputations c" and "entries db0 = []" and "servable S N a e"
    and "single (all_puts (chain_blocks S N a e))" and "int (length [a..e]) mod 201 \<noteq> 0"
    and "WaitForPendingCommits P s' = (Inr (), s2)"
  shows "holds_blocks (entries (st_DB s2)) (chain_blocks S N a e)"
proof -
  obtain s1 bs where s1: "store_run P db0 s1 bs" "FlushBatch P True s1 = (Inr (), s')"
    "batchCounter s1 = int (length bs) mod 201"
    "image_mset Some (mset bs) = image_mset (indexedAt S N) (mset [a..e])"
    using SyncBlocks_flushes [OF assms(1) store_run.start] assms(2)
    by (auto simp: handlers_def NewStore_def)
  have "image_mset Some (mset bs) = image_mset Some (mset (chain_blocks S N a e))"
    using s1(4) chain_blocks_Some(1) [OF assms(4)] by (metis mset_map)
  then have eq: "mset bs = mset (chain_blocks S N a e)" by (rule inj_image_Some)
  then have sets: "set bs = set (chain_blocks S N a e)" "length bs = length [a..e]"
    by (metis set_mset_mset, metis size_mset length_map chain_blocks_def)
  have wf: "list_all wf_block bs" using chain_blocks_Some(2) [OF assms(4)] sets(1) by (simp add: list_all_iff)
  have "set (entries (st_DB s2)) = all_puts bs"
    using flush_wait [OF s1(1) wf] assms(3,5,6,7) s1(2,3) sets all_puts_mset [OF sets(1)] by auto
  then show ?thesis using chain_blocks_Some(2) [OF assms(4)] entries_sorted all_puts_mset [OF sets(1)]
    by (simp add: holds_blocks_def)
qed

end

section \<open>Gap repair\<close>

text \<open>The heights of the ranges, and the block that is stored for each of them.\<close>

lemma fillGaps_applies:
  assumes "fillGaps c S N P None rs s (Inr ()) s'" and "store_run P db0 s bs0" and "0 < handlers c"
  shows "\<exists>bs. store_run P db0 s' (bs0 @ bs) \<and>
    Some ` set bs = indexedAt S N ` (\<Union>r \<in> set rs. {uint (hr_Start r)..uint (hr_End r)})"
  using assms(1,2)
proof (induction rs arbitrary: s bs0)
  case Nil
  then show ?case by (auto elim!: fillGaps_NilE intro: exI [of _ "[]"])
next
  case (Cons r rs)
  obtain s1 where s1: "SyncBlocks c S N P None (uint (hr_Start r)) (uint (hr_End r)) s (Inr ()) s1"
    "fillGaps c S N P None rs s1 (Inr ()) s'" using Cons.prems(1) by (rule fillGaps_ConsE)
  obtain b1 where b1: "store_run P db0 s1 (bs0 @ b1)"
    "image_mset Some (mset b1) = image_mset (indexedAt S N) (mset [uint (hr_Start r)..uint (hr_End r)])"
    using SyncBlocks_applies [OF s1(1) Cons.prems(2) assms(3)] by blast
  obtain b2 where b2: "store_run P db0 s' ((bs0 @ b1) @ b2)"
    "Some ` set b2 = indexedAt S N ` (\<Union>r \<in> set rs. {uint (hr_Start r)..uint (hr_End r)})"
    using Cons.IH [OF s1(2) b1(1)] by blast
  have "Some ` set b1 = indexedAt S N ` {uint (hr_Start r)..uint (hr_End r)}"
    using arg_cong [OF b1(2), of set_mset] by simp
  then show ?case using b2 by (intro exI [of _ "b1 @ b2"]) (simp add: image_Un)
qed

lemma covered_heights:
  "(\<Union>r \<in> set rs. {uint (hr_Start r)..uint (hr_End r)}) = uint ` {n. covered rs n}"
proof
  show "(\<Union>r \<in> set rs. {uint (hr_Start r)..uint (hr_End r)}) \<subseteq> uint ` {n. covered rs n}"
  proof
    fix h assume "h \<in> (\<Union>r \<in> set rs. {uint (hr_Start r)..uint (hr_End r)})"
    then obtain r where r: "r \<in> set rs" "uint (hr_Start r) \<le> h" "h \<le> uint (hr_End r)" by auto
    have "0 \<le> h" "h < 2 ^ 32" using r(2,3) unsigned_greater_eq [of "hr_Start r"] uint_lt2p [of "hr_End r"]
      by (auto intro: order_trans le_less_trans)
    then have "uint (word_of_int h :: u32) = h" by (simp add: uint_word_of_int)
    then show "h \<in> uint ` {n. covered rs n}" using r
      by (intro image_eqI [of _ _ "word_of_int h"]) (auto simp: covered_def word_le_def)
  qed
qed (auto simp: covered_def word_le_def)

lemma servable_rows:
  assumes "servable S N a e" and "Some d \<in> indexedAt S N ` {a..e}"
  shows "wf_block d"
proof -
  obtain h where h: "a \<le> h \<and> h \<le> e" "Some d = indexedAt S N h" using assms(2) by (elim imageE) simp
  obtain d' where "indexedAt S N h = Some d'" "wf_block d'" using assms(1) h(1) unfolding servable_def by blast
  then show ?thesis using h(2) by simp
qed

context pebble_reliable
begin

lemma fillGaps_ok:
  assumes "store_run P db0 s bs0" and "list_all wf_block bs0" and "typed (set (entries db0))"
    and "\<forall>r \<in> set rs. servable S N (uint (hr_Start r)) (uint (hr_End r))"
    and "0 < pullLimit c" and "0 < cfg_MaxParallelTweakComputations c"
  shows "\<exists>s'. fillGaps c S N P None rs s (Inr ()) s'"
  using assms(1,2,4)
proof (induction rs arbitrary: s bs0)
  case Nil
  then show ?case by (blast intro: fillGaps.no_gap)
next
  case (Cons r rs)
  have sv: "servable S N (uint (hr_Start r)) (uint (hr_End r))" using Cons.prems(3) by simp
  obtain s1 where s1: "SyncBlocks c S N P None (uint (hr_Start r)) (uint (hr_End r)) s (Inr ()) s1"
    using SyncBlocks_ok [OF Cons.prems(1,2) assms(3) sv assms(5,6)] by blast
  obtain b1 where b1: "store_run P db0 s1 (bs0 @ b1)"
    "image_mset Some (mset b1) = image_mset (indexedAt S N) (mset [uint (hr_Start r)..uint (hr_End r)])"
    using SyncBlocks_applies [OF s1 Cons.prems(1)] assms(6) by (auto simp: handlers_def)
  have "Some ` set b1 = indexedAt S N ` {uint (hr_Start r)..uint (hr_End r)}"
    using arg_cong [OF b1(2), of set_mset] by simp
  then have "\<forall>d \<in> set b1. Some d \<in> indexedAt S N ` {uint (hr_Start r)..uint (hr_End r)}" by blast
  then have "\<forall>d \<in> set b1. wf_block d" using servable_rows [OF sv] by blast
  then have "list_all wf_block (bs0 @ b1)" using Cons.prems(2) by (auto simp: list_all_iff)
  then obtain s' where "fillGaps c S N P None rs s1 (Inr ()) s'"
    using Cons.IH [OF b1(1)] Cons.prems(3) by auto
  then show ?case using s1 fillGaps.gap_ok by blast
qed

end

section \<open>An example\<close>

text \<open>A node with a chain of one-transaction blocks: the block at a height below 255 has that byte,
  32 times, as its hash, and one taproot output.\<close>

definition x_node :: node_api where
  "x_node = \<lparr>nd_Blocks = Inr 9, nd_BlockHash = (\<lambda>h. Inr (replicate 32 (of_int h))),
     nd_SpentUtxos = (\<lambda>bh. Inr [[]]),
     nd_BlockByHash = (\<lambda>bh. Inr \<lparr>mb_Hash = bh, mb_PrevBlock = replicate 32 (hd bh - 1),
       mb_Transactions = [\<lparr>mtx_Hash = bh, mtx_TxIn = [],
         mtx_TxOut = [\<lparr>to_Value = 4, to_PkScript = x_script 8\<rparr>]\<rparr>]\<rparr>)\<rparr>"

definition x_chain :: "int \<Rightarrow> IBlock" where
  "x_chain h = \<lparr>ib_Height = h, ib_Hash = replicate 32 (of_int h), ib_PrevBlockHash = replicate 32 (of_int h - 1),
     ib_txs = [\<lparr>itx_txid = replicate 32 (of_int h), itx_ins = [],
       itx_outs = [\<lparr>to_Value = 4, to_PkScript = x_script 8\<rparr>]\<rparr>]\<rparr>"

lemma x_pull: "pullBlock x_node h = Some (Inr (x_chain h))"
  by (simp add: pullBlock_def PullBlockData_def x_node_def x_chain_def mergeBlockAndSpentTxOuts_def mergeTx_def)

lemma of_int_byte_eq:
  assumes "0 \<le> h" "h < 256" "0 \<le> k" "k < 256"
  shows "(of_int h :: byte) = of_int k \<longleftrightarrow> h = k"
proof
  assume "(of_int h :: byte) = of_int k"
  then have "uint (of_int h :: byte) = uint (of_int k :: byte)" by simp
  then show "h = k" using assms by (simp add: uint_word_of_int)
qed simp

lemma x_chain_valid: "0 \<le> h \<Longrightarrow> h < 255 \<Longrightarrow> valid_iblock x_sp (x_chain h)"
  using of_int_byte_eq [of h 255]
  by (simp add: valid_iblock_def valid_itx_def hash_ok_def x_chain_def replicate_eq_replicate)

lemma x_servable:
  assumes "0 \<le> a" and "e < 255"
  shows "servable x_sp x_node a e"
  unfolding servable_def
proof (intro allI impI)
  fix h assume "a \<le> h \<and> h \<le> e"
  then have v: "valid_iblock x_sp (x_chain h)" using assms by (intro x_chain_valid) auto
  obtain d where "blockRows x_sp (x_chain h) = Inr d" "wf_block d" by (rule blockRows_wf [OF x_sp_ok v])
  then show "\<exists>d. indexedAt x_sp x_node h = Some d \<and> wf_block d"
    by (simp add: indexedAt_def rowsOf_def x_pull)
qed

lemma x_config: "0 < pullLimit (initialConfig 4)" "0 < cfg_MaxParallelTweakComputations (initialConfig 4)"
  by (simp_all add: initialConfig_def pullLimit_def Let_def)

text \<open>A node that has one block, the example block of the indexer, at height 10.\<close>

definition x_block :: DBBlock where
  "x_block = \<lparr>blk_Height = 10, blk_Hash = replicate 32 4, blk_Txs = [Some
     \<lparr>tx_Txid = replicate 32 3, tx_Tweak = tx_tweak x_sp x_itx,
      tx_Outs = p2tr_outputs x_sp x_itx, tx_Ins = p2tr_inputs x_sp x_itx\<rparr>]\<rparr>"

lemma x_rows: "blockRows x_sp x_iblock = Inr x_block"
  using handleTx_eq [OF x_sp_ok x_itx_valid]
  by (simp add: blockRows_def x_iblock_def x_block_def p2tr_outputs_def x_sp_def x_itx_def x_script_def)

definition x_node1 :: node_api where
  "x_node1 = \<lparr>nd_Blocks = Inr 10, nd_BlockHash = (\<lambda>h. Inr (replicate 32 4)),
     nd_SpentUtxos = (\<lambda>bh. Inr [map vin_prevOut (itx_ins x_itx)]),
     nd_BlockByHash = (\<lambda>bh. Inr \<lparr>mb_Hash = bh, mb_PrevBlock = replicate 32 5,
       mb_Transactions = [\<lparr>mtx_Hash = replicate 32 3, mtx_TxIn = map vin_txIn (itx_ins x_itx),
         mtx_TxOut = itx_outs x_itx\<rparr>]\<rparr>)\<rparr>"

lemma x_pull1: "pullBlock x_node1 10 = Some (Inr x_iblock)"
  by (simp add: pullBlock_def PullBlockData_def x_node1_def mergeBlockAndSpentTxOuts_def mergeTx_def
      x_iblock_def x_itx_def)

lemma x_at: "indexedAt x_sp x_node1 10 = Some x_block"
  by (simp add: indexedAt_def x_pull1 rowsOf_def x_rows)

lemma x_block_wf: "wf_block x_block"
  by (rule blockRows_wf [OF x_sp_ok x_iblock_valid]) (use x_rows in simp)

lemma x_servable1: "servable x_sp x_node1 10 10"
  using x_at x_block_wf by (auto simp: servable_def)

lemma x_chain1: "chain_blocks x_sp x_node1 10 10 = [x_block]"
  by (simp add: chain_blocks_def x_at)

lemma x_p2tr:
  "p2tr_outputs x_sp x_itx = [\<lparr>out_Txid = replicate 32 3, out_Vout = 0, out_Amount = 4, out_Pubkey = replicate 32 8\<rparr>]"
  "p2tr_inputs x_sp x_itx =
     [\<lparr>in_SpendTxid = replicate 32 3, in_Idx = 0, in_PrevTxid = replicate 32 2, in_PrevVout = 0,
       in_Pubkey = Some (replicate 32 7)\<rparr>,
      \<lparr>in_SpendTxid = replicate 32 3, in_Idx = 1, in_PrevTxid = replicate 32 1, in_PrevVout = 0,
       in_Pubkey = Some (replicate 32 7)\<rparr>]"
  by (simp_all add: p2tr_outputs_def p2tr_inputs_def x_sp_def x_itx_def x_vin_def x_script_def)

lemma x_proper: "proper_chain [x_block]"
proof -
  have "single (set (map enc_put (block_puts x_block)))"
  proof (rule single_enc_puts)
    show "list_all (\<lambda>p. wf_key (fst p)) (block_puts x_block)" "distinct (map fst (block_puts x_block))"
      by (cases "tx_tweak x_sp x_itx"; simp add: x_block_def x_p2tr block_puts_def block_txs_def tx_puts_def in_put_def
        tweak_puts_def out_put_def block_outpoints_def replicate_eq_replicate)+
  qed
  then show ?thesis
    by (simp add: proper_chain_def all_puts_def same_tweaks_def block_txs_def x_block_def)
qed

section \<open>Properties of the drivers\<close>

theorem reorg_sends_missing_blocks_witness:
  "\<exists>blks. SingleBlockPullAndHandle x_sp x_node (\<lambda>h _. Inr (h = 5)) None 6 [] = Some (Inr (), blks) \<and>
     map (\<lambda>b. (unat (blk_Height b), blk_Hash b)) blks = [(6, replicate 32 6), (5, replicate 32 5)]"
proof -
  have "pullBlock x_node (uint h) = Some (Inr (x_chain (uint h))) \<and> valid_iblock x_sp (x_chain (uint h)) \<and>
      ib_Height (x_chain (uint h)) = uint h \<and> Inr (h = 5) = Inr (h = 4 + 1)" if "4 < h" "h \<le> 6" for h :: u32
  proof -
    have "uint h \<le> 6" using that(2) by (simp add: word_le_def)
    then show ?thesis by (simp add: x_pull x_chain_valid) (simp add: x_chain_def)
  qed
  then show ?thesis
    using reorg_sends_missing_blocks [OF x_sp_ok, of 4 6 x_node "\<lambda>h. x_chain (uint h)"
        "\<lambda>h _. Inr (h = 5)" "[]"]
    by (auto simp: upt_rec x_chain_def)
qed

text \<open>C8. When a sync of the heights \<open>a\<close> to \<open>e\<close> returns without an error, and its context was not
  cancelled, the store has, after the blocks it had, applied exactly the blocks of these heights,
  each once.  This holds under every schedule of the pullers, the handlers, the writer and the
  background commits; only the order of the blocks depends on it.\<close>

theorem sync_applies_each_block_once:
  assumes "SyncBlocks c S N P None a e s (Inr ()) s'" and "store_run P db0 s bs0"
    and "0 < cfg_MaxParallelTweakComputations c"
  shows "\<exists>bs. store_run P db0 s' (bs0 @ bs) \<and>
    image_mset Some (mset bs) = image_mset (indexedAt S N) (mset [a..e])"
  using SyncBlocks_applies [OF assms(1,2)] assms(3) by (simp add: handlers_def)

theorem sync_applies_each_block_once_witness:
  "\<exists>s' bs. SyncBlocks (initialConfig 4) x_sp x_node mem_pebble None 3 5 (NewStore mem_pebble []) (Inr ()) s' \<and>
     store_run mem_pebble [] s' bs \<and>
     image_mset Some (mset bs) = {#indexedAt x_sp x_node 3, indexedAt x_sp x_node 4, indexedAt x_sp x_node 5#}"
proof -
  have t: "typed (set (mem_entries []))" by (simp add: mem_entries_def typed_def)
  obtain s' where s': "SyncBlocks (initialConfig 4) x_sp x_node mem_pebble None 3 5
      (NewStore mem_pebble []) (Inr ()) s'"
    using mem.SyncBlocks_ok [OF store_run.start _ t x_servable [of 3 5] x_config] by auto
  have "[3..5 :: int] = [3, 4, 5]" by (simp add: upto.simps)
  then show ?thesis
    using sync_applies_each_block_once [OF s' store_run.start x_config(2)] s' by (auto simp: ac_simps)
qed

text \<open>C9. A sync comes to an end: if the node serves the interval and its blocks can be handled, the
  storage engine does not fail and the context is not cancelled, then at every reachable state
  the pipeline is not stuck, every step decreases a measure, no error is returned, and the result
  nil is reached.\<close>

theorem sync_completes:
  assumes "pebble_reliable P entries writes" and "store_run P db0 s bs0" and "list_all wf_block bs0"
    and "typed (set (entries db0))" and "servable S N a e"
    and "0 < pullLimit c" and "0 < cfg_MaxParallelTweakComputations c"
    and "(sync_step c S N P None e)\<^sup>*\<^sup>* (sync_start a s) t"
  shows "(sy_result t = None \<longrightarrow> (\<exists>t'. sync_step c S N P None e t t')) \<and>
    (\<forall>t'. sync_step c S N P None e t t' \<longrightarrow> sync_measure e t' < sync_measure e t) \<and>
    (\<forall>x. sy_result t \<noteq> Some (Inl x)) \<and>
    (\<exists>t'. (sync_step c S N P None e)\<^sup>*\<^sup>* t t' \<and> sy_result t' = Some (Inr ()))"
proof (intro conjI)
  have h: "0 < handlers c" using assms(7) by (simp add: handlers_def)
  note inv = sync_inv_reach [OF assms(8,2) h]
  show "sy_result t = None \<longrightarrow> (\<exists>t'. sync_step c S N P None e t t')"
    using pebble_reliable.sync_progress [OF assms(1) inv _ assms(5,6) h] by blast
  show "\<forall>t'. sync_step c S N P None e t t' \<longrightarrow> sync_measure e t' < sync_measure e t"
    using pebble_reliable.sync_decreases [OF assms(1) _ inv assms(5,3,4)] by blast
  show noerr: "\<forall>x. sy_result t \<noteq> Some (Inl x)"
    by (rule pebble_reliable.sync_no_error [OF assms(1) assms(8,2,3,4,5) h])
  show "\<exists>t'. (sync_step c S N P None e)\<^sup>*\<^sup>* t t' \<and> sy_result t' = Some (Inr ())"
    by (rule pebble_reliable.sync_reaches_end [OF assms(1) assms(8,2,3,4,5,6) h noerr])
qed

theorem sync_completes_witness:
  "\<exists>t. (sync_step (initialConfig 4) x_sp x_node mem_pebble None 5)\<^sup>*\<^sup>*
       (sync_start 3 (NewStore mem_pebble [])) t \<and> sy_result t = Some (Inr ())"
proof -
  have t: "typed (set (mem_entries []))" by (simp add: mem_entries_def typed_def)
  show ?thesis
    using sync_completes [OF mem_reliable store_run.start _ t x_servable x_config rtranclp.rtrancl_refl] by auto
qed

text \<open>C22. The integrity check repairs the index.  Let it run under a context that is not cancelled, with at
  least one worker configured, on an index whose tip exists, has its own entry, is not below the configured
  start height and is not the greatest \<open>uint32\<close>.  When it then returns without an error, the
  blocks it has applied are exactly the blocks of the heights, from the start height to the tip, that had
  no entry in the chain index.  (Under a cancelled context it may return without an error and without
  the blocks: \<open>sync_nil_without_blocks\<close>.)\<close>

theorem integrity_check_fills_gaps:
  assumes "DBIntegrityCheck c S N P None s (Inr ()) s'" and "pebble_reliable P entries writes"
    and "store_run P db0 s bs0" and "0 < cfg_MaxParallelTweakComputations c"
    and "GetChainTip P s = Inr (h, tip)" and "cfg_SyncStartHeight c \<le> tip" and "tip \<noteq> 0xFFFFFFFF"
    and "map_of (entries (st_DB s)) (KeyCIHeight tip) \<noteq> None"
  shows "\<exists>bs. store_run P db0 s' (bs0 @ bs) \<and>
    Some ` set bs = indexedAt S N ` uint ` {n. cfg_SyncStartHeight c \<le> n \<and> n \<le> tip \<and>
      map_of (entries (st_DB s)) (KeyCIHeight n) = None}"
proof -
  obtain rs where rs: "identifyGapRanges P s (cfg_SyncStartHeight c) tip = Some (Inr rs)"
    "\<forall>n. covered rs n \<longleftrightarrow> cfg_SyncStartHeight c \<le> n \<and> n \<le> tip \<and>
       map_of (entries (st_DB s)) (KeyCIHeight n) = None"
    using identifyGapRanges_covers [OF assms(2,6,7,8)] by blast
  obtain s1 where s1: "fillGaps c S N P None rs s (Inr ()) s1" "FlushBatch P True s1 = (Inr (), s')"
    using assms(1) rs(1) assms(5) by (auto elim!: DBIntegrityCheck_okE)
  obtain bs where bs: "store_run P db0 s1 (bs0 @ bs)" "Some ` set bs = indexedAt S N ` uint ` {n. covered rs n}"
    using fillGaps_applies [OF s1(1) assms(3)] assms(4) by (auto simp: handlers_def covered_heights)
  then show ?thesis using rs(2) store_run.flush [OF bs(1) s1(2)] by auto
qed

text \<open>An index that holds the height 6 only, and a configuration that starts at height 4.\<close>

definition x_gap_db :: "kv list" where
  "x_gap_db = [(KeyCIHeight 6, replicate 32 6)]"

lemma x_gap_typed: "typed (set (mem_entries x_gap_db))"
proof -
  have "set (mem_entries x_gap_db) \<subseteq> set (map enc_put [(DCIHeight 6, replicate 32 6)])"
    using set_kv_puts_subset [of "[]" x_gap_db]
    by (simp add: mem_entries_def x_gap_db_def enc_put_def)
  then show ?thesis by (rule typed_subset [OF typed_puts, rotated]) (simp add: wf_put_def)
qed

lemma x_gap_map: "map_of (mem_entries x_gap_db) (KeyCIHeight n) = None \<longleftrightarrow> n \<noteq> 6"
  by (simp add: mem_entries_def map_of_kv_puts x_gap_db_def KeyCIHeight_def)

lemma x_gap_entries: "mem_entries x_gap_db = [(KeyCIHeight 6, replicate 32 6)]"
  by (simp add: mem_entries_def x_gap_db_def)

lemma x_gap_tip: "GetChainTip mem_pebble (NewStore mem_pebble x_gap_db) = Inr (Some (replicate 32 6), 6)"
proof -
  obtain r where r: "GetChainTip mem_pebble (NewStore mem_pebble x_gap_db) = Inr r" "is_tip (mem_entries x_gap_db) r"
    using mem.GetChainTip_eq [of "NewStore mem_pebble x_gap_db"] x_gap_typed by (auto simp: NewStore_def)
  then have "is_tip [(KeyCIHeight 6, replicate 32 6)] r" by (simp add: x_gap_entries)
  moreover have "KeyCIHeight n = KeyCIHeight 6 \<longleftrightarrow> n = 6" for n by (simp add: KeyCIHeight_def)
  ultimately have "r = (Some (replicate 32 6), 6)"
    by (cases r) (auto simp: is_tip_def split: option.splits if_splits)
  then show ?thesis using r(1) by simp
qed

definition x_gap_config :: Config where
  "x_gap_config = (initialConfig 4)\<lparr>cfg_SyncStartHeight := 4\<rparr>"

lemma x_gap_check:
  "\<exists>s'. DBIntegrityCheck x_gap_config x_sp x_node mem_pebble None (NewStore mem_pebble x_gap_db) (Inr ()) s'"
proof -
  let ?s = "NewStore mem_pebble x_gap_db"
  have db: "st_DB ?s = x_gap_db" by (simp add: NewStore_def)
  have cfg: "cfg_SyncStartHeight x_gap_config = 4" "0 < pullLimit x_gap_config"
    "0 < cfg_MaxParallelTweakComputations x_gap_config"
    using x_config by (simp_all add: x_gap_config_def pullLimit_def)
  obtain rs where rs: "identifyGapRanges mem_pebble ?s 4 6 = Some (Inr rs)"
    "\<forall>n. covered rs n \<longleftrightarrow> 4 \<le> n \<and> n \<le> 6 \<and> n \<noteq> 6"
    using identifyGapRanges_covers [OF mem_reliable, of 4 6 ?s] by (auto simp: db x_gap_map)
  have sv: "servable x_sp x_node (uint (hr_Start r)) (uint (hr_End r))" if "r \<in> set rs" for r
  proof (cases "hr_Start r \<le> hr_End r")
    case True
    then have "covered rs (hr_End r)" using that by (auto simp: covered_def)
    then have "uint (hr_End r) \<le> 6" using rs(2) by (simp add: word_le_def)
    then show ?thesis by (intro x_servable) auto
  qed (auto simp: servable_def word_le_def)
  obtain s1 where s1: "fillGaps x_gap_config x_sp x_node mem_pebble None rs ?s (Inr ()) s1"
    using mem.fillGaps_ok [OF store_run.start _ x_gap_typed _ cfg(2,3), of rs x_sp x_node] sv by auto
  obtain bs where "store_run mem_pebble x_gap_db s1 bs"
    using fillGaps_applies [OF s1 store_run.start] cfg(3) by (auto simp: handlers_def)
  then obtain s' where "FlushBatch mem_pebble True s1 = (Inr (), s')" using mem.store_FlushBatch by blast
  then show ?thesis using DBIntegrityCheck.check_ok [OF x_gap_tip _ s1] rs(1) cfg(1) by auto
qed

theorem integrity_check_fills_gaps_witness:
  "\<exists>s' bs. DBIntegrityCheck x_gap_config x_sp x_node mem_pebble None (NewStore mem_pebble x_gap_db) (Inr ()) s' \<and>
     store_run mem_pebble x_gap_db s' bs \<and>
     Some ` set bs = {indexedAt x_sp x_node 4, indexedAt x_sp x_node 5}"
proof -
  let ?s = "NewStore mem_pebble x_gap_db"
  have db: "st_DB ?s = x_gap_db" by (simp add: NewStore_def)
  have cfg: "cfg_SyncStartHeight x_gap_config = 4" "0 < cfg_MaxParallelTweakComputations x_gap_config"
    using x_config by (simp_all add: x_gap_config_def)
  obtain s' where s': "DBIntegrityCheck x_gap_config x_sp x_node mem_pebble None ?s (Inr ()) s'"
    using x_gap_check by blast
  have missing: "{n :: u32. 4 \<le> n \<and> n \<le> 6 \<and> n \<noteq> 6} = {4, 5}"
    by (auto simp: word_le_nat_alt word_unat_eq_iff)
  obtain bs where "store_run mem_pebble x_gap_db s' ([] @ bs)"
    "Some ` set bs = indexedAt x_sp x_node ` uint ` {n. 4 \<le> n \<and> n \<le> (6 :: u32) \<and> n \<noteq> 6}"
    using integrity_check_fills_gaps [OF s' mem_reliable store_run.start cfg(2) x_gap_tip, unfolded cfg(1) db x_gap_map]
    by auto
  then show ?thesis using s' unfolding missing by (intro exI [of _ s'] exI [of _ bs]) simp
qed

text \<open>A sync may return nil without having applied a block: when its context is cancelled, because
  the writer closes the done channel on seeing that and the main function may receive from this
  channel first, and when no handlers are configured, because then the writer's channel is closed at once.\<close>

theorem sync_nil_without_blocks:
  assumes "0 \<le> cfg_MaxParallelTweakComputations c"
    and "ctxErr \<noteq> None \<or> cfg_MaxParallelTweakComputations c = 0"
  shows "SyncBlocks c S N P ctxErr a e (NewStore P db0) (Inr ()) (NewStore P db0)"
proof -
  let ?t = "sync_start a (NewStore P db0)"
  let ?t' = "?t\<lparr>sy_store := NewStore P db0, sy_result := Some (Inr ())\<rparr>"
  have f: "FlushBatch P True (NewStore P db0) = (Inr (), NewStore P db0)"
    by (simp add: FlushBatch_def NewStore_def)
  have "sync_step c S N P ctxErr e ?t ?t'"
  proof (cases ctxErr)
    case None
    then have "writer_done c e ?t" using assms by (simp add: writer_done_def handlers_def sync_start_def)
    then show ?thesis using f by (intro sync_step.finish) (simp_all add: sync_start_def)
  next
    case (Some x)
    then show ?thesis using f by (intro sync_step.cancel_done) (simp_all add: sync_start_def)
  qed
  then show ?thesis unfolding SyncBlocks_def using assms by (auto intro: r_into_rtranclp)
qed

theorem sync_nil_without_blocks_witness:
  "SyncBlocks (initialConfig 4) x_sp x_node mem_pebble (Some (Err ''context canceled'')) 3 5
     (NewStore mem_pebble []) (Inr ()) (NewStore mem_pebble []) \<and>
   SyncBlocks ((initialConfig 4)\<lparr>cfg_MaxParallelTweakComputations := 0\<rparr>) x_sp x_node mem_pebble None 3 5
     (NewStore mem_pebble []) (Inr ()) (NewStore mem_pebble [])"
  by (intro conjI sync_nil_without_blocks) (use x_config(2) in simp_all)

end
