(* ===== verification/Server_Types.thy ===== *)
theory Server_Types
  imports Json
begin

text \<open>
  The response types of the HTTP server (\<open>server/types.go\<close>) with their hand-written JSON, and the
  marshallers these replaced, which \<open>server/types_test.go\<close> keeps as the definition of the wire
  format.  A field of a fixed-size array type is a byte string of that length; a slice that the
  code distinguishes from nil is an option.
\<close>

section \<open>Types\<close>

record BlockIdentifier =
  bid_BlockHash :: bytes
  bid_BlockHeight :: u32

type_synonym TweakSlice = "bytes list"
type_synonym OutputsShort = "bytes list"
type_synonym SpentIndex = "bytes list"
type_synonym SpentOutpoints = "bytes list"

record ComputeIndexItem =
  cii_TxId :: bytes
  cii_Tweak :: bytes
  cii_OutputsShort :: OutputsShort

record UTXOItemLight =
  uil_Vout :: u32
  uil_Amount :: u64
  uil_Pubkey :: bytes

record UTXOItem =
  uti_TxId :: bytes
  uti_Vout :: u32
  uti_Amount :: u64
  uti_Pubkey :: bytes

record FullTxItem =
  fti_TxId :: bytes
  fti_Tweak :: bytes
  fti_Inputs :: SpentOutpoints
  fti_UTXOs :: "UTXOItemLight list option"

record TweakIndexResponse =
  tir_BlockIdentifier :: BlockIdentifier
  tir_Index :: TweakSlice

record ComputeIndexResponse =
  cir_BlockIdentifier :: BlockIdentifier
  cir_Index :: "ComputeIndexItem list option"

record SpentIndexResponse =
  sir_BlockIdentifier :: BlockIdentifier
  sir_Index :: SpentIndex

record FullBlockResponse =
  fbr_BlockIdentifier :: BlockIdentifier
  fbr_Index :: "FullTxItem list option"

text \<open>The anonymous response struct of the UTXO endpoints.\<close>

record UtxoResponse =
  utr_BlockIdentifier :: BlockIdentifier
  utr_Index :: "UTXOItem list option"

section \<open>Writing\<close>

definition appendHexString :: "string \<Rightarrow> bytes \<Rightarrow> string" where
  "appendHexString dst src = ((dst @ [CHR 0x22]) @ EncodeToString src) @ [CHR 0x22]"

text \<open>The loop of \<open>appendHexArray\<close> from element \<open>i\<close> on.\<close>

fun hexArrayLoop :: "string \<Rightarrow> nat \<Rightarrow> bytes list \<Rightarrow> string" where
  "hexArrayLoop dst i [] = dst"
| "hexArrayLoop dst i (x # xs) =
     hexArrayLoop (appendHexString (if i > 0 then dst @ '','' else dst) x) (i + 1) xs"

definition appendHexArray :: "string \<Rightarrow> bytes list \<Rightarrow> string" where
  "appendHexArray dst xs = hexArrayLoop (dst @ ''['') 0 xs @ '']''"

definition TweakSlice_MarshalJSON :: "TweakSlice \<Rightarrow> string" where
  "TweakSlice_MarshalJSON t = appendHexArray [] t"

definition OutputsShort_MarshalJSON :: "OutputsShort \<Rightarrow> string" where
  "OutputsShort_MarshalJSON o' = appendHexArray [] o'"

definition SpentIndex_MarshalJSON :: "SpentIndex \<Rightarrow> string" where
  "SpentIndex_MarshalJSON s = appendHexArray [] s"

definition SpentOutpoints_MarshalJSON :: "SpentOutpoints \<Rightarrow> string" where
  "SpentOutpoints_MarshalJSON s = appendHexArray [] s"

text \<open>A key literal of the code: \<open>{"txid":\<close> or \<open>,"tweak":\<close>.\<close>

definition jkey :: "char \<Rightarrow> string \<Rightarrow> string" where
  "jkey c k = c # quote k @ '':''"

definition ComputeIndexItem_MarshalJSON :: "ComputeIndexItem \<Rightarrow> string" where
  "ComputeIndexItem_MarshalJSON c =
     (let buf = jkey (CHR ''{'') ''txid'';
          buf = appendHexString buf (cii_TxId c);
          buf = buf @ jkey (CHR '','') ''tweak'';
          buf = appendHexString buf (cii_Tweak c);
          buf = buf @ jkey (CHR '','') ''outputs'';
          buf = appendHexArray buf (cii_OutputsShort c)
      in buf @ ''}'')"

definition UTXOItemLight_append :: "UTXOItemLight \<Rightarrow> string \<Rightarrow> string" where
  "UTXOItemLight_append u buf =
     (let buf = buf @ jkey (CHR ''{'') ''vout'';
          buf = buf @ AppendUint (unat (uil_Vout u));
          buf = buf @ jkey (CHR '','') ''amount'';
          buf = buf @ AppendUint (unat (uil_Amount u));
          buf = buf @ jkey (CHR '','') ''pubkey'';
          buf = appendHexString buf (uil_Pubkey u)
      in buf @ ''}'')"

definition UTXOItemLight_MarshalJSON :: "UTXOItemLight \<Rightarrow> string" where
  "UTXOItemLight_MarshalJSON u = UTXOItemLight_append u []"

definition UTXOItem_MarshalJSON :: "UTXOItem \<Rightarrow> string" where
  "UTXOItem_MarshalJSON u =
     (let buf = jkey (CHR ''{'') ''txid'';
          buf = appendHexString buf (uti_TxId u);
          buf = buf @ jkey (CHR '','') ''vout'';
          buf = buf @ AppendUint (unat (uti_Vout u));
          buf = buf @ jkey (CHR '','') ''amount'';
          buf = buf @ AppendUint (unat (uti_Amount u));
          buf = buf @ jkey (CHR '','') ''pubkey'';
          buf = appendHexString buf (uti_Pubkey u)
      in buf @ ''}'')"

fun utxosLoop :: "string \<Rightarrow> nat \<Rightarrow> UTXOItemLight list \<Rightarrow> string" where
  "utxosLoop buf i [] = buf"
| "utxosLoop buf i (u # us) =
     utxosLoop (UTXOItemLight_append u (if i > 0 then buf @ '','' else buf)) (i + 1) us"

definition FullTxItem_MarshalJSON :: "FullTxItem \<Rightarrow> string" where
  "FullTxItem_MarshalJSON f =
     (let buf = jkey (CHR ''{'') ''txid'';
          buf = appendHexString buf (fti_TxId f);
          buf = buf @ jkey (CHR '','') ''tweak'';
          buf = appendHexString buf (fti_Tweak f);
          buf = buf @ jkey (CHR '','') ''inputs'';
          buf = appendHexArray buf (fti_Inputs f);
          buf = buf @ jkey (CHR '','') ''utxos'';
          buf = (case fti_UTXOs f of None \<Rightarrow> buf @ ''null''
                 | Some us \<Rightarrow> utxosLoop (buf @ ''['') 0 us @ '']'')
      in buf @ ''}'')"

text \<open>\<open>BlockIdentifier.MarshalJSON\<close> goes through \<open>json.Marshal\<close>.\<close>

definition BlockIdentifier_json :: "BlockIdentifier \<Rightarrow> json" where
  "BlockIdentifier_json b =
     JObj [(''block_hash'', JStr (EncodeToString (bid_BlockHash b))),
           (''block_height'', JNum (unat (bid_BlockHeight b)))]"

definition BlockIdentifier_MarshalJSON :: "BlockIdentifier \<Rightarrow> string" where
  "BlockIdentifier_MarshalJSON b = Marshal (BlockIdentifier_json b)"

text \<open>
  A response is a struct of two fields, which \<open>encoding/json\<close> writes around the text its field
  marshallers return; a nil slice of structs is \<open>null\<close>.
\<close>

definition response :: "BlockIdentifier \<Rightarrow> string \<Rightarrow> string" where
  "response b index =
     jkey (CHR ''{'') ''block_identifier'' @ BlockIdentifier_MarshalJSON b @
     jkey (CHR '','') ''index'' @ index @ ''}''"

definition array :: "('a \<Rightarrow> string) \<Rightarrow> 'a list option \<Rightarrow> string" where
  "array m xs = (case xs of None \<Rightarrow> ''null'' | Some ys \<Rightarrow> ''['' @ sepBy (map m ys) @ '']'')"

definition TweakIndexResponse_text :: "TweakIndexResponse \<Rightarrow> string" where
  "TweakIndexResponse_text r = response (tir_BlockIdentifier r) (TweakSlice_MarshalJSON (tir_Index r))"

definition ComputeIndexResponse_text :: "ComputeIndexResponse \<Rightarrow> string" where
  "ComputeIndexResponse_text r =
     response (cir_BlockIdentifier r) (array ComputeIndexItem_MarshalJSON (cir_Index r))"

definition SpentIndexResponse_text :: "SpentIndexResponse \<Rightarrow> string" where
  "SpentIndexResponse_text r = response (sir_BlockIdentifier r) (SpentIndex_MarshalJSON (sir_Index r))"

definition FullBlockResponse_text :: "FullBlockResponse \<Rightarrow> string" where
  "FullBlockResponse_text r =
     response (fbr_BlockIdentifier r) (array FullTxItem_MarshalJSON (fbr_Index r))"

definition UtxoResponse_text :: "UtxoResponse \<Rightarrow> string" where
  "UtxoResponse_text r = response (utr_BlockIdentifier r) (array UTXOItem_MarshalJSON (utr_Index r))"

section \<open>The marshallers that were replaced\<close>

definition refHexArray :: "bytes list \<Rightarrow> json" where
  "refHexArray xs = JArr (map (\<lambda>x. JStr (EncodeToString x)) xs)"

definition refComputeIndexItem :: "ComputeIndexItem \<Rightarrow> json" where
  "refComputeIndexItem c =
     JObj [(''txid'', JStr (EncodeToString (cii_TxId c))),
           (''tweak'', JStr (EncodeToString (cii_Tweak c))),
           (''outputs'', refHexArray (cii_OutputsShort c))]"

definition refUTXOItem :: "UTXOItem \<Rightarrow> json" where
  "refUTXOItem u =
     JObj [(''txid'', JStr (EncodeToString (uti_TxId u))), (''vout'', JNum (unat (uti_Vout u))),
           (''amount'', JNum (unat (uti_Amount u))),
           (''pubkey'', JStr (EncodeToString (uti_Pubkey u)))]"

definition refUTXOItemLight :: "UTXOItemLight \<Rightarrow> json" where
  "refUTXOItemLight u =
     JObj [(''vout'', JNum (unat (uil_Vout u))), (''amount'', JNum (unat (uil_Amount u))),
           (''pubkey'', JStr (EncodeToString (uil_Pubkey u)))]"

definition refFullTxItem :: "FullTxItem \<Rightarrow> json" where
  "refFullTxItem f =
     JObj [(''txid'', JStr (EncodeToString (fti_TxId f))),
           (''tweak'', JStr (EncodeToString (fti_Tweak f))),
           (''inputs'', refHexArray (fti_Inputs f)),
           (''utxos'', case fti_UTXOs f of None \<Rightarrow> JNull | Some us \<Rightarrow> JArr (map refUTXOItemLight us))]"

section \<open>Both agree\<close>

lemma appendHexString_eq: "appendHexString dst src = dst @ quote (EncodeToString src)"
  by (simp add: appendHexString_def quote_def)

lemma hexArrayLoop_eq:
  "hexArrayLoop (dst @ sepBy ys) (length ys) xs =
     dst @ sepBy (ys @ map (\<lambda>x. quote (EncodeToString x)) xs)"
proof (induction xs arbitrary: ys)
  case Nil
  then show ?case by simp
next
  case (Cons x xs)
  have "appendHexString (if length ys > 0 then (dst @ sepBy ys) @ '','' else dst @ sepBy ys) x =
      dst @ sepBy (ys @ [quote (EncodeToString x)])"
    by (simp add: appendHexString_eq sepBy_snoc)
  then show ?case using Cons [of "ys @ [quote (EncodeToString x)]"] by simp
qed

lemma appendHexArray_eq: "appendHexArray dst xs = dst @ Marshal (refHexArray xs)"
  using hexArrayLoop_eq [of "dst @ ''[''" "[]" xs]
  by (simp add: appendHexArray_def refHexArray_def comp_def)

lemma UTXOItemLight_append_eq: "UTXOItemLight_append u buf = buf @ Marshal (refUTXOItemLight u)"
  by (simp add: UTXOItemLight_append_def refUTXOItemLight_def appendHexString_eq jkey_def Let_def)

lemma utxosLoop_eq:
  "utxosLoop (buf @ sepBy ys) (length ys) us =
     buf @ sepBy (ys @ map (\<lambda>u. Marshal (refUTXOItemLight u)) us)"
proof (induction us arbitrary: ys)
  case Nil
  then show ?case by simp
next
  case (Cons u us)
  have "UTXOItemLight_append u (if length ys > 0 then (buf @ sepBy ys) @ '','' else buf @ sepBy ys) =
      buf @ sepBy (ys @ [Marshal (refUTXOItemLight u)])"
    by (simp add: UTXOItemLight_append_eq sepBy_snoc)
  then show ?case using Cons [of "ys @ [Marshal (refUTXOItemLight u)]"] by simp
qed

lemma ComputeIndexItem_eq: "ComputeIndexItem_MarshalJSON c = Marshal (refComputeIndexItem c)"
  by (simp add: ComputeIndexItem_MarshalJSON_def refComputeIndexItem_def appendHexString_eq
      appendHexArray_eq jkey_def Let_def)

lemma UTXOItem_eq: "UTXOItem_MarshalJSON u = Marshal (refUTXOItem u)"
  by (simp add: UTXOItem_MarshalJSON_def refUTXOItem_def appendHexString_eq jkey_def Let_def)

lemma FullTxItem_eq: "FullTxItem_MarshalJSON f = Marshal (refFullTxItem f)"
proof (cases "fti_UTXOs f")
  case None
  then show ?thesis
    by (simp add: FullTxItem_MarshalJSON_def refFullTxItem_def appendHexString_eq
        appendHexArray_eq jkey_def Let_def)
next
  case (Some us)
  have "utxosLoop (buf @ ''['') 0 us @ '']'' = buf @ Marshal (JArr (map refUTXOItemLight us))" for buf
    using utxosLoop_eq [of "buf @ ''[''" "[]" us] by (simp add: comp_def)
  then show ?thesis using Some
    by (simp add: FullTxItem_MarshalJSON_def refFullTxItem_def appendHexString_eq
        appendHexArray_eq jkey_def Let_def)
qed

text \<open>A response is the document of its parts.\<close>

definition response_json :: "BlockIdentifier \<Rightarrow> json \<Rightarrow> json" where
  "response_json b index = JObj [(''block_identifier'', BlockIdentifier_json b), (''index'', index)]"

lemma response_eq: "response b (Marshal j) = Marshal (response_json b j)"
  by (simp add: response_def response_json_def BlockIdentifier_MarshalJSON_def jkey_def)

definition array_json :: "('a \<Rightarrow> json) \<Rightarrow> 'a list option \<Rightarrow> json" where
  "array_json j xs = (case xs of None \<Rightarrow> JNull | Some ys \<Rightarrow> JArr (map j ys))"

lemma array_eq: "(\<And>x. m x = Marshal (j x)) \<Longrightarrow> array m xs = Marshal (array_json j xs)"
proof -
  assume "\<And>x. m x = Marshal (j x)"
  then have "m = (\<lambda>x. Marshal (j x))" by (rule ext)
  then show ?thesis by (simp add: array_def array_json_def comp_def split: option.split)
qed

section \<open>Property\<close>

text \<open>C27. The hand-written JSON of every response type is, byte for byte, what \<open>json.Marshal\<close> makes of
  the struct of strings that the previous marshaller built: hexadecimal arrays (tweaks, short
  outputs, spent keys, outpoints), compute-index items, unspent outputs in both forms, full
  transactions with a nil or a non-nil list of outputs, and the block responses around them.\<close>

theorem marshallers_match_reference:
  "TweakSlice_MarshalJSON xs = Marshal (refHexArray xs) \<and>
   OutputsShort_MarshalJSON xs = Marshal (refHexArray xs) \<and>
   SpentIndex_MarshalJSON xs = Marshal (refHexArray xs) \<and>
   SpentOutpoints_MarshalJSON xs = Marshal (refHexArray xs) \<and>
   ComputeIndexItem_MarshalJSON c = Marshal (refComputeIndexItem c) \<and>
   UTXOItem_MarshalJSON u = Marshal (refUTXOItem u) \<and>
   UTXOItemLight_MarshalJSON ul = Marshal (refUTXOItemLight ul) \<and>
   FullTxItem_MarshalJSON f = Marshal (refFullTxItem f) \<and>
   TweakIndexResponse_text tr =
     Marshal (response_json (tir_BlockIdentifier tr) (refHexArray (tir_Index tr))) \<and>
   ComputeIndexResponse_text cr =
     Marshal (response_json (cir_BlockIdentifier cr) (array_json refComputeIndexItem (cir_Index cr))) \<and>
   UtxoResponse_text ur =
     Marshal (response_json (utr_BlockIdentifier ur) (array_json refUTXOItem (utr_Index ur))) \<and>
   FullBlockResponse_text fr =
     Marshal (response_json (fbr_BlockIdentifier fr) (array_json refFullTxItem (fbr_Index fr)))"
  by (simp only: TweakSlice_MarshalJSON_def OutputsShort_MarshalJSON_def SpentIndex_MarshalJSON_def
      SpentOutpoints_MarshalJSON_def appendHexArray_eq ComputeIndexItem_eq UTXOItem_eq FullTxItem_eq
      UTXOItemLight_MarshalJSON_def UTXOItemLight_append_eq TweakIndexResponse_text_def
      ComputeIndexResponse_text_def UtxoResponse_text_def FullBlockResponse_text_def response_eq
      array_eq [of _ refComputeIndexItem, OF ComputeIndexItem_eq]
      array_eq [of _ refUTXOItem, OF UTXOItem_eq] array_eq [of _ refFullTxItem, OF FullTxItem_eq]
      append_Nil simp_thms)

end
