(* ===== verification/Server.thy ===== *)
theory Server
  imports Compute_Index Server_Types Config "HOL-Library.Char_ord"
begin

text \<open>
  The HTTP server (\<open>server/handler.go\<close>, \<open>server/range.go\<close>): the handlers of one block and the
  handlers of a range of blocks, over the \<open>database.DB\<close> interface.  A handler returns the status
  and the body it hands to \<open>c.JSON\<close>; a panic, which the framework turns into a 500 response, is the
  error value.  The range handlers stream their body as text.  Writing to the connection is taken
  to succeed: when a write fails, the handlers return and the client has a prefix of the body.
  \<open>utils.ReverseBytesCopy\<close> and \<open>utils.ReverseBytes\<close> are parameters (\<open>RC\<close>, \<open>RB\<close>).
\<close>

section \<open>The database interface\<close>

text \<open>
  The read operations of \<open>database.DB\<close> that the servers call, in one state of the database.  Rows
  and outputs are never nil pointers, so the nil tests of the handlers always pass.
\<close>

record db_api =
  db_GetChainTip :: "(bytes option \<times> u32) res"
  db_GetBlockHashByHeight :: "u32 \<Rightarrow> bytes option res"
  db_TweaksForBlockAll :: "bytes \<Rightarrow> TweakRow list res"
  db_FetchOutputsAll :: "bytes \<Rightarrow> u32 \<Rightarrow> Output list res"
  db_FetchComputeIndex :: "u32 \<Rightarrow> ComputeIndexTxItem list res"
  db_FetchSpentOutputsShort :: "bytes \<Rightarrow> bytes res"
  db_FetchAllTxidOutpointsForBlock :: "bytes \<Rightarrow> (bytes \<times> bytes list) list res"

definition store_db :: "(bytes \<Rightarrow> bytes) \<Rightarrow> ('db, 'b) pebble_api \<Rightarrow> ('db, 'b) Store \<Rightarrow> db_api" where
  "store_db RB P s = \<lparr>
     db_GetChainTip = GetChainTip P s,
     db_GetBlockHashByHeight = GetBlockHashByHeight P s,
     db_TweaksForBlockAll = TweaksForBlockAll P s,
     db_FetchOutputsAll = FetchOutputsAll P s,
     db_FetchComputeIndex = FetchComputeIndex RB P s,
     db_FetchSpentOutputsShort = FetchSpentOutputsShort P s,
     db_FetchAllTxidOutpointsForBlock = FetchAllTxidOutpointsForBlock P s\<rparr>"

section \<open>Responses\<close>

record InfoResponse =
  inf_Network :: string
  inf_Height :: u32
  inf_TweaksOnly :: bool
  inf_TweaksFullBasic :: bool
  inf_TweaksFullWithDustFilter :: bool
  inf_TweaksCutThroughWithDustFilter :: bool
  inf_MaxRangeBlocks :: u32

datatype http_body =
    BError string
  | BApiError string
  | BInfo InfoResponse
  | BBestHeight u32
  | BHash string
  | BUtxos UtxoResponse
  | BTweaks TweakIndexResponse
  | BSpent SpentIndexResponse
  | BCompute ComputeIndexResponse
  | BFull FullBlockResponse

record http_response =
  http_status :: nat
  http_body :: http_body

definition JSON :: "nat \<Rightarrow> http_body \<Rightarrow> http_response res" where
  "JSON st b = Inr \<lparr>http_status = st, http_body = b\<rparr>"

text \<open>A call of the database: an error is answered, a panic goes on.\<close>

fun orFail :: "'a res \<Rightarrow> http_response res \<Rightarrow> ('a \<Rightarrow> http_response res) \<Rightarrow> http_response res" where
  "orFail (Inl (Panic m)) fl k = Inl (Panic m)"
| "orFail (Inl (Err m)) fl k = fl"
| "orFail (Inr a) fl k = k a"

text \<open>The nil slice is the empty byte string.\<close>

definition nilBytes :: "bytes option \<Rightarrow> bytes" where
  "nilBytes h = (case h of None \<Rightarrow> [] | Some b \<Rightarrow> b)"

definition nilList :: "'a list \<Rightarrow> 'a list option" where
  "nilList xs = (if xs = [] then None else Some xs)"

definition toArray33 :: "bytes \<Rightarrow> bytes res" where
  "toArray33 t =
     (if length t < 33 then Inl (Panic ''cannot convert slice to array'') else Inr (take 33 t))"

definition blockIdentifier :: "(bytes \<Rightarrow> bytes) \<Rightarrow> bytes option \<Rightarrow> u32 \<Rightarrow> BlockIdentifier" where
  "blockIdentifier RC blockhash height =
     \<lparr>bid_BlockHash = RC (nilBytes blockhash), bid_BlockHeight = height\<rparr>"

section \<open>Handlers of one block\<close>

definition GetInfo :: "Config \<Rightarrow> db_api \<Rightarrow> http_response res" where
  "GetInfo c D =
     orFail (db_GetChainTip D) (JSON 500 (BError ''could could not retrieve data from database''))
       (\<lambda>(_, height). bindR (ChainToString (cfg_Chain c)) (\<lambda>network.
         JSON 200 (BInfo \<lparr>inf_Network = network, inf_Height = height,
           inf_TweaksOnly = cfg_TweaksOnly c, inf_TweaksFullBasic = cfg_TweakIndexFullNoDust c,
           inf_TweaksFullWithDustFilter = cfg_TweakIndexFullIncludingDust c,
           inf_TweaksCutThroughWithDustFilter = cfg_TweaksCutThroughWithDust c,
           inf_MaxRangeBlocks = cfg_MaxRangeBlocks c\<rparr>)))"

definition GetBestBlockHeight :: "db_api \<Rightarrow> http_response res" where
  "GetBestBlockHeight D =
     orFail (db_GetChainTip D) (JSON 500 (BError ''could could not retrieve data from database''))
       (\<lambda>(_, height). JSON 200 (BBestHeight height))"

definition server_GetBlockHashByHeight :: "(bytes \<Rightarrow> bytes) \<Rightarrow> db_api \<Rightarrow> string \<Rightarrow> http_response res" where
  "server_GetBlockHashByHeight RC D heightStr =
     (if heightStr = [] then JSON 400 (BError ''block height is required'')
      else orFail (ParseUint heightStr) (JSON 400 (BError ''could not parse block height'')) (\<lambda>height.
           orFail (db_GetBlockHashByHeight D (of_nat height))
             (JSON 500 (BError ''could not fetch block hash'')) (\<lambda>blockhash.
           JSON 200 (BHash (EncodeToString (RC (nilBytes blockhash)))))))"

text \<open>The prologue that the other handlers share: the height and the hash of its block.\<close>

definition withBlock :: "db_api \<Rightarrow> string \<Rightarrow> (u32 \<Rightarrow> bytes option \<Rightarrow> http_response res) \<Rightarrow>
    http_response res" where
  "withBlock D heightStr k =
     (if heightStr = [] then JSON 400 (BApiError ''block height is required'')
      else orFail (ParseUint heightStr) (JSON 400 (BApiError ''could not parse block height'')) (\<lambda>height.
           orFail (db_GetBlockHashByHeight D (of_nat height))
             (JSON 500 (BApiError ''could not fetch block hash'')) (k (of_nat height))))"

definition utxoItem :: "(bytes \<Rightarrow> bytes) \<Rightarrow> Output \<Rightarrow> UTXOItem res" where
  "utxoItem RC o' =
     bindR (toArray32 (RC (out_Txid o'))) (\<lambda>t.
     Inr \<lparr>uti_TxId = t, uti_Vout = out_Vout o', uti_Amount = out_Amount o',
          uti_Pubkey = fit 32 (out_Pubkey o')\<rparr>)"

definition GetUtxos :: "(bytes \<Rightarrow> bytes) \<Rightarrow> db_api \<Rightarrow> string \<Rightarrow> http_response res" where
  "GetUtxos RC D heightStr = withBlock D heightStr (\<lambda>height blockhash.
     orFail (db_GetChainTip D) (JSON 500 (BApiError ''could not fetch chain tip'')) (\<lambda>(_, syncTip).
     orFail (db_FetchOutputsAll D (nilBytes blockhash) syncTip)
       (JSON 500 (BApiError ''could not retrieve data from database'')) (\<lambda>outputs.
     bindR (mapR (utxoItem RC) outputs) (\<lambda>utxoItems.
     JSON 200 (BUtxos \<lparr>utr_BlockIdentifier = blockIdentifier RC blockhash height,
                       utr_Index = nilList utxoItems\<rparr>)))))"

definition GetTweaks :: "(bytes \<Rightarrow> bytes) \<Rightarrow> db_api \<Rightarrow> string \<Rightarrow> http_response res" where
  "GetTweaks RC D heightStr = withBlock D heightStr (\<lambda>height blockhash.
     orFail (db_TweaksForBlockAll D (nilBytes blockhash))
       (JSON 500 (BApiError ''could not retrieve tweaks from database'')) (\<lambda>tweakRows.
     JSON 200 (BTweaks \<lparr>tir_BlockIdentifier = blockIdentifier RC blockhash height,
                        tir_Index = map row_Tweak tweakRows\<rparr>)))"

text \<open>The loop \<open>for i := 0; i+8 <= len(data); i += 8\<close>, as the bytes from position \<open>i\<close> on.\<close>

fun shortsWhile :: "bytes \<Rightarrow> bytes list" where
  "shortsWhile data = (if 8 \<le> length data then fit 8 (take 8 data) # shortsWhile (drop 8 data) else [])"

declare shortsWhile.simps [simp del]

text \<open>The loop \<open>for i := 0; i < len(data); i += 8\<close> with the test \<open>i+8 <= len(data)\<close> in its body.\<close>

fun shortsGuarded :: "bytes \<Rightarrow> bytes list" where
  "shortsGuarded data =
     (if 0 < length data
      then (if 8 \<le> length data then [fit 8 (take 8 data)] else []) @ shortsGuarded (drop 8 data)
      else [])"

declare shortsGuarded.simps [simp del]

definition GetSpentOutputs :: "(bytes \<Rightarrow> bytes) \<Rightarrow> db_api \<Rightarrow> string \<Rightarrow> http_response res" where
  "GetSpentOutputs RC D heightStr = withBlock D heightStr (\<lambda>height blockhash.
     orFail (db_FetchSpentOutputsShort D (nilBytes blockhash))
       (JSON 500 (BApiError ''could not retrieve spent outputs from database'')) (\<lambda>spentOutputsData.
     JSON 200 (BSpent \<lparr>sir_BlockIdentifier = blockIdentifier RC blockhash height,
                       sir_Index = (if length spentOutputsData > 0 then shortsWhile spentOutputsData
                                    else [])\<rparr>)))"

definition computeItem :: "(bytes \<Rightarrow> bytes list) \<Rightarrow> ComputeIndexTxItem \<Rightarrow> ComputeIndexItem res" where
  "computeItem shorts item =
     bindR (toArray32 (cit_Txid item)) (\<lambda>t.
     bindR (toArray33 (cit_Tweak item)) (\<lambda>tw.
     Inr \<lparr>cii_TxId = t, cii_Tweak = tw, cii_OutputsShort = shorts (cit_OutputsShort item)\<rparr>))"

definition GetComputeIndex :: "(bytes \<Rightarrow> bytes) \<Rightarrow> db_api \<Rightarrow> string \<Rightarrow> http_response res" where
  "GetComputeIndex RC D heightStr = withBlock D heightStr (\<lambda>height blockhash.
     orFail (db_FetchComputeIndex D height)
       (JSON 500 (BApiError ''could not retrieve data from database'')) (\<lambda>items.
     bindR (if items = [] then Inr (Some []) else
            bindR (mapR (computeItem shortsGuarded) items) (\<lambda>xs. Inr (nilList xs))) (\<lambda>indexItems.
     JSON 200 (BCompute \<lparr>cir_BlockIdentifier = blockIdentifier RC blockhash height,
                         cir_Index = indexItems\<rparr>))))"

subsection \<open>The full block\<close>

text \<open>
  The maps of the handler: the outputs of a transaction in their order, its tweak (the last row
  wins), and the outpoints it spends.
\<close>

definition outputsOf :: "Output list \<Rightarrow> string \<Rightarrow> Output list" where
  "outputsOf outputs txid = filter (\<lambda>o'. EncodeToString (out_Txid o') = txid) outputs"

definition tweakOf :: "TweakRow list \<Rightarrow> string \<Rightarrow> bytes" where
  "tweakOf rows txid =
     (case map_of (rev (map (\<lambda>r. (EncodeToString (row_Txid r), row_Tweak r)) rows)) txid of
        None \<Rightarrow> replicate 33 0 | Some t \<Rightarrow> t)"

definition inputsOf :: "(bytes \<Rightarrow> bytes) \<Rightarrow> (bytes \<times> bytes list) list \<Rightarrow> bytes \<Rightarrow> bytes list" where
  "inputsOf RB m txid =
     (case map_of m txid of None \<Rightarrow> [] | Some os \<Rightarrow> map (\<lambda>o'. RB (take 32 o') @ drop 32 o') os)"

definition utxoLight :: "Output \<Rightarrow> UTXOItemLight" where
  "utxoLight o' = \<lparr>uil_Vout = out_Vout o', uil_Amount = out_Amount o', uil_Pubkey = fit 32 (out_Pubkey o')\<rparr>"

fun fullItems :: "(bytes \<Rightarrow> bytes) \<Rightarrow> (bytes \<Rightarrow> bytes) \<Rightarrow> Output list \<Rightarrow> TweakRow list \<Rightarrow>
    (bytes \<times> bytes list) list \<Rightarrow> string list \<Rightarrow> FullTxItem list res" where
  "fullItems RC RB outputs rows ops [] = Inr []"
| "fullItems RC RB outputs rows ops (txid # txids) =
     (case DecodeString txid of
        Inl _ \<Rightarrow> fullItems RC RB outputs rows ops txids
      | Inr txidBytes \<Rightarrow>
          bindR (toArray32 (RC (fit 32 txidBytes))) (\<lambda>t.
          bindR (fullItems RC RB outputs rows ops txids) (\<lambda>rest.
          Inr (\<lparr>fti_TxId = t, fti_Tweak = tweakOf rows txid,
                fti_Inputs = inputsOf RB ops (fit 32 txidBytes),
                fti_UTXOs = nilList (map utxoLight (outputsOf outputs txid))\<rparr> # rest))))"

definition sortedTxids :: "Output list \<Rightarrow> string list" where
  "sortedTxids outputs = sort (remdups (map (\<lambda>o'. EncodeToString (out_Txid o')) outputs))"

definition GetFullBlock ::
    "(bytes \<Rightarrow> bytes) \<Rightarrow> (bytes \<Rightarrow> bytes) \<Rightarrow> db_api \<Rightarrow> string \<Rightarrow> http_response res" where
  "GetFullBlock RC RB D heightStr = withBlock D heightStr (\<lambda>height blockhash.
     orFail (db_GetChainTip D) (JSON 500 (BApiError ''could not fetch chain tip'')) (\<lambda>(_, syncTip).
     orFail (db_FetchOutputsAll D (nilBytes blockhash) syncTip)
       (JSON 500 (BApiError ''could not retrieve outputs from database'')) (\<lambda>outputs.
     orFail (db_TweaksForBlockAll D (nilBytes blockhash))
       (JSON 500 (BApiError ''could not retrieve tweaks from database'')) (\<lambda>tweakRows.
     orFail (db_FetchAllTxidOutpointsForBlock D (nilBytes blockhash))
       (JSON 500 (BApiError ''could not retrieve txid-outpoints from database'')) (\<lambda>ops.
     bindR (fullItems RC RB outputs tweakRows ops (sortedTxids outputs)) (\<lambda>items.
     JSON 200 (BFull \<lparr>fbr_BlockIdentifier = blockIdentifier RC blockhash height,
                      fbr_Index = nilList items\<rparr>)))))))"

section \<open>Handlers of a range\<close>

text \<open>\<open>rangeParams\<close> returns the heights, or the response it has already written.\<close>

definition rangeParams :: "u32 \<Rightarrow> string \<Rightarrow> string \<Rightarrow> http_response + (u32 \<times> u32)" where
  "rangeParams maxRange startStr endStr =
     (let bad = (\<lambda>m. Inl \<lparr>http_status = 400, http_body = BApiError m\<rparr>)
      in if startStr = [] \<or> endStr = []
         then bad ''both start and end query parameters are required''
         else case ParseUint startStr of
           Inl _ \<Rightarrow> bad ''could not parse start''
         | Inr s \<Rightarrow> (case ParseUint endStr of
             Inl _ \<Rightarrow> bad ''could not parse end''
           | Inr e \<Rightarrow>
               if e < s then bad ''end must be >= start''
               else if e - s + 1 > unat maxRange
               then bad (''requested range of '' @ AppendUint (e - s + 1) @
                         '' blocks exceeds max_range_blocks of '' @ AppendUint (unat maxRange))
               else Inr (of_nat s, of_nat e)))"

text \<open>
  The loop of \<open>streamBlocks\<close> from height \<open>i\<close> on, with the text written so far.  The counter of the
  code is a \<open>uint64\<close>; the end is below \<open>2^32\<close>, so it does not wrap, and it is a number here.  An
  error leaves the text as it is.
\<close>

function streamFrom :: "db_api \<Rightarrow> (u32 \<Rightarrow> bytes \<Rightarrow> string res) \<Rightarrow> nat \<Rightarrow> nat \<Rightarrow> nat \<Rightarrow> string \<Rightarrow> string" where
  "streamFrom D encode i e written out =
     (if i \<le> e
      then (case db_GetBlockHashByHeight D (of_nat i) of
              Inl _ \<Rightarrow> out
            | Inr None \<Rightarrow> streamFrom D encode (i + 1) e written out
            | Inr (Some blockhash) \<Rightarrow>
                (case encode (of_nat i) blockhash of
                   Inl _ \<Rightarrow> out
                 | Inr payload \<Rightarrow>
                     streamFrom D encode (i + 1) e (written + 1)
                       ((if written > 0 then out @ '','' else out) @ payload @ [CHR 0x0A])))
      else out @ '']}'')"
  by pat_completeness auto
termination by (relation "measure (\<lambda>(_, _, i, e, _, _). Suc e - i)") auto

declare streamFrom.simps [simp del]

definition blocksOpen :: string where
  "blocksOpen = jkey (CHR ''{'') ''blocks'' @ ''[''"

definition streamBlocks :: "db_api \<Rightarrow> u32 \<Rightarrow> u32 \<Rightarrow> (u32 \<Rightarrow> bytes \<Rightarrow> string res) \<Rightarrow> string" where
  "streamBlocks D start e encode = streamFrom D encode (unat start) (unat e) 0 blocksOpen"

text \<open>What a range handler answers: a response of its own, or the status 200 and a stream.\<close>

datatype range_reply = Refused http_response | Streamed string

definition tweaksEntry :: "(bytes \<Rightarrow> bytes) \<Rightarrow> db_api \<Rightarrow> u32 \<Rightarrow> bytes \<Rightarrow> TweakIndexResponse res" where
  "tweaksEntry RC D height blockhash =
     bindR (db_TweaksForBlockAll D blockhash) (\<lambda>tweakRows.
     Inr \<lparr>tir_BlockIdentifier = blockIdentifier RC (Some blockhash) height,
          tir_Index = map row_Tweak tweakRows\<rparr>)"

definition utxosEntry :: "(bytes \<Rightarrow> bytes) \<Rightarrow> db_api \<Rightarrow> u32 \<Rightarrow> u32 \<Rightarrow> bytes \<Rightarrow> UtxoResponse res" where
  "utxosEntry RC D syncTip height blockhash =
     bindR (db_FetchOutputsAll D blockhash syncTip) (\<lambda>outputs.
     bindR (mapR (utxoItem RC) outputs) (\<lambda>utxoItems.
     Inr \<lparr>utr_BlockIdentifier = blockIdentifier RC (Some blockhash) height,
          utr_Index = Some utxoItems\<rparr>))"

definition computeEntry :: "(bytes \<Rightarrow> bytes) \<Rightarrow> db_api \<Rightarrow> u32 \<Rightarrow> bytes \<Rightarrow> ComputeIndexResponse res" where
  "computeEntry RC D height blockhash =
     bindR (db_FetchComputeIndex D height) (\<lambda>items.
     bindR (mapR (computeItem shortsWhile) items) (\<lambda>indexItems.
     Inr \<lparr>cir_BlockIdentifier = blockIdentifier RC (Some blockhash) height,
          cir_Index = Some indexItems\<rparr>))"

definition spentEntry :: "(bytes \<Rightarrow> bytes) \<Rightarrow> db_api \<Rightarrow> u32 \<Rightarrow> bytes \<Rightarrow> SpentIndexResponse res" where
  "spentEntry RC D height blockhash =
     bindR (db_FetchSpentOutputsShort D blockhash) (\<lambda>data.
     Inr \<lparr>sir_BlockIdentifier = blockIdentifier RC (Some blockhash) height,
          sir_Index = shortsWhile data\<rparr>)"

definition textR :: "('a \<Rightarrow> string) \<Rightarrow> 'a res \<Rightarrow> string res" where
  "textR m r = bindR r (\<lambda>x. Inr (m x))"

definition rangeReply :: "u32 \<Rightarrow> db_api \<Rightarrow> string \<Rightarrow> string \<Rightarrow> (u32 \<Rightarrow> bytes \<Rightarrow> string res) \<Rightarrow> range_reply" where
  "rangeReply maxRange D startStr endStr encode =
     (case rangeParams maxRange startStr endStr of
        Inl r \<Rightarrow> Refused r
      | Inr (start, e) \<Rightarrow> Streamed (streamBlocks D start e encode))"

definition GetTweaksRange :: "(bytes \<Rightarrow> bytes) \<Rightarrow> u32 \<Rightarrow> db_api \<Rightarrow> string \<Rightarrow> string \<Rightarrow> range_reply" where
  "GetTweaksRange RC maxRange D startStr endStr =
     rangeReply maxRange D startStr endStr
       (\<lambda>height blockhash. textR TweakIndexResponse_text (tweaksEntry RC D height blockhash))"

definition GetUtxosRange :: "(bytes \<Rightarrow> bytes) \<Rightarrow> u32 \<Rightarrow> db_api \<Rightarrow> string \<Rightarrow> string \<Rightarrow> range_reply res" where
  "GetUtxosRange RC maxRange D startStr endStr =
     (case rangeParams maxRange startStr endStr of
        Inl r \<Rightarrow> Inr (Refused r)
      | Inr (start, e) \<Rightarrow>
          (case db_GetChainTip D of
             Inl (Panic m) \<Rightarrow> Inl (Panic m)
           | Inl (Err m) \<Rightarrow> Inr (Refused \<lparr>http_status = 500,
                                           http_body = BApiError ''could not fetch chain tip''\<rparr>)
           | Inr (_, syncTip) \<Rightarrow> Inr (Streamed (streamBlocks D start e
               (\<lambda>height blockhash. textR UtxoResponse_text (utxosEntry RC D syncTip height blockhash))))))"

definition GetComputeIndexRange :: "(bytes \<Rightarrow> bytes) \<Rightarrow> u32 \<Rightarrow> db_api \<Rightarrow> string \<Rightarrow> string \<Rightarrow> range_reply" where
  "GetComputeIndexRange RC maxRange D startStr endStr =
     rangeReply maxRange D startStr endStr
       (\<lambda>height blockhash. textR ComputeIndexResponse_text (computeEntry RC D height blockhash))"

definition GetSpentOutputsRange :: "(bytes \<Rightarrow> bytes) \<Rightarrow> u32 \<Rightarrow> db_api \<Rightarrow> string \<Rightarrow> string \<Rightarrow> range_reply" where
  "GetSpentOutputsRange RC maxRange D startStr endStr =
     rangeReply maxRange D startStr endStr
       (\<lambda>height blockhash. textR SpentIndexResponse_text (spentEntry RC D height blockhash))"

end
