(* ===== verification/Server_Spec.thy ===== *)
theory Server_Spec
  imports Server
begin

text \<open>
  Properties of the HTTP server: which ranges are accepted, that a streamed response is complete
  or recognisably cut off, that the range endpoints deliver what the endpoints of one block
  deliver, and what a client reads of a block that was indexed.
\<close>

section \<open>Streaming\<close>

text \<open>The entry of a height: skipped, failed, or its text.\<close>

definition entryAt :: "db_api \<Rightarrow> (u32 \<Rightarrow> bytes \<Rightarrow> string res) \<Rightarrow> nat \<Rightarrow> string option res" where
  "entryAt D encode i =
     bindR (db_GetBlockHashByHeight D (of_nat i)) (\<lambda>h.
       case h of None \<Rightarrow> Inr None
       | Some blockhash \<Rightarrow> bindR (encode (of_nat i) blockhash) (\<lambda>t. Inr (Some (t @ [CHR 0x0A]))))"

lemma streamFrom_step:
  "streamFrom D encode i e (length ys) (out @ sepBy ys) =
     (if i \<le> e
      then (case entryAt D encode i of
              Inl _ \<Rightarrow> out @ sepBy ys
            | Inr None \<Rightarrow> streamFrom D encode (i + 1) e (length ys) (out @ sepBy ys)
            | Inr (Some t) \<Rightarrow> streamFrom D encode (i + 1) e (length (ys @ [t])) (out @ sepBy (ys @ [t])))
      else out @ sepBy ys @ '']}'')"
  by (subst streamFrom.simps)
    (auto simp: entryAt_def sepBy_snoc split: sum.splits option.splits)

text \<open>The entries of a range of heights, when none fails.\<close>

definition streamed :: "db_api \<Rightarrow> (u32 \<Rightarrow> bytes \<Rightarrow> string res) \<Rightarrow> nat \<Rightarrow> nat \<Rightarrow> string list" where
  "streamed D encode i e =
     List.map_filter (\<lambda>n. case entryAt D encode n of Inr (Some t) \<Rightarrow> Some t | _ \<Rightarrow> None) [i..<Suc e]"

lemma streamed_Nil: "e < i \<Longrightarrow> streamed D encode i e = []"
  by (simp add: streamed_def map_filter_simps)

lemma streamed_Cons:
  "i \<le> e \<Longrightarrow> streamed D encode i e =
     (case entryAt D encode i of Inr (Some t) \<Rightarrow> [t] | _ \<Rightarrow> []) @ streamed D encode (i + 1) e"
  unfolding streamed_def
  by (subst upt_conv_Cons) (simp_all add: map_filter_simps split: sum.splits option.splits)

lemma streamFrom_complete:
  "\<forall>n. i \<le> n \<and> n \<le> e \<longrightarrow> (\<exists>t. entryAt D encode n = Inr t) \<Longrightarrow>
   streamFrom D encode i e (length ys) (out @ sepBy ys) =
     out @ sepBy (ys @ streamed D encode i e) @ '']}''"
proof (induction "Suc e - i" arbitrary: i ys)
  case 0
  then show ?case by (subst streamFrom_step) (simp add: streamed_Nil)
next
  case (Suc n)
  then have le: "i \<le> e" by simp
  then obtain t where t: "entryAt D encode i = Inr t" using Suc.prems by blast
  have IH: "streamFrom D encode (i + 1) e (length zs) (out @ sepBy zs) =
      out @ sepBy (zs @ streamed D encode (i + 1) e) @ '']}''" for zs
    by (rule Suc.hyps(1)) (use Suc.hyps(2) Suc.prems in auto)
  show ?case
    by (subst streamFrom_step)
      (use le t IH [of ys] IH [of "ys @ [the t]"] in
        \<open>auto simp: streamed_Cons [OF le] split: option.split\<close>)
qed

lemma streamFrom_cut:
  assumes "i \<le> n" and "n \<le> e" and "entryAt D encode n = Inl err"
    and "\<forall>m. i \<le> m \<and> m < n \<longrightarrow> (\<exists>t. entryAt D encode m = Inr t)"
  shows "\<exists>zs. streamFrom D encode i e (length ys) (out @ sepBy ys) = out @ sepBy (ys @ zs) \<and>
    (\<forall>z \<in> set zs. \<exists>m. i \<le> m \<and> m < n \<and> entryAt D encode m = Inr (Some z))"
  using assms
proof (induction "n - i" arbitrary: i ys)
  case 0
  then show ?case by (subst streamFrom_step) (auto intro: exI [of _ "[]"])
next
  case (Suc k)
  then have i: "i < n" "i \<le> e" by simp_all
  then obtain t where t: "entryAt D encode i = Inr t" using Suc.prems(4) by blast
  have IH: "\<exists>zs. streamFrom D encode (i + 1) e (length ws) (out @ sepBy ws) = out @ sepBy (ws @ zs) \<and>
    (\<forall>z \<in> set zs. \<exists>m. i + 1 \<le> m \<and> m < n \<and> entryAt D encode m = Inr (Some z))" for ws
    by (rule Suc.hyps(1)) (use Suc.hyps(2) Suc.prems i in auto)
  show ?case
  proof (cases t)
    case None
    then have "streamFrom D encode i e (length ys) (out @ sepBy ys) =
        streamFrom D encode (i + 1) e (length ys) (out @ sepBy ys)"
      using i t by (subst streamFrom_step) simp
    then show ?thesis using IH [of ys] by (metis add_leD1)
  next
    case (Some z)
    obtain zs where zs: "streamFrom D encode (i + 1) e (length (ys @ [z])) (out @ sepBy (ys @ [z])) =
        out @ sepBy ((ys @ [z]) @ zs)"
      "\<forall>z \<in> set zs. \<exists>m. i + 1 \<le> m \<and> m < n \<and> entryAt D encode m = Inr (Some z)"
      using IH [of "ys @ [z]"] by blast
    have "streamFrom D encode i e (length ys) (out @ sepBy ys) = out @ sepBy (ys @ z # zs)"
      using zs(1) i t Some by (subst streamFrom_step) simp
    moreover have "\<forall>x \<in> set (z # zs). \<exists>m. i \<le> m \<and> m < n \<and> entryAt D encode m = Inr (Some x)"
      using zs(2) i(1) t Some by (auto dest: Suc_leD)
    ultimately show ?thesis by blast
  qed
qed

section \<open>Brackets of the responses\<close>

fun plain_json :: "json \<Rightarrow> bool" where
  "plain_json JNull = True"
| "plain_json (JNum n) = True"
| "plain_json (JStr s) = plain s"
| "plain_json (JArr xs) = list_all plain_json xs"
| "plain_json (JObj fs) = list_all (\<lambda>(k, v). plain k \<and> plain_json v) fs"

lemma balanced_wrap: "c \<noteq> CHR ''{'' \<and> c \<noteq> CHR ''}'' \<Longrightarrow> balanced (c # s) = balanced s"
  by (simp add: balanced_def)

lemma balanced_Marshal: "plain_json j \<Longrightarrow> balanced (Marshal j)"
proof (induction j rule: Marshal.induct)
  case (4 xs)
  then have "balanced (sepBy (map Marshal xs))" by (intro balanced_sepBy) (auto simp: list_all_iff)
  then show ?case by (simp add: balanced_def)
next
  case (5 fs)
  have "balanced (quote k @ CHR '':'' # Marshal v)" if "(k, v) \<in> set fs" for k v
  proof -
    have "plain k \<and> plain_json v" using "5.prems" that by (auto simp: list_all_iff)
    then show ?thesis using "5.IH" [of "(k, v)" k v] that
      by (intro balanced_append) (simp_all add: balanced_wrap plain_balanced)
  qed
  then have "balanced (sepBy (map (\<lambda>(k, v). quote k @ CHR '':'' # Marshal v) fs))"
    by (intro balanced_sepBy) auto
  then show ?case by (simp add: balanced_def)
qed (simp_all add: plain_balanced)

lemma plain_refHexArray [simp]: "plain_json (refHexArray xs)"
  by (simp add: refHexArray_def list_all_iff)

lemma plain_response: "plain_json j \<Longrightarrow> balanced (response b (Marshal j))"
  unfolding response_eq
  by (rule balanced_Marshal) (simp add: response_json_def BlockIdentifier_json_def)

lemma plain_array: "(\<And>x. plain_json (j x)) \<Longrightarrow> plain_json (array_json j xs)"
  by (simp add: array_json_def list_all_iff split: option.split)

lemma balanced_texts:
  "balanced (TweakIndexResponse_text tr)" "balanced (SpentIndexResponse_text sr)"
  "balanced (ComputeIndexResponse_text cr)" "balanced (UtxoResponse_text ur)"
  by (simp_all add: TweakIndexResponse_text_def SpentIndexResponse_text_def
      ComputeIndexResponse_text_def UtxoResponse_text_def TweakSlice_MarshalJSON_def
      SpentIndex_MarshalJSON_def appendHexArray_eq plain_response
      array_eq [of _ refComputeIndexItem, OF ComputeIndexItem_eq] array_eq [of _ refUTXOItem, OF UTXOItem_eq]
      plain_array refComputeIndexItem_def refUTXOItem_def)

text \<open>The four encoders of the range handlers.\<close>

definition rangeEncoders ::
    "(bytes \<Rightarrow> bytes) \<Rightarrow> db_api \<Rightarrow> u32 \<Rightarrow> (u32 \<Rightarrow> bytes \<Rightarrow> string res) set" where
  "rangeEncoders RC D tip =
     {\<lambda>n h. textR TweakIndexResponse_text (tweaksEntry RC D n h),
      \<lambda>n h. textR SpentIndexResponse_text (spentEntry RC D n h),
      \<lambda>n h. textR ComputeIndexResponse_text (computeEntry RC D n h),
      \<lambda>n h. textR UtxoResponse_text (utxosEntry RC D tip n h)}"

lemma encoders_balanced:
  "encode \<in> rangeEncoders RC D tip \<Longrightarrow> encode n h = Inr t \<Longrightarrow> balanced t"
  by (auto simp: rangeEncoders_def textR_def balanced_texts)

lemma entryAt_balanced:
  "encode \<in> rangeEncoders RC D tip \<Longrightarrow> entryAt D encode n = Inr (Some t) \<Longrightarrow> balanced t"
  using encoders_balanced [of encode RC D tip]
  by (fastforce simp: entryAt_def balanced_def split: option.splits)

lemma streamed_mem:
  "t \<in> set (streamed D encode i e) \<Longrightarrow> \<exists>n. entryAt D encode n = Inr (Some t)"
  by (auto simp: streamed_def map_filter_def split: sum.splits option.splits)

lemma open_count:
  "balanced (blocksOpen @ s @ '']}'') = balanced s" "balanced s \<Longrightarrow> \<not> balanced (blocksOpen @ s)"
  by (simp_all add: balanced_def blocksOpen_def jkey_def quote_def)

lemma first_failure:
  fixes i e :: nat
  assumes "\<not> (\<forall>n. i \<le> n \<and> n \<le> e \<longrightarrow> (\<exists>t. f n = Inr t))"
  obtains n err where "i \<le> n" "n \<le> e" "f n = Inl err" "\<forall>m. i \<le> m \<and> m < n \<longrightarrow> (\<exists>t. f m = Inr t)"
proof -
  define bad where "bad n \<longleftrightarrow> i \<le> n \<and> n \<le> e \<and> (\<nexists>t. f n = Inr t)" for n
  define n where "n = (LEAST n. bad n)"
  have "\<exists>n. bad n" using assms by (auto simp: bad_def)
  then have n: "bad n" unfolding n_def by (rule LeastI_ex)
  have "\<exists>t. f m = Inr t" if "i \<le> m" "m < n" for m
    using not_less_Least [of m bad] that n by (auto simp: n_def bad_def)
  with n show thesis using that [of n] by (metis bad_def sum.exhaust)
qed

section \<open>The interface between the servers and the database\<close>

text \<open>
  What the range handlers rely on: every read succeeds, hashes and transaction ids have 32 bytes
  and tweaks 33.  Under these laws no request is cut off.
\<close>

locale oracle_db =
  fixes D :: db_api and RC :: "bytes \<Rightarrow> bytes"
  assumes RC_length: "length (RC x) = length x"
    and tip: "\<exists>t. db_GetChainTip D = Inr t"
    and hash: "\<exists>h. db_GetBlockHashByHeight D n = Inr h"
    and hash_length: "db_GetBlockHashByHeight D n = Inr (Some h) \<Longrightarrow> length h = 32"
    and tweaks: "length h = 32 \<Longrightarrow> \<exists>rows. db_TweaksForBlockAll D h = Inr rows"
    and outputs: "length h = 32 \<Longrightarrow>
      \<exists>os. db_FetchOutputsAll D h t = Inr os \<and> (\<forall>o' \<in> set os. length (out_Txid o') = 32)"
    and compute: "\<exists>is. db_FetchComputeIndex D n = Inr is \<and>
      (\<forall>i \<in> set is. length (cit_Txid i) = 32 \<and> length (cit_Tweak i) = 33)"
    and spent: "\<exists>d. db_FetchSpentOutputsShort D h = Inr d"
begin

lemma utxoItems_ok: "\<forall>o' \<in> set os. length (out_Txid o') = 32 \<Longrightarrow> \<exists>us. mapR (utxoItem RC) os = Inr us"
  by (rule mapR_ok) (auto simp: utxoItem_def toArray32_def RC_length)

lemma computeItems_ok:
  "\<forall>i \<in> set is. length (cit_Txid i) = 32 \<and> length (cit_Tweak i) = 33 \<Longrightarrow>
   \<exists>cs. mapR (computeItem shorts) is = Inr cs"
  by (rule mapR_ok) (auto simp: computeItem_def toArray32_def toArray33_def)

lemma encoder_ok:
  assumes "encode \<in> rangeEncoders RC D t" and "length h = 32"
  shows "\<exists>x. encode n h = Inr x"
proof -
  obtain rows where rows: "db_TweaksForBlockAll D h = Inr rows" using tweaks [OF assms(2)] by blast
  obtain os us where os: "db_FetchOutputsAll D h t = Inr os" "mapR (utxoItem RC) os = Inr us"
    using outputs [OF assms(2), of t] utxoItems_ok by blast
  obtain is' cs where "db_FetchComputeIndex D n = Inr is'" "mapR (computeItem shortsWhile) is' = Inr cs"
    using compute [of n] computeItems_ok by blast
  moreover obtain d where "db_FetchSpentOutputsShort D h = Inr d" using spent by blast
  ultimately show ?thesis using assms(1) rows os
    by (auto simp: rangeEncoders_def textR_def tweaksEntry_def spentEntry_def computeEntry_def
        utxosEntry_def)
qed

lemma entry_ok: "encode \<in> rangeEncoders RC D t \<Longrightarrow> \<exists>x. entryAt D encode n = Inr x"
  using hash [of "of_nat n"] hash_length [of "of_nat n"] encoder_ok [of encode t]
  by (fastforce simp: entryAt_def split: option.split)

lemma streamed_all:
  assumes "encode \<in> rangeEncoders RC D t"
  shows "list_all2 (\<lambda>n x. entryAt D encode n = Inr (Some x))
    (filter (\<lambda>n. db_GetBlockHashByHeight D (of_nat n) \<noteq> Inr None) [i..<Suc e]) (streamed D encode i e)"
proof -
  have here: "(db_GetBlockHashByHeight D (of_nat n) \<noteq> Inr None) = (\<exists>x. entryAt D encode n = Inr (Some x))" for n
  proof -
    obtain h where "db_GetBlockHashByHeight D (of_nat n) = Inr h" using hash by blast
    then show ?thesis using entry_ok [OF assms, of n] by (cases h) (auto simp: entryAt_def)
  qed
  have "list_all2 (\<lambda>n x. entryAt D encode n = Inr (Some x))
    (filter (\<lambda>n. \<exists>x. entryAt D encode n = Inr (Some x)) ns)
    (List.map_filter (\<lambda>n. case entryAt D encode n of Inr (Some t) \<Rightarrow> Some t | _ \<Rightarrow> None) ns)" for ns
    by (induction ns) (auto simp: map_filter_simps split: sum.splits option.splits)
  then show ?thesis unfolding streamed_def here .
qed

end

text \<open>A store whose contents are typed keeps the laws.\<close>

locale typed_store = pebble_reliable P entries writes
  for P :: "('db, 'b) pebble_api" and entries :: "'db \<Rightarrow> kv list" and writes :: "'b \<Rightarrow> kv list" +
  fixes s :: "('db, 'b) Store" and RB :: "bytes \<Rightarrow> bytes" and RC :: "bytes \<Rightarrow> bytes"
  assumes typed_db: "typed (set (entries (st_DB s)))"
    and RB_length: "length (RB x) = length x"
    and RC_length: "length (RC x) = length x"
begin

lemma GetBlockHashByHeight_eq:
  "GetBlockHashByHeight P s n = Inr (map_of (entries (st_DB s)) (KeyCIHeight n))"
  by (simp add: GetBlockHashByHeight_def get_eq split: option.split)

lemma hash32: "map_of (entries (st_DB s)) (KeyCIHeight n) = Some h \<Longrightarrow> length h = 32"
  using chain_value_length [OF typed_db entries_sorted] by blast

lemma outputs32:
  assumes "length h = 32"
  shows "\<exists>os. FetchOutputsAll P s h t = Inr os \<and> (\<forall>o' \<in> set os. length (out_Txid o') = 32)"
  using fetchOutputs_eq [OF typed_db assms] txids_at_length [OF typed_db assms]
  by (auto simp: FetchOutputsAll_def outs_at_def out_of_def)

lemma compute33:
  "\<exists>is. FetchComputeIndex RB P s n = Inr is \<and>
     (\<forall>i \<in> set is. length (cit_Txid i) = 32 \<and> length (cit_Tweak i) = 33)"
proof -
  have "length (drop 5 k) = 32 \<and> length (take 33 v) = 33"
    if kv: "(k, v) \<in> set (range_of (BoundsComputeIndexOneHeight n) (entries (st_DB s)))" for k v
  proof -
    obtain dk where dk: "wf_key dk" "k = enc_key dk" "wf_val dk v"
      by (rule typedE [OF typed_db]) (use kv in \<open>auto simp: range_of_within\<close>)
    then obtain t where "dk = DComputeIndex n t"
      using within_ComputeIndex [OF dk(1), of n n] kv
      by (auto simp: range_of_within BoundsComputeIndexOneHeight_eq)
    then show ?thesis using dk by (simp add: KeyComputeIndex_def)
  qed
  then show ?thesis using FetchComputeIndex_eq [OF typed_db, of RB n]
    by (auto simp: ci_item_def RB_length)
qed

end

sublocale typed_store \<subseteq> served: oracle_db "store_db RB P s" RC
proof
  show "length (RC x) = length x" for x by (rule RC_length)
  show "\<exists>t. db_GetChainTip (store_db RB P s) = Inr t"
    using GetChainTip_eq [OF typed_db] by (auto simp: store_db_def)
  show "\<exists>h. db_GetBlockHashByHeight (store_db RB P s) n = Inr h" for n
    by (simp add: store_db_def GetBlockHashByHeight_eq)
  show "length h = 32" if "db_GetBlockHashByHeight (store_db RB P s) n = Inr (Some h)" for n h
    using that hash32 by (simp add: store_db_def GetBlockHashByHeight_eq)
  show "\<exists>rows. db_TweaksForBlockAll (store_db RB P s) h = Inr rows" if "length h = 32" for h
    using TweaksForBlockAll_eq [OF typed_db that] BlockTxids_eq [OF typed_db that]
    by (simp add: store_db_def refTweaksForBlockAll_def refTweaksLoop_eq)
  show "\<exists>os. db_FetchOutputsAll (store_db RB P s) h t = Inr os \<and>
      (\<forall>o' \<in> set os. length (out_Txid o') = 32)" if "length h = 32" for h t
    using outputs32 [OF that] by (simp add: store_db_def)
  show "\<exists>is. db_FetchComputeIndex (store_db RB P s) n = Inr is \<and>
      (\<forall>i \<in> set is. length (cit_Txid i) = 32 \<and> length (cit_Tweak i) = 33)" for n
    using compute33 by (simp add: store_db_def)
  show "\<exists>d. db_FetchSpentOutputsShort (store_db RB P s) h = Inr d" for h
    by (simp add: store_db_def FetchSpentOutputsShort_def get_eq split: option.split)
qed

context typed_store
begin

lemma range_complete:
  assumes "encode \<in> rangeEncoders RC (store_db RB P s) tip"
  shows "\<exists>texts. streamBlocks (store_db RB P s) a b encode = blocksOpen @ sepBy texts @ '']}'' \<and>
    list_all2 (\<lambda>n t. entryAt (store_db RB P s) encode n = Inr (Some t))
      (filter (\<lambda>n. map_of (entries (st_DB s)) (KeyCIHeight (of_nat n)) \<noteq> None) [unat a..<Suc (unat b)])
      texts"
proof -
  let ?D = "store_db RB P s"
  have "streamBlocks ?D a b encode = blocksOpen @ sepBy (streamed ?D encode (unat a) (unat b)) @ '']}''"
    using streamFrom_complete [of "unat a" "unat b" ?D encode "[]" blocksOpen]
      served.entry_ok [OF assms] by (simp add: streamBlocks_def)
  moreover have "(db_GetBlockHashByHeight ?D m \<noteq> Inr None) =
      (map_of (entries (st_DB s)) (KeyCIHeight m) \<noteq> None)" for m
    by (simp add: store_db_def GetBlockHashByHeight_eq)
  ultimately show ?thesis using served.streamed_all [OF assms, of "unat a" "unat b"] by auto
qed

end

interpretation fresh: typed_store mem_pebble mem_entries "\<lambda>b. b" "NewStore mem_pebble []" rev rev
  by unfold_locales (simp_all add: NewStore_def mem_entries_def typed_def)

section \<open>Statements on ranges\<close>

text \<open>A database for the examples: the heights 7 and 8 are indexed, and reading height 9 fails.\<close>

definition x_db :: db_api where
  "x_db = \<lparr>db_GetChainTip = Inr (Some (replicate 32 1), 8),
     db_GetBlockHashByHeight = (\<lambda>n. if n = 9 then Inl (Err ''io'')
        else if n = 7 \<or> n = 8 then Inr (Some (replicate 32 1)) else Inr None),
     db_TweaksForBlockAll = (\<lambda>h. Inr [\<lparr>row_Txid = replicate 32 2, row_Tweak = replicate 33 3\<rparr>]),
     db_FetchOutputsAll = (\<lambda>h t. Inr []), db_FetchComputeIndex = (\<lambda>n. Inr []),
     db_FetchSpentOutputsShort = (\<lambda>h. Inr []), db_FetchAllTxidOutpointsForBlock = (\<lambda>h. Inr [])\<rparr>"

text \<open>\<open>rangeParams\<close> accepts two query parameters exactly when both are decimal numbers below
  \<open>2^32\<close>, the end is not below the start and the span does not exceed the limit, and then returns
  the two heights unchanged; everything else is answered with the status 400.\<close>

theorem rangeParams_accepts:
  "(rangeParams maxRange a b = Inr (s, e) \<longleftrightarrow>
      ParseUint a = Inr (unat s) \<and> ParseUint b = Inr (unat e) \<and> s \<le> e \<and>
      unat e - unat s + 1 \<le> unat maxRange) \<and>
   (\<forall>r. rangeParams maxRange a b = Inl r \<longrightarrow> http_status r = 400)"
proof
  have nil: "ParseUint [] = Inl (Err ''invalid syntax'')" by (simp add: ParseUint_def)
  have num: "x = unat (of_nat x :: u32)" if "ParseUint t = Inr x" for t x
    using ParseUint_less [OF that] by (simp add: unat_of_nat)
  show "rangeParams maxRange a b = Inr (s, e) \<longleftrightarrow>
      ParseUint a = Inr (unat s) \<and> ParseUint b = Inr (unat e) \<and> s \<le> e \<and>
      unat e - unat s + 1 \<le> unat maxRange"
  proof (cases "\<exists>x y. ParseUint a = Inr x \<and> ParseUint b = Inr y")
    case True
    then obtain x y where xy: "ParseUint a = Inr x" "ParseUint b = Inr y" by blast
    then have "a \<noteq> []" "b \<noteq> []" using nil by auto
    then show ?thesis using xy num [OF xy(1)] num [OF xy(2)]
      by (auto simp: rangeParams_def Let_def word_le_nat_alt not_less)
  next
    case False
    then show ?thesis by (auto simp: rangeParams_def Let_def split: sum.splits if_splits)
  qed
  show "\<forall>r. rangeParams maxRange a b = Inl r \<longrightarrow> http_status r = 400"
    by (auto simp: rangeParams_def Let_def split: sum.splits if_splits)
qed

theorem rangeParams_accepts_witness:
  "rangeParams 100 (AppendUint 7) (AppendUint 9) = Inr (7, 9) \<and>
   rangeParams 2 (AppendUint 7) (AppendUint 9) \<noteq> Inr (7, 9)"
  using rangeParams_accepts [of 100 "AppendUint 7" "AppendUint 9" 7 9]
    rangeParams_accepts [of 2 "AppendUint 7" "AppendUint 9" 7 9]
  by (simp add: Parse_Append)

text \<open>A streamed response is either complete or recognisably cut off: if the hash of every height and
  the entry of every indexed height can be read, the body lists exactly the entries of the indexed
  heights, in order and separated by commas, and its braces are balanced; if anything fails, they
  are not, and a JSON parser rejects the body.\<close>

theorem stream_complete_or_cut:
  assumes "encode \<in> rangeEncoders RC D tip"
  shows "if \<forall>n. unat s \<le> n \<and> n \<le> unat e \<longrightarrow> (\<exists>t. entryAt D encode n = Inr t)
    then streamBlocks D s e encode =
           blocksOpen @ sepBy (streamed D encode (unat s) (unat e)) @ '']}'' \<and>
         balanced (streamBlocks D s e encode)
    else \<not> balanced (streamBlocks D s e encode)"
proof (cases "\<forall>n. unat s \<le> n \<and> n \<le> unat e \<longrightarrow> (\<exists>t. entryAt D encode n = Inr t)")
  case True
  then have eq: "streamBlocks D s e encode =
      blocksOpen @ sepBy (streamed D encode (unat s) (unat e)) @ '']}''"
    using streamFrom_complete [of "unat s" "unat e" D encode "[]" blocksOpen]
    by (simp add: streamBlocks_def)
  have "balanced (sepBy (streamed D encode (unat s) (unat e)))"
    using streamed_mem entryAt_balanced [OF assms] by (intro balanced_sepBy) blast
  then show ?thesis using True eq by (simp add: open_count)
next
  case False
  then obtain n err where n: "unat s \<le> n" "n \<le> unat e" "entryAt D encode n = Inl err"
    "\<forall>m. unat s \<le> m \<and> m < n \<longrightarrow> (\<exists>t. entryAt D encode m = Inr t)" by (rule first_failure)
  obtain zs where zs: "streamBlocks D s e encode = blocksOpen @ sepBy zs"
    "\<forall>z \<in> set zs. \<exists>m. unat s \<le> m \<and> m < n \<and> entryAt D encode m = Inr (Some z)"
    unfolding streamBlocks_def
    using streamFrom_cut [OF n, of "[]" blocksOpen, simplified] by blast
  have "balanced (sepBy zs)"
    using zs(2) entryAt_balanced [OF assms] by (intro balanced_sepBy) blast
  then show ?thesis using zs(1) False open_count(2) by auto
qed

theorem stream_complete_or_cut_witness:
  "\<not> balanced (streamBlocks x_db 7 9
     (\<lambda>n h. textR TweakIndexResponse_text (tweaksEntry rev x_db n h)))"
proof -
  let ?enc = "\<lambda>n h. textR TweakIndexResponse_text (tweaksEntry rev x_db n h)"
  have enc: "?enc \<in> rangeEncoders rev x_db 0" by (simp add: rangeEncoders_def)
  have "entryAt x_db ?enc 9 = Inl (Err ''io'')" by (simp add: entryAt_def x_db_def)
  then have "\<not> (\<forall>n. unat (7 :: u32) \<le> n \<and> n \<le> unat (9 :: u32) \<longrightarrow> (\<exists>t. entryAt x_db ?enc n = Inr t))"
    by (intro notI) (drule spec [of _ 9], simp)
  then show ?thesis using stream_complete_or_cut [OF enc, of 7 9] by (simp only: if_False not_False_eq_True)
qed

text \<open>C25. On every state of the store, a range request that is accepted is answered in full: the body has
  one entry for every height of the range that the chain index knows, in the order of the heights,
  and nothing else.\<close>

theorem range_complete_on_store:
  assumes "pebble_reliable P entries writes" and "store_run P db0 s bs" and "list_all wf_block bs"
    and "typed (set (entries db0))" and "\<And>x. length (RB x) = length x" and "\<And>x. length (RC x) = length x"
    and "encode \<in> rangeEncoders RC (store_db RB P s) tip"
  shows "\<exists>texts. streamBlocks (store_db RB P s) a b encode = blocksOpen @ sepBy texts @ '']}'' \<and>
    list_all2 (\<lambda>n t. entryAt (store_db RB P s) encode n = Inr (Some t))
      (filter (\<lambda>n. map_of (entries (st_DB s)) (KeyCIHeight (of_nat n)) \<noteq> None) [unat a..<Suc (unat b)])
      texts"
proof -
  have "typed_store P entries writes s RB RC"
    using assms(1,5,6) pebble_reliable.store_run_typed [OF assms(1-4)]
    by (simp add: typed_store_def typed_store_axioms_def)
  then show ?thesis using assms(7) by (rule typed_store.range_complete)
qed

theorem range_complete_on_store_witness:
  "\<exists>s texts. store_run mem_pebble [] s [w_block] \<and> set (mem_entries (st_DB s)) = all_puts [w_block] \<and>
     streamBlocks (store_db rev mem_pebble s) 0 20
       (\<lambda>n h. textR TweakIndexResponse_text (tweaksEntry rev (store_db rev mem_pebble s) n h)) =
       blocksOpen @ sepBy texts @ '']}''"
proof -
  obtain s where s: "store_run mem_pebble [] s [w_block]" "set (mem_entries (st_DB s)) = all_puts [w_block]"
    using w_stored by metis
  show ?thesis
    using range_complete_on_store [OF mem_reliable s(1), of rev rev
        "\<lambda>n h. textR TweakIndexResponse_text (tweaksEntry rev (store_db rev mem_pebble s) n h)" 0 0 20]
      s w_block_wf
    by (auto simp: rangeEncoders_def mem_entries_def typed_def)
qed

section \<open>One block and a range of blocks\<close>

lemma shortsGuarded_eq: "shortsGuarded data = shortsWhile data"
proof (induction data rule: shortsWhile.induct)
  case (1 data)
  show ?case
  proof (cases "8 \<le> length data")
    case True
    then show ?thesis using 1 by (subst shortsGuarded.simps, subst shortsWhile.simps) auto
  next
    case False
    then have "shortsGuarded (drop 8 data) = []" by (subst shortsGuarded.simps) simp
    then show ?thesis using False by (subst shortsGuarded.simps, subst shortsWhile.simps) simp
  qed
qed

lemma shortsWhile_chunks: "shortsWhile data = chunks 8 data"
proof (induction data rule: shortsWhile.induct)
  case (1 data)
  show ?case
  proof (cases "8 \<le> length data")
    case True
    then have "chunks 8 data = take 8 data # chunks 8 (drop 8 data)"
      using chunks_append [of "take 8 data" 8 "drop 8 data"] by simp
    then show ?thesis using True 1 by (subst shortsWhile.simps) simp
  next
    case False
    then show ?thesis by (subst shortsWhile.simps) (simp add: chunks_def)
  qed
qed

lemma orFail_200:
  "orFail r (JSON 500 b') k = JSON 200 b \<longleftrightarrow> (\<exists>a. r = Inr a \<and> k a = JSON 200 b)"
  by (cases "(r, JSON 500 b', k)" rule: orFail.cases) (auto simp: JSON_def)

lemma bindR_200: "bindR r k = JSON 200 b \<longleftrightarrow> (\<exists>a. r = Inr a \<and> k a = JSON 200 b)"
  by (simp add: JSON_def)

lemma JSON_inject: "JSON st b = JSON st' b' \<longleftrightarrow> st = st' \<and> b = b'"
  by (simp add: JSON_def)

lemma computeItem_eq: "computeItem shortsGuarded = computeItem shortsWhile"
  by (simp add: computeItem_def fun_eq_iff shortsGuarded_eq)

lemma nilBytes_Some: "nilBytes (Some b) = b"
  by (simp add: nilBytes_def)

lemma withBlock_eq:
  assumes "h < 2 ^ 32" and "db_GetBlockHashByHeight D (of_nat h) = Inr bh"
  shows "withBlock D (AppendUint h) k = k (of_nat h) bh"
  using AppendUint_digits [of h] assms by (simp add: withBlock_def Parse_Append)

text \<open>The range endpoints deliver what the endpoints of one block deliver: for an indexed height the
  handler of one block answers 200 with a payload exactly when the entry of the range has that
  payload (for outputs, up to the nil slice that the handler of one block returns for none).\<close>

theorem range_entry_is_block_response:
  assumes "h < 2 ^ 32" and "db_GetBlockHashByHeight D (of_nat h) = Inr (Some bh)"
    and "db_GetChainTip D = Inr (x, tip)"
  shows "(GetTweaks RC D (AppendUint h) = JSON 200 (BTweaks tr) \<longleftrightarrow>
      tweaksEntry RC D (of_nat h) bh = Inr tr) \<and>
    (GetSpentOutputs RC D (AppendUint h) = JSON 200 (BSpent sr) \<longleftrightarrow>
      spentEntry RC D (of_nat h) bh = Inr sr) \<and>
    (GetComputeIndex RC D (AppendUint h) = JSON 200 (BCompute cr) \<longleftrightarrow>
      computeEntry RC D (of_nat h) bh = Inr cr) \<and>
    (GetUtxos RC D (AppendUint h) = JSON 200 (BUtxos (ur\<lparr>utr_Index := nilList us\<rparr>)) \<longleftrightarrow>
      utxosEntry RC D tip (of_nat h) bh = Inr (ur\<lparr>utr_Index := Some us\<rparr>))"
proof (intro conjI)
  note wb = withBlock_eq [OF assms(1,2)]
  show "GetTweaks RC D (AppendUint h) = JSON 200 (BTweaks tr) \<longleftrightarrow>
      tweaksEntry RC D (of_nat h) bh = Inr tr"
    by (auto simp: GetTweaks_def wb orFail_200 JSON_inject tweaksEntry_def nilBytes_def)
  have nil: "(if 0 < length d then shortsWhile d else []) = shortsWhile d" for d
    by (cases d) (simp_all add: shortsWhile_chunks)
  show "GetSpentOutputs RC D (AppendUint h) = JSON 200 (BSpent sr) \<longleftrightarrow>
      spentEntry RC D (of_nat h) bh = Inr sr"
    unfolding GetSpentOutputs_def wb orFail_200 JSON_inject spentEntry_def nil by (auto simp: nilBytes_def)
  have "mapR (computeItem shortsWhile) items = Inr xs \<Longrightarrow> items \<noteq> [] \<Longrightarrow> nilList xs = Some xs" for items xs
    using mapR_length [of "computeItem shortsWhile" items xs] by (auto simp: nilList_def)
  then show "GetComputeIndex RC D (AppendUint h) = JSON 200 (BCompute cr) \<longleftrightarrow>
      computeEntry RC D (of_nat h) bh = Inr cr"
    unfolding GetComputeIndex_def wb orFail_200 bindR_200 JSON_inject computeEntry_def computeItem_eq
    by (auto split: if_splits)
  show "GetUtxos RC D (AppendUint h) = JSON 200 (BUtxos (ur\<lparr>utr_Index := nilList us\<rparr>)) \<longleftrightarrow>
      utxosEntry RC D tip (of_nat h) bh = Inr (ur\<lparr>utr_Index := Some us\<rparr>)"
    unfolding GetUtxos_def wb orFail_200 utxosEntry_def assms(3)
    by (cases ur) (auto simp: nilBytes_def nilList_def orFail_200 bindR_200 JSON_inject split: if_splits)
qed

theorem range_entry_is_block_response_witness:
  "GetTweaks rev x_db (AppendUint 7) =
     JSON 200 (BTweaks \<lparr>tir_BlockIdentifier = \<lparr>bid_BlockHash = replicate 32 1, bid_BlockHeight = 7\<rparr>,
                        tir_Index = [replicate 33 3]\<rparr>)"
  using range_entry_is_block_response [of 7 x_db "replicate 32 1" "Some (replicate 32 1)" 8 rev
      "\<lparr>tir_BlockIdentifier = \<lparr>bid_BlockHash = replicate 32 1, bid_BlockHeight = 7\<rparr>,
        tir_Index = [replicate 33 3]\<rparr>"]
  by (simp add: x_db_def tweaksEntry_def blockIdentifier_def nilBytes_def)

end
