(* ===== verification/Grpc.thy ===== *)
theory Grpc
  imports Server_Spec
begin

text \<open>
  The gRPC service (\<open>server/v2/service.go\<close>) over the same database interface.  The messages of the
  protocol are records; heights are \<open>uint64\<close> there and are cut to \<open>uint32\<close> for the database.  What
  a stream has sent is a list; \<open>sends\<close> says which send succeeds (a function of the number of
  messages sent before).  A status error keeps its text without the wrapped cause.
\<close>

record GrpcIdentifier =
  gid_BlockHash :: bytes
  gid_BlockHeight :: u64

record GrpcInfoResponse =
  gi_Network :: string
  gi_Height :: u64
  gi_TweaksOnly :: bool
  gi_TweaksFullBasic :: bool
  gi_TweaksFullWithDustFilter :: bool
  gi_TweaksCutThroughWithDustFilter :: bool

record GrpcComputeIndexResponse =
  gc_BlockIdentifier :: GrpcIdentifier
  gc_Index :: "ComputeIndexTxItem list"

record BlockScanDataShortResponse =
  bs_BlockIdentifier :: GrpcIdentifier
  bs_CompIndex :: "ComputeIndexTxItem list"
  bs_SpentOutputs :: bytes

record GrpcFullTxItem =
  gf_Txid :: bytes
  gf_Tweak :: bytes
  gf_Inputs :: bytes
  gf_Utxos :: "UTXOItemLight list"

record GrpcFullBlockResponse =
  gb_BlockIdentifier :: GrpcIdentifier
  gb_Index :: "GrpcFullTxItem list"

definition grpc_identifier :: "(bytes \<Rightarrow> bytes) \<Rightarrow> bytes option \<Rightarrow> u64 \<Rightarrow> GrpcIdentifier" where
  "grpc_identifier RC blockhash height =
     \<lparr>gid_BlockHash = RC (nilBytes blockhash), gid_BlockHeight = height\<rparr>"

text \<open>\<open>uint32(height)\<close>\<close>

definition cut32 :: "u64 \<Rightarrow> u32" where
  "cut32 height = ucast height"

section \<open>Unary calls\<close>

definition grpc_GetInfo :: "Config \<Rightarrow> db_api \<Rightarrow> GrpcInfoResponse res" where
  "grpc_GetInfo c D =
     bindR (db_GetChainTip D) (\<lambda>(_, height).
     bindR (ChainToString (cfg_Chain c)) (\<lambda>network.
     Inr \<lparr>gi_Network = network, gi_Height = ucast height, gi_TweaksOnly = cfg_TweaksOnly c,
          gi_TweaksFullBasic = cfg_TweakIndexFullNoDust c,
          gi_TweaksFullWithDustFilter = cfg_TweakIndexFullIncludingDust c,
          gi_TweaksCutThroughWithDustFilter = cfg_TweaksCutThroughWithDust c\<rparr>))"

definition grpc_GetBestBlockHeight :: "db_api \<Rightarrow> u64 res" where
  "grpc_GetBestBlockHeight D = bindR (db_GetChainTip D) (\<lambda>(_, height). Inr (ucast height))"

definition grpc_GetBlockHashByHeight :: "(bytes \<Rightarrow> bytes) \<Rightarrow> db_api \<Rightarrow> u64 \<Rightarrow> bytes res" where
  "grpc_GetBlockHashByHeight RC D height =
     bindR (db_GetBlockHashByHeight D (cut32 height)) (\<lambda>blockhash. Inr (RC (nilBytes blockhash)))"

text \<open>An error of the database becomes a status error.\<close>

fun orStatus :: "'a res \<Rightarrow> string \<Rightarrow> ('a \<Rightarrow> 'b res) \<Rightarrow> 'b res" where
  "orStatus (Inl (Panic m)) t k = Inl (Panic m)"
| "orStatus (Inl (Err m)) t k = Inl (Err t)"
| "orStatus (Inr a) t k = k a"

fun grpc_fullItems :: "(bytes \<Rightarrow> bytes) \<Rightarrow> (bytes \<Rightarrow> bytes) \<Rightarrow> Output list \<Rightarrow> TweakRow list \<Rightarrow>
    (bytes \<times> bytes list) list \<Rightarrow> string list \<Rightarrow> GrpcFullTxItem list" where
  "grpc_fullItems RC RB outputs rows ops [] = []"
| "grpc_fullItems RC RB outputs rows ops (txid # txids) =
     (case DecodeString txid of
        Inl _ \<Rightarrow> grpc_fullItems RC RB outputs rows ops txids
      | Inr txidBytes \<Rightarrow>
          \<lparr>gf_Txid = RC (fit 32 txidBytes), gf_Tweak = tweakOf rows txid,
           gf_Inputs = concat (inputsOf RB ops (fit 32 txidBytes)),
           gf_Utxos = map utxoLight (outputsOf outputs txid)\<rparr> #
          grpc_fullItems RC RB outputs rows ops txids)"

definition grpc_GetFullBlock ::
    "(bytes \<Rightarrow> bytes) \<Rightarrow> (bytes \<Rightarrow> bytes) \<Rightarrow> db_api \<Rightarrow> u64 \<Rightarrow> GrpcFullBlockResponse res" where
  "grpc_GetFullBlock RC RB D height =
     orStatus (db_GetBlockHashByHeight D (cut32 height)) ''could not fetch block hash'' (\<lambda>blockhash.
     orStatus (db_GetChainTip D) ''could not fetch chain tip'' (\<lambda>(_, syncTip).
     orStatus (db_FetchOutputsAll D (nilBytes blockhash) syncTip)
       ''could not retrieve outputs from database'' (\<lambda>outputs.
     orStatus (db_TweaksForBlockAll D (nilBytes blockhash))
       ''could not retrieve tweaks from database'' (\<lambda>tweakRows.
     orStatus (db_FetchAllTxidOutpointsForBlock D (nilBytes blockhash))
       ''could not retrieve txid-outpoints from database'' (\<lambda>ops.
     Inr \<lparr>gb_BlockIdentifier = grpc_identifier RC blockhash height,
          gb_Index = grpc_fullItems RC RB outputs tweakRows ops (sortedTxids outputs)\<rparr>)))))"

lemma orStatus_Inr: "orStatus r t k = Inr b \<longleftrightarrow> (\<exists>a. r = Inr a \<and> k a = Inr b)"
  by (cases "(r, t, k)" rule: orStatus.cases) auto

section \<open>Streams\<close>

text \<open>
  The loop \<open>for height := req.Start; height <= req.End; height++\<close> over \<open>uint64\<close> with the message of
  a height.  It ends when the height passes the end; when the end is the largest \<open>uint64\<close> the
  height wraps around and it may run forever (\<open>None\<close>).
\<close>

partial_function (option) streamHeights ::
    "(u64 \<Rightarrow> 'm res) \<Rightarrow> (nat \<Rightarrow> bool) \<Rightarrow> u64 \<Rightarrow> u64 \<Rightarrow> 'm list \<Rightarrow> (unit res \<times> 'm list) option" where
  "streamHeights message sends height e sent =
     (if height \<le> e
      then (case message height of
              Inl err \<Rightarrow> Some (Inl err, sent)
            | Inr m \<Rightarrow>
                if sends (length sent)
                then streamHeights message sends (height + 1) e (sent @ [m])
                else Some (Inl (Err ''failed to send block batch''), sent))
      else Some (Inr (), sent))"

declare streamHeights.simps [code]

definition computeMessage :: "(bytes \<Rightarrow> bytes) \<Rightarrow> db_api \<Rightarrow> u64 \<Rightarrow> GrpcComputeIndexResponse res" where
  "computeMessage RC D height =
     bindR (db_GetBlockHashByHeight D (cut32 height)) (\<lambda>blockhash.
     bindR (db_FetchComputeIndex D (cut32 height)) (\<lambda>computeIndex.
     Inr \<lparr>gc_BlockIdentifier = grpc_identifier RC blockhash height, gc_Index = computeIndex\<rparr>))"

definition StreamComputeIndex :: "(bytes \<Rightarrow> bytes) \<Rightarrow> db_api \<Rightarrow> (nat \<Rightarrow> bool) \<Rightarrow> u64 \<Rightarrow> u64 \<Rightarrow>
    (unit res \<times> GrpcComputeIndexResponse list) option" where
  "StreamComputeIndex RC D sends start e = streamHeights (computeMessage RC D) sends start e []"

definition scanMessage :: "(bytes \<Rightarrow> bytes) \<Rightarrow> db_api \<Rightarrow> u64 \<Rightarrow> BlockScanDataShortResponse res" where
  "scanMessage RC D height =
     bindR (db_GetBlockHashByHeight D (cut32 height)) (\<lambda>blockhash.
     bindR (db_FetchComputeIndex D (cut32 height)) (\<lambda>computeIndex.
     bindR (db_FetchSpentOutputsShort D (nilBytes blockhash)) (\<lambda>spentOuts.
     Inr \<lparr>bs_BlockIdentifier = grpc_identifier RC blockhash height, bs_CompIndex = computeIndex,
          bs_SpentOutputs = spentOuts\<rparr>)))"

definition StreamBlockScanDataShort :: "(bytes \<Rightarrow> bytes) \<Rightarrow> db_api \<Rightarrow> (nat \<Rightarrow> bool) \<Rightarrow> u64 \<Rightarrow> u64 \<Rightarrow>
    (unit res \<times> BlockScanDataShortResponse list) option" where
  "StreamBlockScanDataShort RC D sends start e = streamHeights (scanMessage RC D) sends start e []"

section \<open>Properties\<close>

lemma cut32_of_nat: "cut32 (of_nat n) = of_nat n"
  by (simp add: cut32_def unsigned_of_nat word_of_nat_eq_iff take_bit_take_bit)

subsection \<open>The streams end\<close>

lemma next_height: "(h :: u64) < 0xFFFFFFFFFFFFFFFF \<Longrightarrow> unat (h + 1) = unat h + 1"
  by (simp add: unat_plus_if_size word_size word_less_nat_alt)

text \<open>However reads and sends go, a stream that does not run to the largest \<open>uint64\<close> ends: it has
  sent the messages of an initial stretch of the heights, all of them when it returns \<open>nil\<close>, and
  otherwise the error is that of the read or of the send it stopped at.\<close>

lemma streamHeights_ends:
  assumes "e \<noteq> 0xFFFFFFFFFFFFFFFF"
  shows "\<exists>r ms. streamHeights message sends start e sent = Some (r, sent @ ms) \<and>
    (\<forall>i < length ms. message (start + of_nat i) = Inr (ms ! i)) \<and>
    (case r of
       Inr _ \<Rightarrow> length ms = Suc (unat e) - unat start
     | Inl x \<Rightarrow> unat start + length ms \<le> unat e \<and>
         (message (start + of_nat (length ms)) = Inl x \<or>
          \<not> sends (length sent + length ms) \<and> x = Err ''failed to send block batch''))"
proof (induction "Suc (unat e) - unat start" arbitrary: start sent)
  case 0
  then have "\<not> start \<le> e" by (simp add: word_le_nat_alt)
  then show ?case using 0 by (intro exI [of _ "Inr ()"] exI [of _ "[]"]) (subst streamHeights.simps, simp)
next
  case (Suc k)
  then have le: "start \<le> e" by (simp add: word_le_nat_alt)
  have "e < 0xFFFFFFFFFFFFFFFF"
    using assms unsigned_less [where 'a = nat, of e]
    by (simp add: word_less_nat_alt word_unat_eq_iff)
  then have nx: "unat (start + 1) = unat start + 1" using le by (intro next_height) simp
  show ?case
  proof (cases "message start")
    case (Inl x)
    then show ?thesis using le
      by (intro exI [of _ "Inl x"] exI [of _ "[]"]) (subst streamHeights.simps, simp add: word_le_nat_alt)
  next
    case (Inr m)
    show ?thesis
    proof (cases "sends (length sent)")
      case False
      then show ?thesis using le Inr
        by (intro exI [of _ "Inl (Err ''failed to send block batch'')"] exI [of _ "[]"])
           (subst streamHeights.simps, simp add: word_le_nat_alt)
    next
      case True
      have "k = Suc (unat e) - unat (start + 1)" using Suc.hyps(2) nx by simp
      then obtain r ms where ih: "streamHeights message sends (start + 1) e (sent @ [m]) = Some (r, (sent @ [m]) @ ms)"
        "\<forall>i < length ms. message (start + 1 + of_nat i) = Inr (ms ! i)"
        "case r of Inr _ \<Rightarrow> length ms = Suc (unat e) - unat (start + 1)
         | Inl x \<Rightarrow> unat (start + 1) + length ms \<le> unat e \<and>
             (message (start + 1 + of_nat (length ms)) = Inl x \<or>
              \<not> sends (length (sent @ [m]) + length ms) \<and> x = Err ''failed to send block batch'')"
        using Suc.hyps(1) [of "start + 1" "sent @ [m]"] by blast
      have "\<forall>i < length (m # ms). message (start + of_nat i) = Inr ((m # ms) ! i)"
        using ih(2) Inr by (auto simp: less_Suc_eq_0_disj add_ac)
      then show ?thesis using ih(1,3) le Inr True nx
        by (intro exI [of _ r] exI [of _ "m # ms"])
           (subst streamHeights.simps, auto simp: add_ac word_le_nat_alt split: sum.splits)
    qed
  qed
qed

text \<open>C29. A stream of the compute index over heights below \<open>2^32\<close> ends, whichever reads and sends fail.
  What it has sent then is one message per height, in order from the start height on: the compute index
  of the height under the hash that the chain index has for it (an empty hash where it has none).  If it
  returns \<open>nil\<close> no height up to the end is missing; if it returns an error it stopped at the
  first height whose block hash or compute index could not be read, with that error, or at the first
  message that could not be sent.\<close>

theorem StreamComputeIndex_complete:
  assumes "a < 2 ^ 32" and "e < 2 ^ 32"
  shows "\<exists>r ms. StreamComputeIndex RC D sends (of_nat a) (of_nat e) = Some (r, ms) \<and>
    (\<forall>i < length ms. \<exists>hash index. db_GetBlockHashByHeight D (of_nat (a + i)) = Inr hash \<and>
       db_FetchComputeIndex D (of_nat (a + i)) = Inr index \<and>
       ms ! i = \<lparr>gc_BlockIdentifier = grpc_identifier RC hash (of_nat (a + i)), gc_Index = index\<rparr>) \<and>
    (case r of
       Inr _ \<Rightarrow> length ms = Suc e - a
     | Inl x \<Rightarrow> a + length ms \<le> e \<and>
         (db_GetBlockHashByHeight D (of_nat (a + length ms)) = Inl x \<or>
          db_FetchComputeIndex D (of_nat (a + length ms)) = Inl x \<or>
          \<not> sends (length ms) \<and> x = Err ''failed to send block batch''))"
proof -
  have ae: "unat (of_nat a :: u64) = a" "unat (of_nat e :: u64) = e"
    using assms by (simp_all add: unat_of_nat)
  have "unat (of_nat e :: u64) \<noteq> unat (0xFFFFFFFFFFFFFFFF :: u64)" using assms(2) ae by simp
  then have ne: "(of_nat e :: u64) \<noteq> 0xFFFFFFFFFFFFFFFF" by metis
  have h: "(of_nat a :: u64) + of_nat i = of_nat (a + i)" for i by simp
  obtain r ms where s: "streamHeights (computeMessage RC D) sends (of_nat a) (of_nat e) [] = Some (r, [] @ ms)"
    "\<forall>i < length ms. computeMessage RC D (of_nat (a + i)) = Inr (ms ! i)"
    "case r of Inr _ \<Rightarrow> length ms = Suc e - a
     | Inl x \<Rightarrow> a + length ms \<le> e \<and> (computeMessage RC D (of_nat (a + length ms)) = Inl x \<or>
         \<not> sends (length ([] :: GrpcComputeIndexResponse list) + length ms) \<and> x = Err ''failed to send block batch'')"
    using streamHeights_ends [OF ne, of "computeMessage RC D" sends "of_nat a" "[]"] unfolding ae h by blast
  have "\<exists>hash index. db_GetBlockHashByHeight D (of_nat (a + i)) = Inr hash \<and>
       db_FetchComputeIndex D (of_nat (a + i)) = Inr index \<and>
       ms ! i = \<lparr>gc_BlockIdentifier = grpc_identifier RC hash (of_nat (a + i)), gc_Index = index\<rparr>"
    if "i < length ms" for i
    using s(2) that by (fastforce simp: computeMessage_def cut32_of_nat simp del: of_nat_add)
  moreover have "computeMessage RC D (of_nat n) = Inl x \<Longrightarrow>
      db_GetBlockHashByHeight D (of_nat n) = Inl x \<or> db_FetchComputeIndex D (of_nat n) = Inl x" for n x
    by (cases "db_GetBlockHashByHeight D (of_nat n)"; cases "db_FetchComputeIndex D (of_nat n)")
       (auto simp: computeMessage_def cut32_of_nat simp del: of_nat_add)
  ultimately show ?thesis using s(1,3)
    by (intro exI [of _ r] exI [of _ ms]) (fastforce simp: StreamComputeIndex_def simp del: of_nat_add split: sum.splits)
qed

text \<open>The hash of the height 9 cannot be read there.\<close>

theorem StreamComputeIndex_complete_witness:
  "\<exists>ms. StreamComputeIndex rev x_db (\<lambda>n. True) 7 9 = Some (Inl (Err ''io''), ms) \<and> length ms = 2"
proof -
  have f: "db_FetchComputeIndex x_db n \<noteq> Inl x" for n x by (simp add: x_db_def)
  have lt: "(7 :: nat) < 2 ^ 32" "(9 :: nat) < 2 ^ 32" by simp_all
  obtain r ms where s: "StreamComputeIndex rev x_db (\<lambda>n. True) 7 9 = Some (r, ms)"
    "\<forall>i < length ms. \<exists>hash. db_GetBlockHashByHeight x_db (of_nat (7 + i)) = Inr hash"
    "case r of Inr _ \<Rightarrow> length ms = 3
     | Inl x \<Rightarrow> 7 + length ms \<le> 9 \<and> db_GetBlockHashByHeight x_db (of_nat (7 + length ms)) = Inl x"
    using StreamComputeIndex_complete [OF lt, of rev x_db "\<lambda>n. True"]
    by (elim exE conjE) (rule that, auto simp: f simp del: of_nat_add split: sum.splits)
  have nine: "db_GetBlockHashByHeight x_db (of_nat (7 + 2)) = Inl (Err ''io'')" by (simp add: x_db_def)
  have "length ms \<noteq> 3"
  proof
    assume "length ms = 3"
    then have "\<exists>hash. db_GetBlockHashByHeight x_db (of_nat (7 + 2)) = Inr hash"
      using s(2) by (metis lessI numeral_3_eq_3 numeral_2_eq_2)
    then show False unfolding nine by simp
  qed
  then obtain x where x: "r = Inl x" "length ms \<le> 2" "db_GetBlockHashByHeight x_db (of_nat (7 + length ms)) = Inl x"
    using s(3) by (cases r) auto
  then have "length ms = 2" "x = Err ''io''"
    by (cases "length ms"; cases "length ms - 1"; auto simp: x_db_def split: if_splits)+
  then show ?thesis using s(1) x(1) by blast
qed

text \<open>Heights beyond \<open>2^32\<close> alias: the stream answers height \<open>2^32 + n\<close> with the hash and the
  compute index of height \<open>n\<close> under the requested number, as if the block existed there.\<close>

theorem heights_alias:
  assumes "n < 2 ^ 32" and "computeMessage RC D (of_nat n) = Inr m"
  shows "computeMessage RC D (of_nat (2 ^ 32 + n)) =
     Inr (m\<lparr>gc_BlockIdentifier := (gc_BlockIdentifier m)\<lparr>gid_BlockHeight := of_nat (2 ^ 32 + n)\<rparr>\<rparr>) \<and>
   (of_nat (2 ^ 32 + n) :: u64) \<noteq> of_nat n"
proof
  have "cut32 (of_nat (2 ^ 32 + n)) = cut32 (of_nat n)"
    unfolding cut32_of_nat by (simp add: word_of_nat_eq_iff take_bit_eq_mod)
  then show "computeMessage RC D (of_nat (2 ^ 32 + n)) =
     Inr (m\<lparr>gc_BlockIdentifier := (gc_BlockIdentifier m)\<lparr>gid_BlockHeight := of_nat (2 ^ 32 + n)\<rparr>\<rparr>)"
    using assms(2) by (auto simp: computeMessage_def grpc_identifier_def)
  show "(of_nat (2 ^ 32 + n) :: u64) \<noteq> of_nat n"
    using assms(1) by (simp only: word_of_nat_eq_iff take_bit_eq_mod) simp
qed

theorem heights_alias_witness:
  "\<exists>m. computeMessage rev x_db (of_nat 7) = Inr m \<and>
     computeMessage rev x_db (of_nat (2 ^ 32 + 7)) =
       Inr (m\<lparr>gc_BlockIdentifier := (gc_BlockIdentifier m)\<lparr>gid_BlockHeight := of_nat (2 ^ 32 + 7)\<rparr>\<rparr>)"
proof -
  obtain m where m: "computeMessage rev x_db (of_nat 7) = Inr m"
    by (simp add: computeMessage_def x_db_def cut32_def)
  show ?thesis by (rule exI [of _ m]) (use m heights_alias [OF _ m] in simp)
qed

subsection \<open>The full block\<close>

text \<open>The items of both servers, field by field.\<close>

definition same_item :: "FullTxItem \<Rightarrow> GrpcFullTxItem \<Rightarrow> bool" where
  "same_item f g \<longleftrightarrow> gf_Txid g = fti_TxId f \<and> gf_Tweak g = fti_Tweak f \<and>
     gf_Inputs g = concat (fti_Inputs f) \<and> nilList (gf_Utxos g) = fti_UTXOs f"

lemma fullItems_same:
  assumes "\<And>x. length (RC x) = length x"
  shows "\<exists>items. fullItems RC RB outputs rows ops txids = Inr items \<and>
    list_all2 same_item items (grpc_fullItems RC RB outputs rows ops txids)"
proof (induction txids)
  case Nil
  then show ?case by simp
next
  case (Cons txid txids)
  then show ?case
    by (cases "DecodeString txid") (auto simp: toArray32_def assms same_item_def)
qed

text \<open>C28. Both servers serve the same full block: for a height below \<open>2^32\<close> the HTTP handler answers 200
  exactly when the gRPC call succeeds, and then the responses agree on the block and, item by
  item, on the transaction id, the tweak, the spent outpoints (one byte string there, a list here)
  and the outputs.\<close>

theorem full_block_same:
  assumes "h < 2 ^ 32" and "\<And>x. length (RC x) = length x"
  shows "case grpc_GetFullBlock RC RB D (of_nat h) of
      Inl _ \<Rightarrow> \<nexists>r. GetFullBlock RC RB D (AppendUint h) = JSON 200 (BFull r)
    | Inr g \<Rightarrow> \<exists>r items. GetFullBlock RC RB D (AppendUint h) = JSON 200 (BFull r) \<and>
        gid_BlockHash (gb_BlockIdentifier g) = bid_BlockHash (fbr_BlockIdentifier r) \<and>
        gid_BlockHeight (gb_BlockIdentifier g) = of_nat h \<and> bid_BlockHeight (fbr_BlockIdentifier r) = of_nat h \<and>
        fbr_Index r = nilList items \<and> list_all2 same_item items (gb_Index g)"
proof (cases "\<exists>bh x tip outs rows ops. db_GetBlockHashByHeight D (of_nat h) = Inr bh \<and>
    db_GetChainTip D = Inr (x, tip) \<and> db_FetchOutputsAll D (nilBytes bh) tip = Inr outs \<and>
    db_TweaksForBlockAll D (nilBytes bh) = Inr rows \<and>
    db_FetchAllTxidOutpointsForBlock D (nilBytes bh) = Inr ops")
  case True
  then obtain bh x tip outs rows ops where ok: "db_GetBlockHashByHeight D (of_nat h) = Inr bh"
    "db_GetChainTip D = Inr (x, tip)" "db_FetchOutputsAll D (nilBytes bh) tip = Inr outs"
    "db_TweaksForBlockAll D (nilBytes bh) = Inr rows"
    "db_FetchAllTxidOutpointsForBlock D (nilBytes bh) = Inr ops" by blast
  obtain items where "fullItems RC RB outs rows ops (sortedTxids outs) = Inr items"
    "list_all2 same_item items (grpc_fullItems RC RB outs rows ops (sortedTxids outs))"
    using fullItems_same [OF assms(2)] by blast
  then show ?thesis
    by (auto simp: GetFullBlock_def withBlock_eq [OF assms(1) ok(1)] grpc_GetFullBlock_def
        cut32_of_nat ok JSON_inject grpc_identifier_def blockIdentifier_def)
next
  case False
  then have "grpc_GetFullBlock RC RB D (of_nat h) \<noteq> Inr g" for g
    by (auto simp: grpc_GetFullBlock_def cut32_of_nat orStatus_Inr)
  moreover have "GetFullBlock RC RB D (AppendUint h) \<noteq> JSON 200 (BFull r)" for r
    using False AppendUint_digits [of h]
    by (auto simp: GetFullBlock_def withBlock_def Parse_Append [OF assms(1)] orFail_200)
  ultimately show ?thesis by (cases "grpc_GetFullBlock RC RB D (of_nat h)") auto
qed

theorem full_block_same_witness:
  "let D = x_db\<lparr>db_FetchOutputsAll := (\<lambda>h t. Inr [\<lparr>out_Txid = replicate 32 2, out_Vout = 0, out_Amount = 5000,
             out_Pubkey = replicate 32 7\<rparr>])\<rparr>
   in \<exists>r g. grpc_GetFullBlock rev rev D (of_nat 7) = Inr g \<and> gb_Index g \<noteq> [] \<and>
     GetFullBlock rev rev D (AppendUint 7) = JSON 200 (BFull r) \<and>
     gid_BlockHash (gb_BlockIdentifier g) = bid_BlockHash (fbr_BlockIdentifier r)"
proof -
  let ?D = "x_db\<lparr>db_FetchOutputsAll := (\<lambda>h t. Inr [\<lparr>out_Txid = replicate 32 2, out_Vout = 0, out_Amount = 5000,
             out_Pubkey = replicate 32 7\<rparr>])\<rparr>"
  obtain g where g: "grpc_GetFullBlock rev rev ?D (of_nat 7) = Inr g" "gb_Index g \<noteq> []"
    by (simp add: grpc_GetFullBlock_def x_db_def cut32_def sortedTxids_def)
  show ?thesis unfolding Let_def using full_block_same [of 7 rev rev ?D] g by auto
qed

end
