(* ===== verification/Service.thy ===== *)
theory Service
  imports Sync_Spec Grpc
begin

text \<open>
  The commands of the service (\<open>cmd/blindbit-oracle/main.go\<close>): a sync of an interval or to the tip
  between two integrity checks, the indexer that runs beside the servers, and the servers alone.
  Every command opens the database, makes a store of it and closes the store when it returns.
  Parsing the flags, loading the configuration and listening belong to the libraries.
\<close>

section \<open>Commands\<close>

text \<open>Two steps that each may fail, one after the other.\<close>

definition andThen ::
    "('s \<Rightarrow> unit res \<Rightarrow> 's \<Rightarrow> bool) \<Rightarrow> ('s \<Rightarrow> unit res \<Rightarrow> 's \<Rightarrow> bool) \<Rightarrow> 's \<Rightarrow> unit res \<Rightarrow> 's \<Rightarrow> bool" where
  "andThen R1 R2 s r s' \<longleftrightarrow>
     (\<exists>e. R1 s (Inl e) s' \<and> r = Inl e) \<or> (\<exists>s1. R1 s (Inr ()) s1 \<and> R2 s1 r s')"

definition wrapped ::
    "string \<Rightarrow> ('s \<Rightarrow> unit res \<Rightarrow> 's \<Rightarrow> bool) \<Rightarrow> 's \<Rightarrow> unit res \<Rightarrow> 's \<Rightarrow> bool" where
  "wrapped m R s r s' \<longleftrightarrow> (\<exists>r0. R s r0 s' \<and> r = wrapf m r0)"

definition performDBIntegrityCheck ::
    "bool \<Rightarrow> Config \<Rightarrow> sp_api \<Rightarrow> node_api \<Rightarrow> ('db, 'b) pebble_api \<Rightarrow> go_error option \<Rightarrow>
     ('db, 'b) Store \<Rightarrow> unit res \<Rightarrow> ('db, 'b) Store \<Rightarrow> bool" where
  "performDBIntegrityCheck skipPrecheck c S N P ctxErr s r s' \<longleftrightarrow>
     (if skipPrecheck then r = Inr () \<and> s' = s
      else wrapped ''db integrity check failed'' (DBIntegrityCheck c S N P ctxErr) s r s')"

definition syncIndex ::
    "u32 \<Rightarrow> u32 \<Rightarrow> Config \<Rightarrow> sp_api \<Rightarrow> node_api \<Rightarrow> ('db, 'b) pebble_api \<Rightarrow> go_error option \<Rightarrow>
     ('db, 'b) Store \<Rightarrow> unit res \<Rightarrow> ('db, 'b) Store \<Rightarrow> bool" where
  "syncIndex startHeight endHeight c S N P ctxErr =
     (if startHeight > 0 \<and> endHeight > 0
      then SyncBlocks c S N P ctxErr (uint startHeight) (uint endHeight)
      else InitialSyncToTip c S N P ctxErr)"

text \<open>The deferred \<open>store.Close()\<close>: its result is dropped, and a panic of the command ends the process first.\<close>

definition closedDB :: "('db, 'b) pebble_api \<Rightarrow> unit res \<Rightarrow> ('db, 'b) Store \<Rightarrow> 'db" where
  "closedDB P r s = (case r of Inl (Panic m) \<Rightarrow> st_DB s | _ \<Rightarrow> st_DB (snd (Close P s)))"

text \<open>The sync command, from the database that was opened to its result and the database it leaves.\<close>

definition syncCmd ::
    "bool \<Rightarrow> u32 \<Rightarrow> u32 \<Rightarrow> Config \<Rightarrow> sp_api \<Rightarrow> node_api \<Rightarrow> ('db, 'b) pebble_api \<Rightarrow> 'db res \<Rightarrow>
     unit res \<Rightarrow> 'db option \<Rightarrow> bool" where
  "syncCmd skipPrecheck startHeight endHeight c S N P openDB r db' \<longleftrightarrow>
     (case wrapf ''failed opening db'' openDB of
        Inl e \<Rightarrow> r = Inl e \<and> db' = None
      | Inr db \<Rightarrow> (\<exists>s'. andThen (performDBIntegrityCheck skipPrecheck c S N P None)
            (andThen (wrapped ''initial sync failed'' (syncIndex startHeight endHeight c S N P None))
                     (performDBIntegrityCheck skipPrecheck c S N P None)) (NewStore P db) r s' \<and>
          db' = Some (closedDB P r s')))"

text \<open>The goroutine of the run command that keeps the index; the node answers as one of \<open>Ns\<close> over time.\<close>

definition runIndexer ::
    "bool \<Rightarrow> Config \<Rightarrow> sp_api \<Rightarrow> node_api \<Rightarrow> node_api set \<Rightarrow> ('db, 'b) pebble_api \<Rightarrow> go_error option \<Rightarrow>
     ('db, 'b) Store \<Rightarrow> unit res \<Rightarrow> ('db, 'b) Store \<Rightarrow> bool" where
  "runIndexer skipPrecheck c S N Ns P ctxErr =
     andThen (performDBIntegrityCheck skipPrecheck c S N P ctxErr)
       (andThen (wrapped ''failed initial sync'' (InitialSyncToTip c S N P ctxErr))
                (wrapped ''continuous sync failed'' (ContinuousSync c S P ctxErr Ns)))"

text \<open>The run command returns nil when it is interrupted, and the error that the goroutine sends.\<close>

inductive runCmd ::
    "bool \<Rightarrow> Config \<Rightarrow> sp_api \<Rightarrow> node_api \<Rightarrow> node_api set \<Rightarrow> ('db, 'b) pebble_api \<Rightarrow> 'db res \<Rightarrow> unit res \<Rightarrow> bool"
  for skipPrecheck c S N Ns P openDB where
  open_failed: "wrapf ''failed opening db'' openDB = Inl e \<Longrightarrow> runCmd skipPrecheck c S N Ns P openDB (Inl e)"
| interrupted: "wrapf ''failed opening db'' openDB = Inr db \<Longrightarrow> runCmd skipPrecheck c S N Ns P openDB (Inr ())"
| indexer_failed: "wrapf ''failed opening db'' openDB = Inr db \<Longrightarrow>
     runIndexer skipPrecheck c S N Ns P None (NewStore P db) (Inl e) s' \<Longrightarrow>
     runCmd skipPrecheck c S N Ns P openDB (Inl e)"

text \<open>The server-only command: the database interface that the handlers serve until the interrupt.\<close>

definition serverCmd :: "(bytes \<Rightarrow> bytes) \<Rightarrow> ('db, 'b) pebble_api \<Rightarrow> 'db res \<Rightarrow> db_api res" where
  "serverCmd RB P openDB = bindR (wrapf ''failed opening db'' openDB) (\<lambda>db. Inr (store_db RB P (NewStore P db)))"

lemma wrapped_ok [simp]: "wrapped m R s (Inr ()) s' \<longleftrightarrow> R s (Inr ()) s'"
  unfolding wrapped_def by (metis wrapf_Inr)

section \<open>The indexer of the run command\<close>

lemma cont_step_error: "cont_step c S P ctxErr N t t' \<Longrightarrow> cs_result t' = None \<or> (\<exists>e. cs_result t' = Some (Inl e))"
  by (cases rule: cont_step.cases) auto

lemma ContinuousSync_error:
  assumes "ContinuousSync c S P ctxErr Ns s r s'"
  shows "\<exists>e. r = Inl e"
proof (cases "cfg_MaxParallelTweakComputations c < 0")
  case False
  then obtain t where t: "(\<lambda>t t'. \<exists>N \<in> Ns. cont_step c S P ctxErr N t t')\<^sup>*\<^sup>* (cont_start s) t" "cs_result t = Some r"
    using assms by (auto simp: ContinuousSync_def)
  have "cs_result t = None \<or> (\<exists>e. cs_result t = Some (Inl e))"
    using t(1) by (induction rule: rtranclp_induct) (auto simp: cont_start_def dest: cont_step_error)
  then show ?thesis using t(2) by auto
qed (use assms in \<open>simp add: ContinuousSync_def\<close>)

section \<open>What the sync command leaves\<close>

text \<open>Closing a store waits for its commits; the flush after that does nothing.\<close>

context pebble_reliable
begin

lemma Close_waits:
  obtains s2 where "WaitForPendingCommits P s = (Inr (), s2)" "closedDB P (Inr ()) s = st_DB s2"
proof -
  obtain db where d: "drain P (pending s) (st_DB s) = Inr db" using drain_ok [of "pending s" "st_DB s"] by blast
  then have "st_DB (snd (Close P s)) = db"
    by (simp add: Close_def WaitForPendingCommits_def FlushBatch_def commitBatch_def close_ok)
  then show thesis using d by (intro that [of "s\<lparr>st_DB := db, pending := []\<rparr>"])
    (simp_all add: WaitForPendingCommits_def closedDB_def)
qed

lemma syncCmd_holds:
  assumes "syncCmd True a e c S N P (Inr db0) (Inr ()) (Some db')" and "0 < a" and "0 < e"
    and "0 < cfg_MaxParallelTweakComputations c" and "entries db0 = []" and "servable S N (uint a) (uint e)"
    and "single (all_puts (chain_blocks S N (uint a) (uint e)))" and "int (length [uint a..uint e]) mod 201 \<noteq> 0"
  shows "holds_blocks (entries db') (chain_blocks S N (uint a) (uint e))"
proof -
  obtain s' where s': "SyncBlocks c S N P None (uint a) (uint e) (NewStore P db0) (Inr ()) s'"
    "db' = closedDB P (Inr ()) s'"
    using assms(1-3) by (auto simp: syncCmd_def andThen_def performDBIntegrityCheck_def syncIndex_def)
  obtain s2 where s2: "WaitForPendingCommits P s' = (Inr (), s2)" "db' = st_DB s2"
    using Close_waits [of s'] s'(2) by metis
  show ?thesis unfolding s2(2) by (rule sync_holds [OF s'(1) assms(4-8) s2(1)])
qed

text \<open>What the tweaks endpoint answers on a database that holds the blocks of a chain.\<close>

lemma served_entry:
  assumes "holds_blocks (entries (st_DB s)) bs" and "proper_chain bs" and "d \<in> set bs"
    and "blk_Height d = of_nat n"
  shows "db_GetBlockHashByHeight (store_db RB P s) (of_nat n) = Inr (Some (blk_Hash d))"
    and "tweaksEntry RC (store_db RB P s) (of_nat n) (blk_Hash d) =
      Inr \<lparr>tir_BlockIdentifier = \<lparr>bid_BlockHash = RC (blk_Hash d), bid_BlockHeight = of_nat n\<rparr>,
           tir_Index = map row_Tweak (block_tweaks d)\<rparr>"
  using holds_height [OF assms(1,3)] holds_tweaks [OF assms(1,3)] assms(2,4)
  by (simp_all add: store_db_def proper_chain_def tweaksEntry_def blockIdentifier_def nilBytes_Some)

lemma served_tweaks:
  assumes "holds_blocks (entries (st_DB s)) bs" and "proper_chain bs" and "d \<in> set bs"
    and "blk_Height d = of_nat n" and "n < 2 ^ 32"
  shows "GetTweaks RC (store_db RB P s) (AppendUint n) =
    JSON 200 (BTweaks \<lparr>tir_BlockIdentifier = \<lparr>bid_BlockHash = RC (blk_Hash d), bid_BlockHeight = of_nat n\<rparr>,
                       tir_Index = map row_Tweak (block_tweaks d)\<rparr>)"
  using served_entry(1) [OF assms(1-4), of RB] served_entry(2) [OF assms(1-4), of RC RB]
  by (auto simp: GetTweaks_def withBlock_eq [OF assms(5)] orFail_200 JSON_inject tweaksEntry_def nilBytes_Some)

end

section \<open>Properties of the commands\<close>

text \<open>The indexer of the run command never ends with nil: the run command ends with an error of the index,
  or with nil because it was interrupted.\<close>

theorem runIndexer_never_nil:
  "\<not> runIndexer skipPrecheck c S N Ns P ctxErr s (Inr ()) s'"
proof
  assume "runIndexer skipPrecheck c S N Ns P ctxErr s (Inr ()) s'"
  then obtain s1 where "ContinuousSync c S P ctxErr Ns s1 (Inr ()) s'"
    by (auto simp: runIndexer_def andThen_def)
  then show False using ContinuousSync_error by blast
qed

text \<open>C4. Sync, stop, serve: after a sync command over the heights \<open>a\<close> to \<open>e\<close> on an empty database that
  returned nil, with the integrity checks skipped, a server-only command on the database it left
  answers the tweaks of every height of the interval with the hash of the node's block and the
  tweaks of its transactions in block order: closing the store lost nothing.  The number of blocks
  must not be a multiple of 201, for which the last block stays in the batch and closing drops it.\<close>

theorem sync_command_then_serve:
  assumes "pebble_reliable P entries writes" and "entries db0 = []"
    and "syncCmd True a e c S N P (Inr db0) (Inr ()) (Some db')" and "0 < a" and "0 < e"
    and "0 < cfg_MaxParallelTweakComputations c"
    and "servable S N (uint a) (uint e)" and "proper_chain (chain_blocks S N (uint a) (uint e))"
    and "int (length [uint a..uint e]) mod 201 \<noteq> 0"
    and "a \<le> h" and "h \<le> e" and "indexedAt S N (uint h) = Some d"
  shows "\<exists>D. serverCmd RB P (Inr db') = Inr D \<and> GetTweaks RC D (AppendUint (unat h)) =
    JSON 200 (BTweaks \<lparr>tir_BlockIdentifier = \<lparr>bid_BlockHash = RC (blk_Hash d), bid_BlockHeight = h\<rparr>,
                       tir_Index = map row_Tweak (block_tweaks d)\<rparr>)"
proof -
  let ?bs = "chain_blocks S N (uint a) (uint e)"
  have "holds_blocks (entries db') ?bs"
    by (rule pebble_reliable.syncCmd_holds [OF assms(1,3,4,5,6,2,7) _ assms(9)])
      (use assms(8) in \<open>simp add: proper_chain_def\<close>)
  then have hb: "holds_blocks (entries (st_DB (NewStore P db'))) ?bs" by (simp add: NewStore_def)
  have d: "d \<in> set ?bs"
    using assms(10-12) by (auto simp: chain_blocks_def word_le_def intro!: image_eqI [of _ _ "uint h"])
  have ht: "blk_Height d = of_nat (unat h)" using indexedAt_height [OF assms(12)] by simp
  have "unat h < 2 ^ 32" using unsigned_less [where 'a = nat, of h] by simp
  from pebble_reliable.served_tweaks [OF assms(1) hb assms(8) d ht this] show ?thesis
    by (simp add: serverCmd_def)
qed

theorem sync_command_then_serve_witness:
  "\<exists>db' D. syncCmd True 10 10 (initialConfig 4) x_sp x_node1 mem_pebble (Inr []) (Inr ()) (Some db') \<and>
     serverCmd rev mem_pebble (Inr db') = Inr D \<and>
     GetTweaks rev D (AppendUint 10) =
       JSON 200 (BTweaks \<lparr>tir_BlockIdentifier = \<lparr>bid_BlockHash = replicate 32 4, bid_BlockHeight = 10\<rparr>,
                          tir_Index = map row_Tweak (block_tweaks x_block)\<rparr>)"
proof -
  have e: "mem_entries [] = []" by (simp add: mem_entries_def)
  then have t: "typed (set (mem_entries []))" by (simp add: typed_def)
  have ten: "uint (10 :: u32) = 10" "unat (10 :: u32) = 10" by simp_all
  obtain s' where s': "SyncBlocks (initialConfig 4) x_sp x_node1 mem_pebble None 10 10
      (NewStore mem_pebble []) (Inr ()) s'"
    using mem.SyncBlocks_ok [OF store_run.start _ t x_servable1 x_config] by auto
  then have cmd: "syncCmd True 10 10 (initialConfig 4) x_sp x_node1 mem_pebble (Inr []) (Inr ())
      (Some (closedDB mem_pebble (Inr ()) s'))"
    by (auto simp: syncCmd_def andThen_def performDBIntegrityCheck_def syncIndex_def)
  have "blk_Hash x_block = replicate 32 4" by (simp add: x_block_def)
  then show ?thesis
    using sync_command_then_serve [OF mem_reliable e cmd _ _ x_config(2), where h = 10 and d = x_block and RC = rev and RB = rev]
      cmd x_servable1 x_proper x_at by (auto simp: ten x_chain1)
qed

end
