(* ===== verification/Continuous.thy ===== *)
theory Continuous
  imports Sync_Spec Compute_Index
begin

text \<open>
  The continuous sync: a block that the writer has stored is visible at once, and after a tick the
  oracle catches up with the node, whatever the schedule of the main function and the writer.
\<close>

section \<open>The writer\<close>

text \<open>A store with nothing under way: no commit is pending and the active batch is empty.\<close>

definition settled :: "('b \<Rightarrow> kv list) \<Rightarrow> ('db, 'b) Store \<Rightarrow> bool" where
  "settled writes s \<longleftrightarrow> batch_bounds s \<and> batchCounter s = 0 \<and> pending s = [] \<and>
     (\<exists>b. dbBatch s = Some b \<and> writes b = [])"

context pebble_reliable
begin

lemma continuousWrite_settled:
  assumes "settled writes s" and "wf_block d"
  shows "\<exists>s'. continuousWrite P d s = (Inr (), s') \<and> settled writes s' \<and>
    entries (st_DB s') = kv_puts (map enc_put (block_puts d)) (entries (st_DB s))"
proof -
  obtain b where b: "dbBatch s = Some b" "writes b = []" using assms(1) by (auto simp: settled_def)
  obtain b' where b': "attachBlockToBatch P d b = (Inr (), b')"
    "writes b' = map enc_put (block_puts d)" using attachBlock_ok [OF assms(2), of b] b(2) by auto
  obtain s1 where s1: "ApplyBlock P d s = (Inr (), s1)" using ApplyBlock_ok [OF b(1) assms(2)] by blast
  have eq: "s1 = s\<lparr>batchCounter := 1, dbBatch := Some b'\<rparr>"
    by (rule ApplyBlock_cases [OF s1 b(1)]) (use assms(1) b b' in \<open>auto simp: settled_def batch_bounds_def\<close>)
  obtain db' where db': "pb_commit P (st_DB s) b' = Inr db'"
    "entries db' = kv_puts (map enc_put (block_puts d)) (entries (st_DB s))"
    using commitE [of "st_DB s" b'] b'(2) by auto
  then show ?thesis
    using assms(1) s1 eq
    by (auto simp: continuousWrite_def FlushBatch_def commitBatch_def rotateLocked_def closeOldBatch_def
        settled_def batch_bounds_def new_batch)
qed

end

section \<open>Catching up after a tick\<close>

text \<open>
  The part of the chain above a block at height \<open>base\<close>: the node serves valid blocks up to \<open>n\<close>, each
  names the hash of the one below as its predecessor, and hashes are not repeated.
\<close>

definition chain_above ::
    "sp_api \<Rightarrow> node_api \<Rightarrow> (u32 \<Rightarrow> IBlock) \<Rightarrow> (u32 \<Rightarrow> bytes) \<Rightarrow> u32 \<Rightarrow> u32 \<Rightarrow> bool" where
  "chain_above S N chain hash base n \<longleftrightarrow>
     nd_Blocks N = Inr (uint n) \<and> inj_on hash {base..n} \<and> length (hash base) = 32 \<and>
     (\<forall>h. base < h \<and> h \<le> n \<longrightarrow> pullBlock N (uint h) = Some (Inr (chain h)) \<and> valid_iblock S (chain h) \<and>
        ib_Height (chain h) = uint h \<and> ib_Hash (chain h) = hash h \<and> ib_PrevBlockHash (chain h) = hash (h - 1))"

definition known :: "kv list \<Rightarrow> bytes \<Rightarrow> bool" where
  "known es x \<longleftrightarrow> map_of es (KeyCIBlock x) \<noteq> None"

text \<open>The rows of the blocks from height \<open>n\<close> down to \<open>k\<close>.\<close>

definition rows_down :: "sp_api \<Rightarrow> (u32 \<Rightarrow> IBlock) \<Rightarrow> nat \<Rightarrow> nat \<Rightarrow> DBBlock list" where
  "rows_down S chain n k = map (\<lambda>m. the (rowsOf S (chain (of_nat m)))) (rev [k..<Suc n])"

definition puts_of :: "DBBlock list \<Rightarrow> kv list" where
  "puts_of bs = concat (map (\<lambda>d. map enc_put (block_puts d)) bs)"

fun lowest :: "(u32 \<Rightarrow> bytes) \<Rightarrow> u32 \<Rightarrow> u32 \<Rightarrow> cont_main \<Rightarrow> nat \<Rightarrow> bool" where
  "lowest hash base n (Pull h) k \<longleftrightarrow> base < h \<and> h \<le> n \<and> k = Suc (unat h)"
| "lowest hash base n (Check h prev) k \<longleftrightarrow> base < h \<and> h \<le> n \<and> k = unat h \<and> prev = hash (h - 1)"
| "lowest hash base n Select k \<longleftrightarrow> k = Suc (unat base)"

fun main_measure :: "u32 \<Rightarrow> cont_main \<Rightarrow> nat" where
  "main_measure base (Pull h) = 3 * (unat h - unat base)"
| "main_measure base (Check h prev) = 3 * (unat h - unat base) - 2"
| "main_measure base Select = 0"

fun walking :: "(u32 \<Rightarrow> bytes) \<Rightarrow> u32 \<Rightarrow> u32 \<Rightarrow> cont_main \<Rightarrow> bool" where
  "walking hash base n (Pull h) \<longleftrightarrow> base < h \<and> h \<le> n"
| "walking hash base n (Check h prev) \<longleftrightarrow> base < h \<and> h \<le> n \<and> prev = hash (h - 1)"
| "walking hash base n Select \<longleftrightarrow> True"

text \<open>
  The measure.  While the writer has not stored the tip, a further tick may start the walk again; each
  such walk puts at least one block into the channel of the writer, whose room bounds their number.
  \<open>credit\<close> counts the room twice, and one more outside a pull, which pays for the tick.
\<close>

definition credit :: "nat \<Rightarrow> ('db, 'b) cont_state \<Rightarrow> nat" where
  "credit cap t = (if cs_applied t = []
     then 2 * (cap - length (cs_writer t)) + (case cs_main t of Pull h \<Rightarrow> 0 | _ \<Rightarrow> 1) else 0)"

definition cont_measure :: "nat \<Rightarrow> u32 \<Rightarrow> u32 \<Rightarrow> ('db, 'b) cont_state \<Rightarrow> nat" where
  "cont_measure cap base n t = Suc (3 * (unat n - unat base)) * credit cap t +
     main_measure base (cs_main t) + length (cs_writer t)"

text \<open>
  The blocks that were sent: those of the first walk from \<open>n\<close> down, and when that walk is complete
  those of further walks, which are the same blocks again.
\<close>

definition cont_sent ::
    "sp_api \<Rightarrow> (u32 \<Rightarrow> IBlock) \<Rightarrow> (u32 \<Rightarrow> bytes) \<Rightarrow> u32 \<Rightarrow> u32 \<Rightarrow> nat \<Rightarrow> ('db, 'b) cont_state \<Rightarrow> bool" where
  "cont_sent S chain hash base n k t \<longleftrightarrow> unat base < k \<and>
     (\<exists>again. cs_applied t @ cs_writer t = rows_down S chain (unat n) k @ again \<and>
        set again \<subseteq> set (rows_down S chain (unat n) k) \<and>
        (again = [] \<and> lowest hash base n (cs_main t) k \<or>
         k = Suc (unat base) \<and> walking hash base n (cs_main t) \<or>
         again = [] \<and> k = Suc (unat n) \<and> cs_main t = Select))"

definition cont_inv ::
    "nat \<Rightarrow> sp_api \<Rightarrow> (u32 \<Rightarrow> IBlock) \<Rightarrow> (u32 \<Rightarrow> bytes) \<Rightarrow> u32 \<Rightarrow> u32 \<Rightarrow> ('db \<Rightarrow> kv list) \<Rightarrow> ('b \<Rightarrow> kv list) \<Rightarrow>
     kv list \<Rightarrow> ('db, 'b) cont_state \<Rightarrow> bool" where
  "cont_inv cap S chain hash base n entries writes es t \<longleftrightarrow>
     cs_result t = None \<and> cs_failed t = None \<and> settled writes (cs_store t) \<and> length (cs_writer t) \<le> cap \<and>
     (\<exists>k. cont_sent S chain hash base n k t) \<and>
     entries (st_DB (cs_store t)) = kv_puts (puts_of (cs_applied t)) es"

lemma rows_down_Nil [simp]: "rows_down S chain n (Suc n) = []"
  by (simp add: rows_down_def)

lemma rows_down_snoc:
  "k \<le> n \<Longrightarrow> rows_down S chain n k = rows_down S chain n (Suc k) @ [the (rowsOf S (chain (of_nat k)))]"
  by (simp add: rows_down_def upt_conv_Cons del: upt_Suc)

lemma chain_rows_at:
  assumes "sp_ok S" and "chain_above S N chain hash base n" and "base < h" and "h \<le> n"
  obtains d where "blockRows S (chain h) = Inr d" "rowsOf S (chain h) = Some d" "wf_block d"
    "blk_Hash d = hash h" "blk_Height d = h"
proof -
  have v: "valid_iblock S (chain h)" "ib_Height (chain h) = uint h" "ib_Hash (chain h) = hash h"
    using assms(2-4) by (auto simp: chain_above_def)
  obtain txs where "blockRows S (chain h) =
      Inr \<lparr>blk_Height = of_int (ib_Height (chain h)), blk_Hash = ib_Hash (chain h), blk_Txs = txs\<rparr>"
    "wf_block \<lparr>blk_Height = of_int (ib_Height (chain h)), blk_Hash = ib_Hash (chain h), blk_Txs = txs\<rparr>"
    by (rule blockRows_wf [OF assms(1) v(1)])
  then show thesis using that v(2,3) by (auto simp: rowsOf_def)
qed

lemma rows_down_mem:
  assumes "sp_ok S" and "chain_above S N chain hash base n" and "d \<in> set (rows_down S chain (unat n) k)"
    and "unat base < k"
  obtains h where "base < h" "h \<le> n" "unat h \<ge> k" "wf_block d" "blk_Hash d = hash h" "blk_Height d = h"
    "rowsOf S (chain h) = Some d"
proof -
  obtain m where m: "k \<le> m" "m \<le> unat n" "d = the (rowsOf S (chain (of_nat m)))"
    using assms(3) by (auto simp: rows_down_def)
  have u: "unat (of_nat m :: u32) = m" using m(2) unsigned_less [where 'a = nat, of n] by (simp add: unat_of_nat)
  then have r: "base < of_nat m" "of_nat m \<le> n" using m assms(4) by (simp_all add: word_less_nat_alt word_le_nat_alt)
  show thesis
    by (rule chain_rows_at [OF assms(1,2) r]) (use that r u m in auto)
qed

text \<open>Looking up a key after some blocks have been written.\<close>

lemma puts_of_mem:
  assumes "list_all wf_block bs" and "wf_key dk"
  shows "(enc_key dk, v) \<in> set (puts_of bs) \<longleftrightarrow> (\<exists>d \<in> set bs. (dk, v) \<in> set (block_puts d))"
  using assms(1) block_put_enc [OF _ assms(2)] unfolding puts_of_def list_all_iff by fastforce

lemma map_of_rev_unique:
  assumes "(k, v) \<in> set ws" and "\<And>v'. (k, v') \<in> set ws \<Longrightarrow> v' = v"
  shows "map_of (rev ws) k = Some v"
proof -
  have "k \<in> fst ` set (rev ws)" using assms(1) by force
  then obtain v' where "map_of (rev ws) k = Some v'" by (meson map_of_eq_None_iff not_None_eq)
  then show ?thesis using assms(2) by (auto dest: map_of_SomeD)
qed

lemma known_puts:
  assumes "list_all wf_block bs" and "length x = 32"
  shows "known (kv_puts (puts_of bs) es) x \<longleftrightarrow> known es x \<or> x \<in> blk_Hash ` set bs"
proof -
  have "KeyCIBlock x \<in> fst ` set (puts_of bs) \<longleftrightarrow> x \<in> blk_Hash ` set bs"
    using puts_of_mem [OF assms(1), of "DCIBlock x"] assms(2) by (force simp: block_puts_mem)
  then have "map_of (rev (puts_of bs)) (KeyCIBlock x) = None \<longleftrightarrow> x \<notin> blk_Hash ` set bs"
    by (simp only: map_of_eq_None_iff set_rev)
  then show ?thesis unfolding known_def map_of_kv_puts map_add_None by (cases "x \<in> blk_Hash ` set bs") simp_all
qed

lemma height_puts:
  assumes "list_all wf_block bs" and "d \<in> set bs" and "\<And>d'. d' \<in> set bs \<Longrightarrow> blk_Height d' = blk_Height d \<Longrightarrow> d' = d"
  shows "map_of (kv_puts (puts_of bs) es) (KeyCIHeight (blk_Height d)) = Some (blk_Hash d)"
proof -
  have "(KeyCIHeight (blk_Height d), v) \<in> set (puts_of bs) \<longleftrightarrow>
      (\<exists>d' \<in> set bs. blk_Height d = blk_Height d' \<and> v = blk_Hash d')" for v
    using puts_of_mem [OF assms(1), of "DCIHeight (blk_Height d)" v] by (simp add: block_puts_mem)
  then have "(KeyCIHeight (blk_Height d), v) \<in> set (puts_of bs) \<longleftrightarrow> v = blk_Hash d" for v
    using assms(2,3) by metis
  then have "map_of (rev (puts_of bs)) (KeyCIHeight (blk_Height d)) = Some (blk_Hash d)"
    by (intro map_of_rev_unique) auto
  then show ?thesis by (simp add: map_of_kv_puts)
qed

lemma chain_hash_length:
  assumes "sp_ok S" and "chain_above S N chain hash base n" and "base \<le> h" and "h \<le> n"
  shows "length (hash h) = 32"
proof (cases "h = base")
  case False
  then have "base < h" using assms(3) by simp
  then show ?thesis by (rule chain_rows_at [OF assms(1,2) _ assms(4)]) (use wf_block_hash in metis)
qed (use assms(2) in \<open>simp add: chain_above_def\<close>)

lemma rows_down_wf:
  assumes "sp_ok S" and "chain_above S N chain hash base n" and "unat base < k"
  shows "list_all wf_block (rows_down S chain (unat n) k)"
  unfolding list_all_iff by (blast elim: rows_down_mem [OF assms(1,2) _ assms(3)])

text \<open>What is known of the chain while the blocks from \<open>h\<close> on are under way.\<close>

lemma known_prev:
  assumes "sp_ok S" and "chain_above S N chain hash base n"
    and "known es (hash base)" and "\<And>m. base < m \<Longrightarrow> m \<le> n \<Longrightarrow> \<not> known es (hash m)"
    and "base < h" and "h \<le> n" and "set bs \<subseteq> set (rows_down S chain (unat n) (unat h))"
  shows "known (kv_puts (puts_of bs) es) (hash (h - 1)) \<longleftrightarrow> h = base + 1"
proof -
  have lt: "unat base < unat h" using assms(5) by (simp add: word_less_nat_alt)
  have h: "base \<le> h - 1" "h - 1 < h" "h - 1 \<le> n" using assms(5,6) by (unat_arith)+
  have wf: "list_all wf_block bs"
    using rows_down_wf [OF assms(1,2) lt] assms(7) by (auto simp: list_all_iff)
  have "hash (h - 1) \<notin> blk_Hash ` set bs"
  proof
    assume "hash (h - 1) \<in> blk_Hash ` set bs"
    then obtain d where d: "d \<in> set (rows_down S chain (unat n) (unat h))" "blk_Hash d = hash (h - 1)"
      using assms(7) by auto
    obtain m where m: "base < m" "m \<le> n" "unat h \<le> unat m" "blk_Hash d = hash m"
      by (rule rows_down_mem [OF assms(1,2) d(1) lt])
    have "inj_on hash {base..n}" using assms(2) by (simp add: chain_above_def)
    then have "h - 1 = m" by (rule inj_onD) (use d(2) m h in auto)
    then show False using m(3) h(2) by (simp add: word_less_nat_alt)
  qed
  then have "known (kv_puts (puts_of bs) es) (hash (h - 1)) \<longleftrightarrow> known es (hash (h - 1))"
    using known_puts [OF wf chain_hash_length [OF assms(1,2) h(1,3)]] by simp
  also have "\<dots> \<longleftrightarrow> h - 1 = base"
    using assms(3,4) h(1,3) order_le_imp_less_or_eq by metis
  also have "\<dots> \<longleftrightarrow> h = base + 1" by (auto simp: algebra_simps)
  finally show ?thesis .
qed

lemma puts_of_snoc [simp]:
  "kv_puts (map enc_put (block_puts d)) (kv_puts (puts_of bs) es) = kv_puts (puts_of (bs @ [d])) es"
  by (simp add: puts_of_def)

lemma sent_mem:
  assumes "cont_sent S chain hash base n k t"
  shows "set (cs_applied t) \<union> set (cs_writer t) = set (rows_down S chain (unat n) k)"
proof -
  obtain again where "cs_applied t @ cs_writer t = rows_down S chain (unat n) k @ again"
    "set again \<subseteq> set (rows_down S chain (unat n) k)" using assms by (auto simp: cont_sent_def)
  then have "set (cs_applied t) \<union> set (cs_writer t) = set (rows_down S chain (unat n) k) \<union> set again"
    by (metis set_append)
  then show ?thesis using \<open>set again \<subseteq> _\<close> by blast
qed

text \<open>Once a block has been stored, the tip has.\<close>

lemma first_applied:
  assumes "cont_sent S chain hash base n k t" and "cs_applied t \<noteq> []"
  shows "the (rowsOf S (chain n)) \<in> set (cs_applied t)"
proof -
  obtain again where a: "cs_applied t @ cs_writer t = rows_down S chain (unat n) k @ again"
    "set again \<subseteq> set (rows_down S chain (unat n) k)" using assms(1) by (auto simp: cont_sent_def)
  have ne: "rows_down S chain (unat n) k \<noteq> []"
  proof
    assume e: "rows_down S chain (unat n) k = []"
    then have "again = []" using a(2) by simp
    then show False using a(1) e assms(2) by simp
  qed
  then have "k \<le> unat n" by (auto simp: rows_down_def split: if_splits)
  then have "hd (rows_down S chain (unat n) k) = the (rowsOf S (chain n))"
    by (simp add: rows_down_def)
  moreover have "hd (cs_applied t) = hd (rows_down S chain (unat n) k)"
    using a(1) assms(2) ne by (metis hd_append2)
  ultimately show ?thesis using assms(2) hd_in_set by metis
qed

context pebble_reliable
begin

lemma BlockhashInDB_known: "BlockhashInDB P s x = Inr (known (entries (st_DB s)) x)"
  by (simp add: BlockhashInDB_def known_def get_eq split: option.splits)

lemma GetBlockHashByHeight_eq:
  "GetBlockHashByHeight P s h = Inr (map_of (entries (st_DB s)) (KeyCIHeight h))"
  by (simp add: GetBlockHashByHeight_def get_eq split: option.splits)

lemma typed_after_puts:
  assumes "list_all wf_block bs" and "typed (set es)" and "kv_sorted es"
  shows "typed (set (kv_puts (puts_of bs) es))"
proof -
  have "set (puts_of bs) = all_puts bs" by (auto simp: puts_of_def all_puts_def)
  then have "typed (set es \<union> set (puts_of bs))" using typed_all_puts [OF assms(1)] assms(2) by (simp add: typed_Un)
  then show ?thesis by (rule typed_subset) (rule set_kv_puts_subset [OF assms(3)])
qed

text \<open>With a block of the chain stored, the tip of the database is the node's.\<close>

lemma stored_tip:
  assumes "cont_sent S chain hash base n k t" and "sp_ok S" and "chain_above S N chain hash base n" and "base < n"
    and "typed (set es)" and "kv_sorted es" and "entries (st_DB (cs_store t)) = kv_puts (puts_of (cs_applied t)) es"
    and "cs_applied t \<noteq> []" and "GetChainTip P (cs_store t) = Inr (x, tip)"
  shows "n \<le> tip"
proof -
  have lt: "unat base < k" using assms(1) by (simp add: cont_sent_def)
  have wf: "list_all wf_block (cs_applied t)"
    using rows_down_wf [OF assms(2,3) lt] sent_mem [OF assms(1)] by (auto simp: list_all_iff)
  obtain d where d: "rowsOf S (chain n) = Some d" "blk_Height d = n" "blk_Hash d = hash n"
    by (rule chain_rows_at [OF assms(2,3,4)]) auto
  have mem: "d \<in> set (cs_applied t)" using first_applied [OF assms(1,8)] d(1) by simp
  have "d' = d" if d': "d' \<in> set (cs_applied t)" "blk_Height d' = blk_Height d" for d'
  proof -
    have r: "d' \<in> set (rows_down S chain (unat n) k)" using d'(1) sent_mem [OF assms(1)] by blast
    obtain h where "blk_Height d' = h" "rowsOf S (chain h) = Some d'"
      by (rule rows_down_mem [OF assms(2,3) r lt]) auto
    then show ?thesis using d' d by simp
  qed
  then have "map_of (entries (st_DB (cs_store t))) (KeyCIHeight n) \<noteq> None"
    using height_puts [OF wf mem] d(2) assms(7) by simp
  moreover have "typed (set (entries (st_DB (cs_store t))))"
    unfolding assms(7) by (rule typed_after_puts [OF wf assms(5,6)])
  then have "is_tip (entries (st_DB (cs_store t))) (x, tip)"
    using GetChainTip_eq assms(9) by force
  ultimately show ?thesis by (cases x) (auto simp: is_tip_def)
qed

text \<open>What a walk finds when it looks for the predecessor of the block at \<open>h\<close>.\<close>

lemma check_prev:
  assumes "cont_sent S chain hash base n k t" and "sp_ok S" and "chain_above S N chain hash base n"
    and "entries (st_DB (cs_store t)) = kv_puts (puts_of (cs_applied t)) es"
    and "known es (hash base)" and "\<And>m. base < m \<Longrightarrow> m \<le> n \<Longrightarrow> \<not> known es (hash m)"
    and "cs_main t = Check h prev"
  shows "\<exists>found. BlockhashInDB P (cs_store t) prev = Inr found \<and> base < h \<and> h \<le> n \<and> (h = base + 1 \<longrightarrow> found) \<and>
    (found \<longrightarrow> k = Suc (unat base)) \<and>
    (\<not> found \<longrightarrow> base < h - 1 \<and> unat (h - 1) = unat h - 1 \<and>
       (lowest hash base n (Check h prev) k \<longrightarrow> lowest hash base n (Pull (h - 1)) k))"
proof -
  let ?es = "kv_puts (puts_of (cs_applied t)) es"
  have lt: "unat base < k" using assms(1) by (simp add: cont_sent_def)
  have sub: "set (cs_applied t) \<subseteq> set (rows_down S chain (unat n) k)" using sent_mem [OF assms(1)] by blast
  have wf: "list_all wf_block (cs_applied t)"
    using rows_down_wf [OF assms(2,3) lt] sub by (auto simp: list_all_iff)
  have h: "base < h" "h \<le> n" "prev = hash (h - 1)" "lowest hash base n (Check h prev) k \<or> k = Suc (unat base)"
    using assms(1,7) by (auto simp: cont_sent_def)
  have r: "BlockhashInDB P (cs_store t) prev = Inr (known ?es prev)"
    by (simp add: BlockhashInDB_known assms(4))
  have low: "known ?es prev \<longleftrightarrow> h = base + 1" if "lowest hash base n (Check h prev) k"
    using known_prev [OF assms(2,3,5,6) h(1,2)] sub that h(3) by simp
  have base: "known ?es prev" if "h = base + 1"
    using known_puts [OF wf chain_hash_length [OF assms(2,3)], of base] assms(5) that h(1,2,3) by auto
  have "k = Suc (unat base)" if "known ?es prev"
    using h(4)
  proof
    assume l: "lowest hash base n (Check h prev) k"
    then have "h = base + 1" using low that by simp
    then show ?thesis using l h(1) by (metis height_cases Suc_eq_plus1 lowest.simps(2))
  qed
  moreover have "base < h - 1 \<and> unat (h - 1) = unat h - 1 \<and>
      (lowest hash base n (Check h prev) k \<longrightarrow> lowest hash base n (Pull (h - 1)) k)" if "\<not> known ?es prev"
  proof -
    have ne: "h \<noteq> base + 1" using base that by blast
    have p: "base < h - 1" "unat (h - 1) = unat h - 1" by (rule height_cases [OF h(1)]; use ne in simp)+
    then show ?thesis using h(2) lt by (auto simp: word_le_nat_alt word_less_nat_alt)
  qed
  ultimately show ?thesis using r h(1,2) base by blast
qed

lemma cont_inv_step:
  assumes "cont_step c S P None N t t'" and "cont_inv (writerCap c) S chain hash base n entries writes es t"
    and "sp_ok S" and "chain_above S N chain hash base n" and "typed (set es)" and "kv_sorted es"
    and "known es (hash base)" and "\<And>m. base < m \<Longrightarrow> m \<le> n \<Longrightarrow> \<not> known es (hash m)" and "base < n"
  shows "cont_inv (writerCap c) S chain hash base n entries writes es t' \<and>
    cont_measure (writerCap c) base n t' < cont_measure (writerCap c) base n t"
proof -
  obtain k where k: "cont_sent S chain hash base n k t"
    and inv: "cs_result t = None" "cs_failed t = None" "settled writes (cs_store t)"
      "entries (st_DB (cs_store t)) = kv_puts (puts_of (cs_applied t)) es" "length (cs_writer t) \<le> writerCap c"
    using assms(2) by (auto simp: cont_inv_def)
  have lt: "unat base < k" using k by (simp add: cont_sent_def)
  have wf: "list_all wf_block (cs_applied t @ cs_writer t)"
    using rows_down_wf [OF assms(3,4) lt] sent_mem [OF k] by (fastforce simp: list_all_iff)
  have chain_at: "pullBlock N (uint h) = Some (Inr (chain h)) \<and> ib_PrevBlockHash (chain h) = hash (h - 1)"
    if "base < h" "h \<le> n" for h using assms(4) that by (simp add: chain_above_def)
  have pull: "base < h \<and> h \<le> n" if "cs_main t = Pull h" for h
    using k that by (auto simp: cont_sent_def)
  note check = check_prev [OF k assms(3,4) inv(4) assms(7,8)]
  from assms(1) show ?thesis
  proof cases
    case (tick hx syncTip blocks)
    have b: "of_int blocks = n" using tick assms(4) by (simp add: chain_above_def)
    then have e: "cs_applied t = []"
      using stored_tip [OF k assms(3,4,9,5,6) inv(4) _ tick(4)] tick(6) by (metis not_less)
    have "\<exists>k. cont_sent S chain hash base n k t'"
    proof (cases "k = Suc (unat base)")
      case True
      then have "cont_sent S chain hash base n k t'" using k tick b assms(9) by (auto simp: cont_sent_def)
      then show ?thesis by blast
    next
      case False
      then have "cs_writer t = []" "k = Suc (unat n)" using k tick(3) e by (auto simp: cont_sent_def)
      then have "cont_sent S chain hash base n k t'"
        using e tick b assms(9) by (auto simp: cont_sent_def word_less_nat_alt)
      then show ?thesis by blast
    qed
    moreover have "credit (writerCap c) t = Suc (credit (writerCap c) t')" using tick e by (simp add: credit_def)
    ultimately show ?thesis using tick b inv by (simp add: cont_inv_def cont_measure_def)
  next
    case (tick_tip_err x)
    have "typed (set (entries (st_DB (cs_store t))))"
      unfolding inv(4) by (rule typed_after_puts [OF _ assms(5,6)]) (use wf in simp)
    then show ?thesis using GetChainTip_eq [of "cs_store t"] tick_tip_err by auto
  next
    case (tick_info_err hx syncTip x)
    then show ?thesis using assms(4) by (simp add: chain_above_def)
  next
    case (pull_send h b d)
    have h: "base < h" "h \<le> n" using pull pull_send by auto
    have b: "b = chain h" using chain_at [OF h] pull_send by simp
    have d: "rowsOf S (chain h) = Some d" using pull_send b by (simp add: rowsOf_def)
    have "\<exists>k. cont_sent S chain hash base n k t'"
    proof (cases "k = Suc (unat base)")
      case True
      have "d \<in> set (rows_down S chain (unat n) k)"
        using True h d unfolding rows_down_def
        by (auto simp: word_less_nat_alt word_le_nat_alt simp del: upt_Suc intro!: image_eqI [of _ _ "unat h"])
      moreover obtain again where "cs_applied t @ cs_writer t = rows_down S chain (unat n) k @ again"
        "set again \<subseteq> set (rows_down S chain (unat n) k)" using k by (auto simp: cont_sent_def)
      ultimately have "cs_applied t' @ cs_writer t' = rows_down S chain (unat n) k @ again @ [d]"
        "set (again @ [d]) \<subseteq> set (rows_down S chain (unat n) k)" using pull_send(1) by auto
      moreover have "walking hash base n (cs_main t')" using pull_send(1) h chain_at [OF h] b by simp
      ultimately have "cont_sent S chain hash base n k t'" using lt True unfolding cont_sent_def by blast
      then show ?thesis by blast
    next
      case False
      then have l: "k = Suc (unat h)" "cs_applied t @ cs_writer t = rows_down S chain (unat n) k"
        using k pull_send by (auto simp: cont_sent_def)
      have "rows_down S chain (unat n) (unat h) = rows_down S chain (unat n) k @ [d]"
        using rows_down_snoc [of "unat h" "unat n" S chain] h d l(1) by (simp add: word_le_nat_alt)
      then have "cs_applied t' @ cs_writer t' = rows_down S chain (unat n) (unat h) @ []"
        using l(2) pull_send(1) by simp
      moreover have "lowest hash base n (cs_main t') (unat h)" using pull_send(1) h chain_at [OF h] b by simp
      moreover have "unat base < unat h" using h(1) by (simp add: word_less_nat_alt)
      ultimately have "cont_sent S chain hash base n (unat h) t'"
        unfolding cont_sent_def by (intro conjI exI [of _ "[]"] disjI1) simp_all
      then show ?thesis by blast
    qed
    moreover have "credit (writerCap c) t' \<le> credit (writerCap c) t"
      using pull_send by (simp add: credit_def) linarith
    then have "Suc (3 * (unat n - unat base)) * credit (writerCap c) t' \<le>
        Suc (3 * (unat n - unat base)) * credit (writerCap c) t" by (rule mult_le_mono2)
    ultimately show ?thesis
      using pull_send inv h by (auto simp: cont_inv_def cont_measure_def word_less_nat_alt)
  next
    case (pull_fail h x)
    then show ?thesis using chain_at [of h] pull [of h] by auto
  next
    case (rows_fail h b x)
    have h: "base < h" "h \<le> n" using pull rows_fail by auto
    show ?thesis by (rule chain_rows_at [OF assms(3,4) h]) (use rows_fail chain_at [OF h] in auto)
  next
    case (check_known h prev)
    then have h: "k = Suc (unat base)" "base < h" using check [of h prev] by auto
    then have "cont_sent S chain hash base n k t'" using k check_known by (auto simp: cont_sent_def)
    moreover have "credit (writerCap c) t' = credit (writerCap c) t" using check_known by (simp add: credit_def)
    ultimately show ?thesis using check_known inv h(2)
      by (auto simp: cont_inv_def cont_measure_def word_less_nat_alt)
  next
    case (check_unknown h prev)
    then have h: "base < h - 1" "h \<le> n" "unat (h - 1) = unat h - 1" "base < h"
      "lowest hash base n (Check h prev) k \<longrightarrow> lowest hash base n (Pull (h - 1)) k"
      using check [of h prev] by auto
    have "h - 1 \<le> n" using h by (simp add: word_le_nat_alt)
    then have "cont_sent S chain hash base n k t'" using k check_unknown h(1,5) by (auto simp: cont_sent_def)
    moreover have "credit (writerCap c) t' \<le> credit (writerCap c) t" using check_unknown by (simp add: credit_def)
    then have "Suc (3 * (unat n - unat base)) * credit (writerCap c) t' \<le>
        Suc (3 * (unat n - unat base)) * credit (writerCap c) t" by (rule mult_le_mono2)
    ultimately show ?thesis using check_unknown inv h
      by (auto simp: cont_inv_def cont_measure_def word_less_nat_alt)
  next
    case (check_fail h prev x)
    then show ?thesis using check by auto
  next
    case (writer_ok d ds s')
    have d: "wf_block d" using wf writer_ok by simp
    have s': "settled writes s'" "entries (st_DB s') = kv_puts (map enc_put (block_puts d)) (entries (st_DB (cs_store t)))"
      using continuousWrite_settled [OF inv(3) d] writer_ok by auto
    have "cont_sent S chain hash base n k t'" using k writer_ok by (auto simp: cont_sent_def)
    moreover have "credit (writerCap c) t' = 0" using writer_ok by (simp add: credit_def)
    ultimately show ?thesis using writer_ok inv s' by (auto simp: cont_inv_def cont_measure_def)
  next
    case (writer_fail d ds x s')
    have d: "wf_block d" using wf writer_fail by simp
    from continuousWrite_settled [OF inv(3) d] writer_fail show ?thesis by auto
  qed (use inv in \<open>auto simp: settled_def\<close>)
qed

text \<open>Until the main function is back at its select with a stored tip and the writer has nothing to do, a step
  is possible.\<close>

lemma cont_progress:
  assumes "cont_inv (writerCap c) S chain hash base n entries writes es t" and "sp_ok S"
    and "chain_above S N chain hash base n" and "typed (set es)" and "kv_sorted es" and "base < n"
    and "\<And>m. map_of es (KeyCIHeight m) \<noteq> None \<Longrightarrow> m < n"
    and "\<not> (cs_main t = Select \<and> cs_writer t = [] \<and> cs_applied t \<noteq> [])"
  shows "\<exists>t'. cont_step c S P None N t t'"
proof -
  obtain k where k: "cont_sent S chain hash base n k t"
    and inv: "cs_result t = None" "cs_failed t = None" "settled writes (cs_store t)"
      "entries (st_DB (cs_store t)) = kv_puts (puts_of (cs_applied t)) es"
    using assms(1) by (auto simp: cont_inv_def)
  show ?thesis
  proof (cases "cs_writer t")
    case (Cons d ds)
    have "unat base < k" using k by (simp add: cont_sent_def)
    then have "list_all wf_block (cs_writer t)"
      using rows_down_wf [OF assms(2,3)] sent_mem [OF k] by (fastforce simp: list_all_iff)
    then have "wf_block d" using Cons by simp
    from continuousWrite_settled [OF inv(3) this] obtain s' where "continuousWrite P d (cs_store t) = (Inr (), s')"
      by blast
    from cont_step.writer_ok [OF inv(1,2) Cons this] show ?thesis by blast
  next
    case Nil
    then have room: "length (cs_writer t) < writerCap c" by (simp add: writerCap_def)
    show ?thesis
    proof (cases "cs_main t")
      case (Pull h)
      then have h: "base < h" "h \<le> n" using k by (auto simp: cont_sent_def)
      have p: "pullBlock N (uint h) = Some (Inr (chain h))" using assms(3) h by (simp add: chain_above_def)
      obtain d where "blockRows S (chain h) = Inr d" by (rule chain_rows_at [OF assms(2,3) h])
      from cont_step.pull_send [OF inv(1) Pull p this room] show ?thesis by blast
    next
      case (Check h prev)
      have "cont_step c S P None N t (if known (entries (st_DB (cs_store t))) prev
          then t\<lparr>cs_main := Select\<rparr> else t\<lparr>cs_main := Pull (h - 1)\<rparr>)"
        using Check inv(1) by (auto simp: BlockhashInDB_known intro: cont_step.intros)
      then show ?thesis by blast
    next
      case Select
      then have es: "entries (st_DB (cs_store t)) = es" using assms(8) Nil inv(4) by (simp add: puts_of_def)
      obtain x tip where r: "GetChainTip P (cs_store t) = Inr (x, tip)" "is_tip es (x, tip)"
        using GetChainTip_eq [of "cs_store t"] assms(4) es by auto
      have "tip < n"
      proof (cases x)
        case None
        then show ?thesis using r(2) assms(6) by (auto simp: is_tip_def intro: le_less_trans [of 0 base])
      next
        case (Some y)
        then show ?thesis using r(2) assms(7) by (auto simp: is_tip_def)
      qed
      then show ?thesis
        using cont_step.tick [OF inv(1) Select r(1), of N "uint n" c S None] assms(3)
        by (auto simp: chain_above_def)
    qed
  qed
qed

lemma cont_end_heights:
  assumes "cont_inv cap S chain hash base n entries writes es t" and "sp_ok S" and "chain_above S N chain hash base n"
    and "cs_main t = Select" and "cs_writer t = []" and "cs_applied t \<noteq> []" and "base < m" and "m \<le> n"
  shows "GetBlockHashByHeight P (cs_store t) m = Inr (Some (hash m))"
proof -
  let ?R = "rows_down S chain (unat n) (Suc (unat base))"
  obtain k where k: "cont_sent S chain hash base n k t"
    and es: "entries (st_DB (cs_store t)) = kv_puts (puts_of (cs_applied t)) es"
    using assms(1) by (auto simp: cont_inv_def)
  have "k = Suc (unat base)" using k assms(4-6) by (auto simp: cont_sent_def)
  then have ap: "set (cs_applied t) = set ?R" using sent_mem [OF k] assms(5) by simp
  have "list_all wf_block ?R" by (rule rows_down_wf [OF assms(2,3)]) simp
  then have wf: "list_all wf_block (cs_applied t)" by (simp only: list_all_iff ap)
  obtain d where d: "rowsOf S (chain m) = Some d" "blk_Hash d = hash m" "blk_Height d = m"
    by (rule chain_rows_at [OF assms(2,3,7,8)])
  have at: "the (rowsOf S (chain (of_nat (unat m)))) = d" using d(1) by simp
  have "d \<in> set (cs_applied t)"
    unfolding ap rows_down_def using assms(7,8)
    by (auto simp: at [symmetric] word_less_nat_alt word_le_nat_alt simp del: upt_Suc intro!: image_eqI [of _ _ "unat m"])
  moreover have "d' = d" if d': "d' \<in> set (cs_applied t)" "blk_Height d' = blk_Height d" for d'
  proof -
    obtain h where "blk_Height d' = h" "rowsOf S (chain h) = Some d'"
      by (rule rows_down_mem [OF assms(2,3) d'(1) [unfolded ap]]) auto
    then show ?thesis using d' d by simp
  qed
  ultimately have "map_of (kv_puts (puts_of (cs_applied t)) es) (KeyCIHeight (blk_Height d)) = Some (blk_Hash d)"
    by (rule height_puts [OF wf])
  then show ?thesis using d es by (simp add: GetBlockHashByHeight_eq)
qed

end

section \<open>The property\<close>










section \<open>A replaced block\<close>

text \<open>Storing a block does not remove what an earlier block at its height has left in the compute index:
  after a reorganisation the rows of the transactions that are only in the replaced block are still
  answered for the height.\<close>

theorem replaced_block_stays_indexed:
  assumes "pebble_reliable P entries writes" and "settled writes s" and "wf_block d"
    and "typed (set (entries (st_DB s)))" and "(KeyComputeIndex (blk_Height d) x, v) \<in> set (entries (st_DB s))"
    and "length x = 32" and "\<forall>(i, t) \<in> set (block_txs d). tx_Txid t \<noteq> x"
  shows "\<exists>s' items. continuousWrite P d s = (Inr (), s') \<and>
    FetchComputeIndex R P s' (blk_Height d) = Inr items \<and> ci_pair_item R (x, v) \<in> set items"
proof -
  let ?n = "blk_Height d" and ?es = "entries (st_DB s)" and ?ws = "map enc_put (block_puts d)"
  have sorted: "kv_sorted (entries db)" for db by (rule pebble.entries_sorted [OF pebble_reliable.axioms(1) [OF assms(1)]])
  obtain s' where s': "continuousWrite P d s = (Inr (), s')" "entries (st_DB s') = kv_puts ?ws ?es"
    using pebble_reliable.continuousWrite_settled [OF assms(1-3)] by blast
  have key: "wf_key (DComputeIndex ?n x)" using assms(6) by simp
  have "(enc_key (DComputeIndex ?n x), v') \<notin> set ?ws" for v'
    unfolding block_put_enc [OF assms(3) key] using assms(7) by (auto simp: block_puts_mem)
  then have "map_of (rev ?ws) (KeyComputeIndex ?n x) = None" by (force simp: map_of_eq_None_iff)
  then have "map_of (entries (st_DB s')) (KeyComputeIndex ?n x) = Some v"
    using assms(5) map_of_sorted_iff [OF sorted [of "st_DB s"]] unfolding s'(2) map_of_kv_puts by (simp add: map_add_def)
  then have mem: "(KeyComputeIndex ?n x, v) \<in> set (entries (st_DB s'))" by (rule map_of_SomeD)
  have "set ?ws = all_puts [d]" by (simp add: all_puts_def)
  then have "typed (set ?es \<union> set ?ws)" using typed_all_puts [of "[d]"] assms(3,4) by (simp add: typed_Un)
  then have ty: "typed (set (entries (st_DB s')))"
    unfolding s'(2) by (rule typed_subset) (rule set_kv_puts_subset [OF sorted])
  obtain dk where dk: "wf_key dk" "KeyComputeIndex ?n x = enc_key dk" "wf_val dk v" by (rule typedE [OF ty mem])
  then have "dk = DComputeIndex ?n x" using enc_key_inj [OF key dk(1)] by simp
  then have "within (BoundsComputeIndexOneHeight ?n) (KeyComputeIndex ?n x)"
    using within_ComputeIndex [OF key, of ?n ?n] dk(3) by (simp add: BoundsComputeIndexOneHeight_eq)
  then have "(KeyComputeIndex ?n x, v) \<in> set (range_of (BoundsComputeIndexOneHeight ?n) (entries (st_DB s')))"
    using mem by (simp add: range_of_within)
  moreover have "ci_item R (KeyComputeIndex ?n x, v) = ci_pair_item R (x, v)"
    using assms(6) by (simp add: ci_item_def ci_pair_item_def KeyComputeIndex_def)
  ultimately show ?thesis
    using s'(1) pebble_reliable.FetchComputeIndex_eq [OF assms(1) ty, of R ?n] by (metis image_eqI list.set_map)
qed

theorem replaced_block_stays_indexed_witness:
  "\<exists>s' items. continuousWrite mem_pebble w_block
       (NewStore mem_pebble [(KeyComputeIndex 7 (replicate 32 8), replicate 33 6)]) = (Inr (), s') \<and>
     FetchComputeIndex rev mem_pebble s' 7 = Inr items \<and>
     ci_pair_item rev (replicate 32 8, replicate 33 6) \<in> set items"
proof -
  let ?e = "(KeyComputeIndex 7 (replicate 32 8), replicate 33 6 :: bytes)"
  have h: "blk_Height w_block = 7" by (simp add: w_block_def)
  have es: "mem_entries (st_DB (NewStore mem_pebble [?e])) = [?e]" by (simp add: NewStore_def mem_entries_def)
  have "typed (set (map enc_put [(DComputeIndex 7 (replicate 32 8), replicate 33 6)]))"
    by (rule typed_puts) (simp add: wf_put_def maxTxid_def replicate_eq_replicate)
  then have ty: "typed (set (mem_entries (st_DB (NewStore mem_pebble [?e]))))" by (simp add: es enc_put_def)
  have "settled (\<lambda>b. b) (NewStore mem_pebble [?e])"
    by (simp add: settled_def NewStore_def batch_bounds_def mem_pebble_def)
  from replaced_block_stays_indexed [OF mem_reliable this w_block_wf ty, of "replicate 32 8" "replicate 33 6" rev]
  show ?thesis by (simp add: es h w_block_def w_tx_def block_txs_def replicate_eq_replicate)
qed

end
