(* ===== verification/Explorer.thy ===== *)
theory Explorer
  imports Read_Spec Node
begin

text \<open>
  The database explorer (\<open>cmd/db/explorer.go\<close> and the commands of \<open>cmd/db/main.go\<close>): counting,
  looking up, iterating and scanning the keys of a database by their type.  An operation that prints
  is a function to the text it prints and its result.  Opening a database and its metrics belong to
  the storage engine and are parameters.
\<close>

section \<open>Printing\<close>

type_synonym 'a out = "string \<times> 'a res"

definition nl :: string where
  "nl = [CHR 0x0A]"

definition say :: "string \<Rightarrow> 'a out \<Rightarrow> 'a out" where
  "say s r = (s @ fst r, snd r)"

definition quiet :: "'a res \<Rightarrow> ('a \<Rightarrow> 'b out) \<Rightarrow> 'b out" where
  "quiet r k = (case r of Inl x \<Rightarrow> ([], Inl x) | Inr x \<Rightarrow> k x)"

definition runs :: "unit out \<Rightarrow> unit out \<Rightarrow> unit out" where
  "runs r k = (case snd r of Inl x \<Rightarrow> r | Inr _ \<Rightarrow> say (fst r) k)"

section \<open>Key types\<close>

definition getKeyTypePrefix :: "string \<Rightarrow> byte res" where
  "getKeyTypePrefix keyType =
     (if keyType = ''block-tx'' then Inr KBlockTx
      else if keyType = ''tx'' then Inr KTx
      else if keyType = ''out'' then Inr KOut
      else if keyType = ''spend'' then Inr KSpend
      else if keyType = ''ci-height'' then Inr KCIHeight
      else if keyType = ''ci-block'' then Inr KCIBlock
      else if keyType = ''tx-occur'' then Inr KTxOccur
      else if keyType = ''compute-index'' then Inr KComputeIndex
      else Inl (Err (''unsupported key type: '' @ keyType)))"

definition getKeyTypeBounds :: "string \<Rightarrow> bytes \<times> bytes" where
  "getKeyTypeBounds keyType =
     (let p = (if keyType = ''block-tx'' then KBlockTx
               else if keyType = ''tx'' then KTx
               else if keyType = ''out'' then KOut
               else if keyType = ''spend'' then KSpend
               else if keyType = ''ci-block'' then KCIBlock
               else if keyType = ''tx-occur'' then KTxOccur
               else 0xFF)
      in ([p], [p + 1]))"

definition getCIHeightBounds :: "u32 \<Rightarrow> u32 \<Rightarrow> bytes \<times> bytes" where
  "getCIHeightBounds startHeight endHeight =
     (KCIHeight # put_be32 startHeight, KCIHeight # put_be32 (endHeight + 1))"

definition NewDatabaseExplorer :: "(string \<Rightarrow> 'db res) \<Rightarrow> string \<Rightarrow> 'db res" where
  "NewDatabaseExplorer openDB dbPath = wrapf ''failed to open database'' (openDB dbPath)"

section \<open>Counting and looking up\<close>

definition countBounds :: "string \<Rightarrow> u32 \<Rightarrow> u32 \<Rightarrow> (bytes \<times> bytes) res" where
  "countBounds keyType startHeight endHeight =
     (if keyType = ''compute-index'' then Inr (BoundsComputeIndex startHeight endHeight)
      else if keyType = ''ci-height'' then Inr (getCIHeightBounds startHeight endHeight)
      else if keyType \<in> {''block-tx'', ''tx'', ''out'', ''spend'', ''ci-block'', ''tx-occur''}
      then Inr (getKeyTypeBounds keyType)
      else Inl (Err (''unsupported key type: '' @ keyType)))"

text \<open>The check of \<open>iter.Error()\<close> after a loop that has run to the end of the iterator.\<close>

definition iterChecked :: "iterator \<Rightarrow> 'a \<Rightarrow> 'a res" where
  "iterChecked it x = wrapf ''iterator error'' (case it_Error it of None \<Rightarrow> Inr x | Some e \<Rightarrow> Inl e)"

definition newIter ::
    "('db, 'b) pebble_api \<Rightarrow> 'db \<Rightarrow> bytes option \<Rightarrow> bytes option \<Rightarrow> iterator res" where
  "newIter P db lb ub = wrapf ''failed to create iterator'' (pb_iter P db lb ub)"

definition CountKeysByType ::
    "('db, 'b) pebble_api \<Rightarrow> 'db \<Rightarrow> string \<Rightarrow> u32 \<Rightarrow> u32 \<Rightarrow> nat res" where
  "CountKeysByType P db keyType startHeight endHeight =
     bindR (countBounds keyType startHeight endHeight) (\<lambda>(lb, ub).
     bindR (newIter P db (Some lb) (Some ub)) (\<lambda>it.
     iterChecked it (length (it_First it))))"

definition CountComputeIndexKeys ::
    "('db, 'b) pebble_api \<Rightarrow> 'db \<Rightarrow> u32 \<Rightarrow> u32 \<Rightarrow> nat res" where
  "CountComputeIndexKeys P db startHeight endHeight =
     CountKeysByType P db ''compute-index'' startHeight endHeight"

text \<open>A key that starts with the byte of its type is used as it is; otherwise the byte is put before it.\<close>

definition withPrefix :: "byte \<Rightarrow> bytes \<Rightarrow> bytes" where
  "withPrefix p keyBytes = (if keyBytes \<noteq> [] \<and> hd keyBytes = p then keyBytes else p # keyBytes)"

text \<open>A key that is not in the database is the result \<open>nil\<close>.\<close>

definition LookupKey ::
    "('db, 'b) pebble_api \<Rightarrow> 'db \<Rightarrow> string \<Rightarrow> string \<Rightarrow> bool \<Rightarrow> bytes option res" where
  "LookupKey P db keyType keyData hexFormat =
     bindR (if hexFormat then wrapf ''failed to decode hex key'' (DecodeString keyData)
            else Inr (map of_char keyData)) (\<lambda>keyBytes.
     bindR (getKeyTypePrefix keyType) (\<lambda>p.
     (case pb_get P db (withPrefix p keyBytes) of
        NotFound \<Rightarrow> Inr None
      | GetErr e \<Rightarrow> wrapf ''database lookup failed'' (Inl e)
      | Found v \<Rightarrow> Inr (Some v))))"

section \<open>Iterating\<close>

definition keyLine :: "bool \<Rightarrow> nat \<Rightarrow> bytes \<Rightarrow> bytes \<Rightarrow> string" where
  "keyLine showValues n k v =
     AppendUint n @ '': Key: '' @ EncodeToString k @
     (if showValues then '', Value: '' @ EncodeToString v else '''') @ nl"

text \<open>
  The loops return the text, the number of keys printed, and whether the iterator was exhausted: its
  error shows only then, not when the loop was left at the limit.
\<close>

fun rangeLoop :: "byte \<Rightarrow> bool \<Rightarrow> int \<Rightarrow> nat \<Rightarrow> kv list \<Rightarrow> string \<times> nat \<times> bool" where
  "rangeLoop p showValues limit count [] = ('''', count, True)"
| "rangeLoop p showValues limit count ((k, v) # rows) =
     (if \<not> int count < limit then ('''', count, False)
      else if k \<noteq> [] \<and> hd k = p
      then (let (out, n, fin) = rangeLoop p showValues limit (count + 1) rows
            in (keyLine showValues (count + 1) k v @ out, n, fin))
      else rangeLoop p showValues limit count rows)"

fun scanLoop :: "bytes \<Rightarrow> bool \<Rightarrow> int \<Rightarrow> nat \<Rightarrow> kv list \<Rightarrow> string \<times> nat \<times> bool" where
  "scanLoop fullPrefix showValues limit count [] = ('''', count, True)"
| "scanLoop fullPrefix showValues limit count ((k, v) # rows) =
     (if \<not> int count < limit then ('''', count, False)
      else if length k \<ge> length fullPrefix \<and> take (length fullPrefix) k = fullPrefix
      then (let (out, n, fin) = scanLoop fullPrefix showValues limit (count + 1) rows
            in (keyLine showValues (count + 1) k v @ out, n, fin))
      else ('''', count, False))"

definition endLoop :: "iterator \<Rightarrow> string \<times> nat \<times> bool \<Rightarrow> (nat \<Rightarrow> string) \<Rightarrow> unit out" where
  "endLoop it r summary =
     (case r of (out, n, fin) \<Rightarrow>
        say out (quiet (if fin then iterChecked it () else Inr ()) (\<lambda>_. (summary n, Inr ()))))"

definition IterateKeyRange ::
    "('db, 'b) pebble_api \<Rightarrow> 'db \<Rightarrow> string \<Rightarrow> string \<Rightarrow> int \<Rightarrow> bool \<Rightarrow> unit out" where
  "IterateKeyRange P db keyType startKey limit showValues =
     quiet (getKeyTypePrefix keyType) (\<lambda>p.
     quiet (if startKey \<noteq> [] then bindR (wrapf ''failed to decode hex start key'' (DecodeString startKey))
              (\<lambda>startKeyBytes. Inr (withPrefix p startKeyBytes))
            else Inr [p]) (\<lambda>fullStartKey.
     quiet (newIter P db (Some fullStartKey) (Some [p + 1])) (\<lambda>it.
     endLoop it (rangeLoop p showValues limit 0 (it_First it))
       (\<lambda>n. ''Iterated through '' @ AppendUint n @ '' '' @ keyType @ '' keys'' @ nl))))"

definition ScanKeyPrefix ::
    "('db, 'b) pebble_api \<Rightarrow> 'db \<Rightarrow> string \<Rightarrow> string \<Rightarrow> int \<Rightarrow> bool \<Rightarrow> unit out" where
  "ScanKeyPrefix P db keyType pre limit showValues =
     quiet (getKeyTypePrefix keyType) (\<lambda>p.
     quiet (wrapf ''failed to decode hex prefix'' (DecodeString pre)) (\<lambda>prefixBytes.
     quiet (newIter P db (Some (p # prefixBytes)) None) (\<lambda>it.
     endLoop it (scanLoop (p # prefixBytes) showValues limit 0 (it_First it))
       (\<lambda>n. ''Found '' @ AppendUint n @ '' '' @ keyType @ '' keys with prefix '' @ pre @ nl))))"

section \<open>Summaries\<close>

definition countType :: "(byte \<rightharpoonup> nat) \<Rightarrow> kv \<Rightarrow> (byte \<rightharpoonup> nat)" where
  "countType keyCounts e =
     (if fst e \<noteq> [] then keyCounts(hd (fst e) \<mapsto> (case keyCounts (hd (fst e)) of None \<Rightarrow> 0 | Some n \<Rightarrow> n) + 1)
      else keyCounts)"

definition ListAllKeyTypes :: "('db, 'b) pebble_api \<Rightarrow> 'db \<Rightarrow> (byte \<rightharpoonup> nat) res" where
  "ListAllKeyTypes P db =
     bindR (newIter P db None None) (\<lambda>it. iterChecked it (foldl countType Map.empty (it_First it)))"

definition upperDigit :: "nat \<Rightarrow> char" where
  "upperDigit n = char_of (if n < 10 then 48 + n else 55 + n)"

definition keyTypeName :: "byte \<Rightarrow> string" where
  "keyTypeName p =
     (case map_of [(KBlockTx, ''BlockTx''), (KTx, ''Tx''), (KOut, ''Out''), (KSpend, ''Spend''),
        (KCIHeight, ''CIHeight''), (KCIBlock, ''CIBlock''), (KTxOccur, ''TxOccur''),
        (KComputeIndex, ''ComputeIndex'')] p of
        Some name \<Rightarrow> name
      | None \<Rightarrow> ''Unknown(0x'' @ [upperDigit (unat p div 16), upperDigit (unat p mod 16)] @ '')'')"

definition summaryLine :: "string \<Rightarrow> nat \<Rightarrow> string" where
  "summaryLine name n = name @ replicate (25 - length name) (CHR '' '') @ '': '' @ AppendUint n @ '' keys'' @ nl"

text \<open>A map is iterated in an order that the language leaves open: \<open>order\<close> lists its keys.\<close>

definition PrintKeyTypeSummary :: "('db, 'b) pebble_api \<Rightarrow> 'db \<Rightarrow> byte list \<Rightarrow> unit out" where
  "PrintKeyTypeSummary P db order =
     quiet (ListAllKeyTypes P db) (\<lambda>keyCounts.
       (''Database Key Type Summary:'' @ nl @ ''========================='' @ nl @
        concat (map (\<lambda>p. summaryLine (keyTypeName p) (the (keyCounts p))) order) @
        summaryLine ''TOTAL'' (sum_list (map (\<lambda>p. the (keyCounts p)) order)), Inr ()))"

text \<open>\<open>uint32(key[1])<<24 | uint32(key[2])<<16 | uint32(key[3])<<8 | uint32(key[4])\<close>\<close>

definition keyHeight :: "bytes \<Rightarrow> u32" where
  "keyHeight k = or (push_bit 24 (ucast (k ! 1))) (or (push_bit 16 (ucast (k ! 2)))
     (or (push_bit 8 (ucast (k ! 3))) (ucast (k ! 4))))"

definition heightStep :: "(u32 \<times> u32) option \<Rightarrow> kv \<Rightarrow> (u32 \<times> u32) option" where
  "heightStep found e =
     (if length (fst e) \<ge> 1 \<and> fst e ! 0 = KCIHeight \<and> length (fst e) \<ge> 5
      then (case found of
              None \<Rightarrow> Some (keyHeight (fst e), keyHeight (fst e))
            | Some (minHeight, maxHeight) \<Rightarrow>
                Some (if keyHeight (fst e) < minHeight then keyHeight (fst e) else minHeight,
                      if keyHeight (fst e) > maxHeight then keyHeight (fst e) else maxHeight))
      else found)"

definition GetHeightRange :: "('db, 'b) pebble_api \<Rightarrow> 'db \<Rightarrow> (u32 \<times> u32) res" where
  "GetHeightRange P db =
     bindR (newIter P db None None) (\<lambda>it.
     bindR (iterChecked it (foldl heightStep None (it_First it))) (\<lambda>found.
     case found of
       None \<Rightarrow> Inl (Err ''no height data found in database'')
     | Some r \<Rightarrow> Inr r))"

text \<open>The metrics of the storage engine, in the order they are printed.\<close>

record metrics =
  mt_RangeKeySetsCount :: nat
  mt_TombstoneCount :: nat
  mt_MemTableSize :: nat
  mt_BlockCacheSize :: nat
  mt_WALFiles :: nat
  mt_WALSize :: nat

definition metricsText :: "metrics \<Rightarrow> string" where
  "metricsText m =
     ''Database Metrics:'' @ nl @
     ''  Range Key Sets: '' @ AppendUint (mt_RangeKeySetsCount m) @ nl @
     ''  Tombstones: '' @ AppendUint (mt_TombstoneCount m) @ nl @
     ''  Memtable Size: '' @ AppendUint (mt_MemTableSize m) @ '' bytes'' @ nl @
     ''  Block Cache Size: '' @ AppendUint (mt_BlockCacheSize m) @ '' bytes'' @ nl @
     ''  WAL Files: '' @ AppendUint (mt_WALFiles m) @ nl @
     ''  WAL Size: '' @ AppendUint (mt_WALSize m) @ '' bytes'' @ nl"

fun heightRangeText :: "(u32 \<times> u32) res \<Rightarrow> string res" where
  "heightRangeText (Inl (Err e)) = Inr (''Error getting height range: '' @ e @ nl)"
| "heightRangeText (Inl (Panic m)) = Inl (Panic m)"
| "heightRangeText (Inr (minHeight, maxHeight)) = Inr (''Height Range: '' @ AppendUint (unat minHeight) @ '' - '' @
     AppendUint (unat maxHeight) @ '' ('' @ AppendUint (unat (maxHeight - minHeight + 1)) @ '' blocks)'' @ nl)"

definition PrintDatabaseInfo ::
    "('db, 'b) pebble_api \<Rightarrow> ('db \<Rightarrow> metrics) \<Rightarrow> 'db \<Rightarrow> byte list \<Rightarrow> unit out" where
  "PrintDatabaseInfo P getMetrics db order =
     say (''Blindbit Oracle Database Information'' @ nl @ ''===================================='' @ nl)
       (quiet (heightRangeText (GetHeightRange P db)) (\<lambda>text.
        say (text @ nl)
         (let r = PrintKeyTypeSummary P db order
          in runs (fst r, wrapf ''failed to print key type summary'' (snd r))
               (nl @ metricsText (getMetrics db), Inr ()))))"

section \<open>The commands\<close>

definition heightBasedKeys :: "string list" where
  "heightBasedKeys = [''ci-height'', ''compute-index'', ''tweaks-static'', ''utxos-static'',
     ''taproot-pubkey-filter'', ''taproot-unspent-filter'', ''taproot-spent-filter'']"

definition openAt :: "(string \<Rightarrow> 'db res) \<Rightarrow> string \<Rightarrow> ('db \<Rightarrow> unit out) \<Rightarrow> unit out" where
  "openAt openDB dbPath k = quiet (wrapf ''error opening database'' (NewDatabaseExplorer openDB dbPath)) k"

definition openingText :: "string \<Rightarrow> string" where
  "openingText dbPath = ''Opening database at: '' @ dbPath @ nl"

definition countCmd ::
    "('db, 'b) pebble_api \<Rightarrow> (string \<Rightarrow> 'db res) \<Rightarrow> string \<Rightarrow> string \<Rightarrow> u32 \<Rightarrow> u32 \<Rightarrow> unit out" where
  "countCmd P openDB dbPath keyType startHeight endHeight =
     say (openingText dbPath @ ''Counting '' @ keyType @ '' keys'') (openAt openDB dbPath (\<lambda>db.
       let byHeight = keyType \<in> set heightBasedKeys;
           counted = (\<lambda>n. ''Found '' @ AppendUint n @ '' '' @ keyType @ '' keys'' @
             (if byHeight then '' in height range '' @ AppendUint (unat startHeight) @ ''-'' @ AppendUint (unat endHeight)
              else '''') @ nl)
       in if byHeight \<and> (startHeight = 0 \<or> endHeight = 0)
          then ([], Inl (Err (''start-height and end-height are required for key type: '' @ keyType)))
          else if byHeight \<and> startHeight > endHeight
          then ([], Inl (Err ''start-height must be less than or equal to end-height''))
          else say (if byHeight then '' from height '' @ AppendUint (unat startHeight) @ '' to '' @
                      AppendUint (unat endHeight) @ nl else nl)
            (quiet (wrapf ''error counting keys'' (CountKeysByType P db keyType startHeight endHeight))
              (\<lambda>n. (counted n, Inr ())))))"

definition infoCmd ::
    "('db, 'b) pebble_api \<Rightarrow> (string \<Rightarrow> 'db res) \<Rightarrow> ('db \<Rightarrow> metrics) \<Rightarrow> string \<Rightarrow> byte list \<Rightarrow> unit out" where
  "infoCmd P openDB getMetrics dbPath order =
     say (openingText dbPath) (openAt openDB dbPath (\<lambda>db.
       let r = PrintDatabaseInfo P getMetrics db order
       in (fst r, wrapf ''error printing database info'' (snd r))))"

definition listKeysCmd ::
    "('db, 'b) pebble_api \<Rightarrow> (string \<Rightarrow> 'db res) \<Rightarrow> string \<Rightarrow> byte list \<Rightarrow> unit out" where
  "listKeysCmd P openDB dbPath order =
     say (openingText dbPath) (openAt openDB dbPath (\<lambda>db.
       let r = PrintKeyTypeSummary P db order
       in (fst r, wrapf ''error printing key type summary'' (snd r))))"

definition lookupCmd ::
    "('db, 'b) pebble_api \<Rightarrow> (string \<Rightarrow> 'db res) \<Rightarrow> string \<Rightarrow> string \<Rightarrow> string \<Rightarrow> bool \<Rightarrow> unit out" where
  "lookupCmd P openDB dbPath keyType key hexFormat =
     (if keyType = [] then ([], Inl (Err ''key-type is required''))
      else if key = [] then ([], Inl (Err ''key is required''))
      else say (openingText dbPath @ ''Looking up '' @ keyType @ '' key: '' @ key @ nl)
        (openAt openDB dbPath (\<lambda>db.
         quiet (wrapf ''error looking up key'' (LookupKey P db keyType key hexFormat)) (\<lambda>value.
         case value of
           None \<Rightarrow> (''Key not found'' @ nl, Inr ())
         | Some v \<Rightarrow> (''Value: '' @ EncodeToString v @ nl, Inr ())))))"

definition rangeCmd ::
    "('db, 'b) pebble_api \<Rightarrow> (string \<Rightarrow> 'db res) \<Rightarrow> string \<Rightarrow> string \<Rightarrow> string \<Rightarrow> int \<Rightarrow> bool \<Rightarrow> unit out" where
  "rangeCmd P openDB dbPath keyType startKey limit showValues =
     (if keyType = [] then ([], Inl (Err ''key-type is required''))
      else say (openingText dbPath @ ''Iterating through '' @ keyType @ '' keys'' @
          (if startKey \<noteq> [] then '' starting from: '' @ startKey else '''') @
          '' (limit: '' @ FormatInt limit @ '')'' @ nl)
        (openAt openDB dbPath (\<lambda>db.
         let r = IterateKeyRange P db keyType startKey limit showValues
         in (fst r, wrapf ''error iterating key range'' (snd r)))))"

definition prefixScanCmd ::
    "('db, 'b) pebble_api \<Rightarrow> (string \<Rightarrow> 'db res) \<Rightarrow> string \<Rightarrow> string \<Rightarrow> string \<Rightarrow> int \<Rightarrow> bool \<Rightarrow> unit out" where
  "prefixScanCmd P openDB dbPath keyType pre limit showValues =
     (if keyType = [] then ([], Inl (Err ''key-type is required''))
      else if pre = [] then ([], Inl (Err ''prefix is required''))
      else say (openingText dbPath @ ''Scanning '' @ keyType @ '' keys with prefix: '' @ pre @
          '' (limit: '' @ FormatInt limit @ '')'' @ nl)
        (openAt openDB dbPath (\<lambda>db.
         let r = ScanKeyPrefix P db keyType pre limit showValues
         in (fst r, wrapf ''error scanning key prefix'' (snd r)))))"

section \<open>What the counts count\<close>

fun typeName :: "db_key \<Rightarrow> string" where
  "typeName (DBlockTx h p) = ''block-tx''"
| "typeName (DTx t) = ''tx''"
| "typeName (DOut t n) = ''out''"
| "typeName (DSpend t n h) = ''spend''"
| "typeName (DCIHeight n) = ''ci-height''"
| "typeName (DCIBlock h) = ''ci-block''"
| "typeName (DTxOccur t h) = ''tx-occur''"
| "typeName (DComputeIndex n t) = ''compute-index''"
| "typeName _ = ''''"

fun inHeights :: "u32 \<Rightarrow> u32 \<Rightarrow> db_key \<Rightarrow> bool" where
  "inHeights a b (DCIHeight n) \<longleftrightarrow> a \<le> n \<and> n \<le> b"
| "inHeights a b (DComputeIndex n t) \<longleftrightarrow> a \<le> n \<and> n \<le> b"
| "inHeights a b dk \<longleftrightarrow> True"

text \<open>The keys of a type that a database holds, of those with a height the ones from \<open>a\<close> to \<open>b\<close>.\<close>

definition keysOf :: "kv list \<Rightarrow> string \<Rightarrow> u32 \<Rightarrow> u32 \<Rightarrow> db_key set" where
  "keysOf es keyType a b =
     {dk. wf_key dk \<and> map_of es (enc_key dk) \<noteq> None \<and> typeName dk = keyType \<and> inHeights a b dk}"

lemma less_succ: "(b :: u32) \<noteq> 0xFFFFFFFF \<Longrightarrow> n < b + 1 \<longleftrightarrow> n \<le> b"
proof -
  assume "b \<noteq> 0xFFFFFFFF"
  then have "unat b \<noteq> 0xFFFFFFFF" by (simp add: word_unat_eq_iff)
  then have "unat b + 1 < 2 ^ 32" using unsigned_less [where 'a = nat, of b] by simp
  then have "unat (b + 1) = unat b + 1" by (simp add: unat_plus_if_size word_size)
  then show ?thesis by (auto simp: word_less_nat_alt word_le_nat_alt)
qed

lemma within_CIHeightBounds:
  assumes "wf_key dk" and "b \<noteq> 0xFFFFFFFF"
  shows "within (getCIHeightBounds a b) (enc_key dk) \<longleftrightarrow> (\<exists>n. dk = DCIHeight n \<and> a \<le> n \<and> n \<le> b)"
proof (cases dk)
  case (DCIHeight n)
  have "put_be32 a \<le> put_be32 n \<longleftrightarrow> a \<le> n" by (simp add: le_less)
  then show ?thesis using assms(2)
    by (simp add: DCIHeight within_def getCIHeightBounds_def KeyCIHeight_def less_succ)
qed (use assms in \<open>simp_all add: within_def getCIHeightBounds_def key_defs\<close>)

lemma within_typeBounds:
  assumes "wf_key dk" and "keyType \<in> {''block-tx'', ''tx'', ''out'', ''spend'', ''ci-block'', ''tx-occur''}"
  shows "within (getKeyTypeBounds keyType) (enc_key dk) \<longleftrightarrow> typeName dk = keyType"
  using assms by (cases dk) (auto simp: within_def getKeyTypeBounds_def Let_def key_defs)

definition keyTypes :: "string set" where
  "keyTypes = {''block-tx'', ''tx'', ''out'', ''spend'', ''ci-height'', ''ci-block'', ''tx-occur'', ''compute-index''}"

lemma countBounds_within:
  assumes "wf_key dk" and "wf_val dk v" and "keyType \<in> keyTypes" and "keyType = ''ci-height'' \<longrightarrow> b \<noteq> 0xFFFFFFFF"
  obtains B where "countBounds keyType a b = Inr B"
    "within B (enc_key dk) \<longleftrightarrow> typeName dk = keyType \<and> inHeights a b dk"
proof (cases "keyType = ''compute-index''")
  case True
  then show thesis using that [of "BoundsComputeIndex a b"] within_ComputeIndex [OF assms(1)] assms(2)
    by (cases dk) (auto simp: countBounds_def)
next
  case nc: False
  show thesis
  proof (cases "keyType = ''ci-height''")
    case True
    then show thesis using that [of "getCIHeightBounds a b"] within_CIHeightBounds [OF assms(1)] assms(4)
      by (cases dk) (auto simp: countBounds_def)
  next
    case False
    then have t: "keyType \<in> {''block-tx'', ''tx'', ''out'', ''spend'', ''ci-block'', ''tx-occur''}"
      using nc assms(3) by (auto simp: keyTypes_def)
    then have "inHeights a b dk" if "typeName dk = keyType" using that by (cases dk) auto
    then show thesis using that [of "getKeyTypeBounds keyType"] within_typeBounds [OF assms(1) t] t
      by (auto simp: countBounds_def)
  qed
qed

lemma countBounds_ok:
  assumes "keyType \<in> keyTypes"
  shows "\<exists>B. countBounds keyType a b = Inr B"
  using assms by (auto simp: countBounds_def keyTypes_def)

lemma iterChecked_None [simp]: "it_Error it = None \<Longrightarrow> iterChecked it x = Inr x"
  by (simp add: iterChecked_def)

context pebble_reliable
begin

lemma newIterE:
  obtains it where "newIter P db lb ub = Inr it" "it_First it = kv_range lb ub (entries db)" "it_Error it = None"
  by (rule iterE [of db lb ub]) (auto simp: newIter_def intro: that)

lemma CountKeysByType_wraps: "CountKeysByType P db ''ci-height'' a 0xFFFFFFFF = Inr 0"
proof -
  have "put_be32 0 \<le> put_be32 a" using zeros_le [of "put_be32 a" 4] by (simp add: put_be32_zero)
  then have "KCIHeight # put_be32 0 \<le> KCIHeight # put_be32 a" by simp
  then have "\<not> within (KCIHeight # put_be32 a, KCIHeight # put_be32 0) k" for k
    unfolding within_def fst_conv snd_conv by (meson leD order_trans)
  then have r: "kv_range (Some (KCIHeight # put_be32 a)) (Some (KCIHeight # put_be32 0)) (entries db) = []"
    by (auto simp: kv_range_def within_def filter_empty_conv)
  obtain it where "newIter P db (Some (KCIHeight # put_be32 a)) (Some (KCIHeight # put_be32 0)) = Inr it"
    "it_First it = []" "it_Error it = None"
    by (rule newIterE [of db "Some (KCIHeight # put_be32 a)" "Some (KCIHeight # put_be32 0)", unfolded r]) blast
  moreover have "getCIHeightBounds a 0xFFFFFFFF = (KCIHeight # put_be32 a, KCIHeight # put_be32 0)"
    by (simp add: getCIHeightBounds_def put_be32_def)
  ultimately show ?thesis by (simp add: CountKeysByType_def countBounds_def)
qed

lemma CountKeysByType_card:
  assumes "typed (set (entries db))" and "keyType \<in> keyTypes" and "keyType = ''ci-height'' \<longrightarrow> b \<noteq> 0xFFFFFFFF"
  shows "CountKeysByType P db keyType a b = Inr (card (keysOf (entries db) keyType a b))"
proof -
  let ?es = "entries db"
  obtain B where B: "countBounds keyType a b = Inr B" using countBounds_ok [OF assms(2)] by blast
  let ?rows = "kv_range (Some (fst B)) (Some (snd B)) ?es"
  have "fst ` set ?rows = enc_key ` keysOf ?es keyType a b"
  proof (intro set_eqI iffI)
    fix k assume "k \<in> fst ` set ?rows"
    then obtain v where v: "(k, v) \<in> set ?es" "within B k" by (auto simp: set_kv_range within_def)
    obtain dk where dk: "wf_key dk" "k = enc_key dk" "wf_val dk v" by (rule typedE [OF assms(1) v(1)])
    obtain B' where "countBounds keyType a b = Inr B'"
      "within B' (enc_key dk) \<longleftrightarrow> typeName dk = keyType \<and> inHeights a b dk"
      by (rule countBounds_within [OF dk(1,3) assms(2,3)])
    then have "dk \<in> keysOf ?es keyType a b"
      using B v dk map_of_sorted_iff [OF entries_sorted, of db k v] by (simp add: keysOf_def)
    then show "k \<in> enc_key ` keysOf ?es keyType a b" using dk(2) by blast
  next
    fix k assume "k \<in> enc_key ` keysOf ?es keyType a b"
    then obtain dk v where d: "k = enc_key dk" "wf_key dk" "(k, v) \<in> set ?es" "typeName dk = keyType" "inHeights a b dk"
      using map_of_sorted_iff [OF entries_sorted, of db] by (auto simp: keysOf_def)
    obtain dk' where dk': "wf_key dk'" "k = enc_key dk'" "wf_val dk' v" by (rule typedE [OF assms(1) d(3)])
    then have "dk' = dk" using d enc_key_inj by blast
    then obtain B' where "countBounds keyType a b = Inr B'"
      "within B' (enc_key dk) \<longleftrightarrow> typeName dk = keyType \<and> inHeights a b dk"
      using countBounds_within [OF dk'(1,3) assms(2,3), of a] by metis
    then have "(k, v) \<in> set ?rows" using B d by (auto simp: set_kv_range within_def)
    then show "k \<in> fst ` set ?rows" by force
  qed
  moreover have "inj_on enc_key (keysOf ?es keyType a b)"
    by (rule inj_onI) (auto simp: keysOf_def intro: enc_key_inj)
  moreover have "length ?rows = card (fst ` set ?rows)"
    using kv_sorted_distinct [OF kv_range_sorted [OF entries_sorted]] distinct_card [of "map fst ?rows"] by simp
  ultimately have n: "length ?rows = card (keysOf ?es keyType a b)" by (simp add: card_image)
  obtain it where "newIter P db (Some (fst B)) (Some (snd B)) = Inr it" "it_First it = ?rows"
    "it_Error it = None" by (rule newIterE)
  then show ?thesis using B n by (simp add: CountKeysByType_def split_beta)
qed

end

section \<open>What a lookup finds\<close>

lemma enc_key_type:
  assumes "typeName dk \<noteq> ''''"
  shows "enc_key dk \<noteq> [] \<and> getKeyTypePrefix (typeName dk) = Inr (hd (enc_key dk))"
  using assms by (cases dk) (simp_all add: getKeyTypePrefix_def key_defs)

lemma enc_key_length:
  assumes "wf_key a" and "wf_key b" and "hd (enc_key a) = hd (enc_key b)"
  shows "length (enc_key a) = length (enc_key b)"
  using assms by (cases a; cases b) (auto simp: key_defs)

text \<open>A key without its first byte is not the key of anything.\<close>

lemma cut_key_absent:
  assumes "typed (set es)" and "wf_key dk" and "tl (enc_key dk) \<noteq> []"
    and "hd (tl (enc_key dk)) = hd (enc_key dk)"
  shows "map_of es (tl (enc_key dk)) = None"
proof (rule ccontr)
  assume "map_of es (tl (enc_key dk)) \<noteq> None"
  then obtain v where "(tl (enc_key dk), v) \<in> set es" by (auto dest: map_of_SomeD)
  then obtain dk' where dk': "wf_key dk'" "tl (enc_key dk) = enc_key dk'" using assms(1) by (blast elim: typedE)
  then have "length (enc_key dk') = length (enc_key dk)"
    using assms(2,4) by (intro enc_key_length) simp_all
  then show False using assms(3) dk'(2) by (cases "enc_key dk") (auto dest: arg_cong [of _ _ length])
qed

context pebble_reliable
begin

lemma LookupKey_eq:
  assumes "getKeyTypePrefix keyType = Inr p"
  shows "LookupKey P db keyType (EncodeToString keyBytes) True = Inr (map_of (entries db) (withPrefix p keyBytes))"
  using assms by (simp add: LookupKey_def get_eq split: option.splits)

end

section \<open>What the iterations print\<close>

text \<open>The numbered lines of a list of rows, the first with the number \<open>n + 1\<close>.\<close>

fun numbered :: "bool \<Rightarrow> nat \<Rightarrow> kv list \<Rightarrow> string" where
  "numbered showValues n [] = ''''"
| "numbered showValues n ((k, v) # rows) = keyLine showValues (n + 1) k v @ numbered showValues (n + 1) rows"

lemma limit_step: "int n < limit \<Longrightarrow> \<exists>m. nat (limit - int n) = Suc m \<and> nat (limit - int (n + 1)) = m"
  by (intro exI [of _ "nat (limit - int n) - 1"]) auto

lemma rangeLoop_eq:
  assumes "\<forall>e \<in> set rows. fst e \<noteq> [] \<and> hd (fst e) = p"
  shows "\<exists>fin. rangeLoop p showValues limit n rows =
    (numbered showValues n (take (nat (limit - int n)) rows), n + length (take (nat (limit - int n)) rows), fin)"
  using assms
proof (induction rows arbitrary: n)
  case (Cons e rows)
  obtain k v where e: "e = (k, v)" by (cases e)
  show ?case
  proof (cases "int n < limit")
    case True
    then obtain m where m: "nat (limit - int n) = Suc m" "nat (limit - int (n + 1)) = m"
      using limit_step by blast
    obtain fin where "rangeLoop p showValues limit (n + 1) rows =
        (numbered showValues (n + 1) (take m rows), n + 1 + length (take m rows), fin)"
      using Cons.IH [of "n + 1"] Cons.prems m(2) by auto
    then show ?thesis using True m Cons.prems by (auto simp: e)
  qed (auto simp: e intro: exI [of _ False])
qed (auto intro: exI [of _ True])

lemma scanLoop_eq:
  "\<exists>fin. scanLoop fp showValues limit n rows =
    (let shown = take (nat (limit - int n)) (takeWhile (\<lambda>e. prefix fp (fst e)) rows)
     in (numbered showValues n shown, n + length shown, fin))"
proof (induction rows arbitrary: n)
  case (Cons e rows)
  obtain k v where e: "e = (k, v)" by (cases e)
  have pre: "length k \<ge> length fp \<and> take (length fp) k = fp \<longleftrightarrow> prefix fp k"
    by (metis append_take_drop_id length_append le_add1 append_eq_conv_conj prefix_def)
  show ?case
  proof (cases "int n < limit \<and> prefix fp k")
    case True
    then obtain m where m: "nat (limit - int n) = Suc m" "nat (limit - int (n + 1)) = m"
      using limit_step by blast
    show ?thesis using Cons.IH [of "n + 1"] True m by (auto simp: e pre Let_def)
  next
    case False
    then show ?thesis by (auto simp: e pre intro: exI [of _ False])
  qed
qed (auto intro: exI [of _ True])

text \<open>The keys with a common prefix lie together in the order.\<close>

lemma prefix_convex:
  fixes fp :: bytes
  assumes "prefix fp k'" and "fp \<le> k" and "k < k'"
  shows "prefix fp k"
  using assms
proof (induction fp arbitrary: k k')
  case (Cons a fp)
  then show ?case by (cases k; cases k') auto
qed simp

lemma prefix_le: "prefix fp k \<Longrightarrow> (fp :: bytes) \<le> k"
  by (auto simp: prefix_def) (metis append_Nil2 same_prefix_le Nil_le_Cons list.exhaust order_refl)

section \<open>The height range\<close>

lemma keyHeight_Key [simp]: "keyHeight (KeyCIHeight n) = n"
proof -
  have b: "(of_nat (unat n div 256 ^ i) :: byte) = ucast (drop_bit (8 * i) n)" for i
    by (simp add: word_unat_eq_iff unat_of_nat unat_drop_bit_eq unsigned_ucast_eq take_bit_eq_mod)
       (simp add: drop_bit_eq_div power_mult)
  have "KeyCIHeight n = KCIHeight # [ucast (drop_bit 24 n), ucast (drop_bit 16 n), ucast (drop_bit 8 n), ucast n]"
  proof -
    have four: "(4 :: nat) = Suc (Suc (Suc (Suc 0)))" by simp
    show ?thesis by (simp only: KeyCIHeight_def put_be32_def four be_nat.simps b append.simps) simp
  qed
  then have "keyHeight (KeyCIHeight n) = or (push_bit 24 (ucast (ucast (drop_bit 24 n) :: byte)))
      (or (push_bit 16 (ucast (ucast (drop_bit 16 n) :: byte)))
        (or (push_bit 8 (ucast (ucast (drop_bit 8 n) :: byte))) (ucast (ucast n :: byte))))"
    by (simp add: keyHeight_def)
  also have "\<dots> = n"
  proof (rule bit_word_eqI)
    fix i assume "i < LENGTH(32)"
    then have i: "i < 32" by simp
    show "bit (or (push_bit 24 (ucast (ucast (drop_bit 24 n) :: byte)))
      (or (push_bit 16 (ucast (ucast (drop_bit 16 n) :: byte)))
        (or (push_bit 8 (ucast (ucast (drop_bit 8 n) :: byte))) (ucast (ucast n :: byte)))) :: u32) i = bit n i"
      using i by (cases "i < 8"; cases "i < 16"; cases "i < 24") (auto simp: bit_simps)
  qed
  finally show ?thesis .
qed

text \<open>The least and the greatest of a set of heights.\<close>

definition spans :: "(u32 \<times> u32) option \<Rightarrow> u32 set \<Rightarrow> bool" where
  "spans r H \<longleftrightarrow> (case r of
      None \<Rightarrow> H = {}
    | Some (a, b) \<Rightarrow> a \<in> H \<and> b \<in> H \<and> (\<forall>n \<in> H. a \<le> n \<and> n \<le> b))"

definition heightKeys :: "kv list \<Rightarrow> u32 set" where
  "heightKeys rows = {n. KeyCIHeight n \<in> fst ` set rows}"

lemma heightStep_spans:
  assumes "spans found H" and "length (fst e) \<ge> 5 \<and> fst e ! 0 = KCIHeight \<longrightarrow> (\<exists>n. fst e = KeyCIHeight n)"
  shows "spans (heightStep found e) (H \<union> heightKeys [e])"
proof (cases "\<exists>n. fst e = KeyCIHeight n")
  case True
  then obtain n where n: "fst e = KeyCIHeight n" by blast
  have "heightKeys [e] = {n}" by (auto simp: heightKeys_def n KeyCIHeight_def)
  moreover have "length (KeyCIHeight n) \<ge> 5" "KeyCIHeight n ! 0 = KCIHeight" by (simp_all add: KeyCIHeight_def)
  ultimately show ?thesis using assms(1)
    by (fastforce simp: heightStep_def n spans_def split: option.splits)
next
  case False
  then have "heightKeys [e] = {}" by (simp add: heightKeys_def) metis
  then show ?thesis using assms False by (auto simp: heightStep_def)
qed

lemma heightStep_fold:
  assumes "\<And>e. e \<in> set rows \<Longrightarrow> length (fst e) \<ge> 5 \<and> fst e ! 0 = KCIHeight \<longrightarrow> (\<exists>n. fst e = KeyCIHeight n)"
    and "spans found H"
  shows "spans (foldl heightStep found rows) (H \<union> heightKeys rows)"
  using assms
proof (induction rows arbitrary: found H)
  case (Cons e rows)
  have "spans (heightStep found e) (H \<union> heightKeys [e])"
    by (rule heightStep_spans [OF Cons.prems(2)]) (rule Cons.prems(1), simp)
  then have "spans (foldl heightStep (heightStep found e) rows) ((H \<union> heightKeys [e]) \<union> heightKeys rows)"
    by (rule Cons.IH [rotated]) (rule Cons.prems(1), simp)
  moreover have "(H \<union> heightKeys [e]) \<union> heightKeys rows = H \<union> heightKeys (e # rows)"
    by (auto simp: heightKeys_def)
  ultimately show ?case by simp
qed (simp add: heightKeys_def)

lemma typed_height_key:
  assumes "typed (set es)" and "e \<in> set es" and "length (fst e) \<ge> 5 \<and> fst e ! 0 = KCIHeight"
  shows "\<exists>n. fst e = KeyCIHeight n"
proof -
  have "(fst e, snd e) \<in> set es" using assms(2) by simp
  then obtain dk where dk: "wf_key dk" "fst e = enc_key dk" by (rule typedE [OF assms(1)])
  then show ?thesis using assms(3) by (cases dk) (auto simp: key_defs)
qed

context pebble_reliable
begin

lemma GetHeightRange_spans:
  assumes "typed (set (entries db))"
  shows "\<exists>r. spans r {n. map_of (entries db) (KeyCIHeight n) \<noteq> None} \<and>
    GetHeightRange P db = (case r of None \<Rightarrow> Inl (Err ''no height data found in database'') | Some x \<Rightarrow> Inr x)"
proof -
  obtain it where it: "newIter P db None None = Inr it" "it_First it = kv_range None None (entries db)" "it_Error it = None"
    by (rule newIterE)
  have all: "kv_range None None (entries db) = entries db" by (simp add: kv_range_def)
  have "spans (foldl heightStep None (entries db)) ({} \<union> heightKeys (entries db))"
    by (rule heightStep_fold) (use typed_height_key [OF assms] in \<open>auto simp: spans_def\<close>)
  moreover have "heightKeys (entries db) = {n. map_of (entries db) (KeyCIHeight n) \<noteq> None}"
    by (auto simp: heightKeys_def map_of_eq_None_iff)
  ultimately show ?thesis using it all by (intro exI) (auto simp: GetHeightRange_def)
qed

lemma GetHeightRange_ends:
  assumes "typed (set (entries (st_DB s)))"
  shows "GetHeightRange P (st_DB s) = (case (FirstBlock P s, GetChainTip P s) of
      (Inr (Some _, lo), Inr (Some _, hi)) \<Rightarrow> Inr (lo, hi)
    | _ \<Rightarrow> Inl (Err ''no height data found in database''))"
proof -
  let ?H = "{n. map_of (entries (st_DB s)) (KeyCIHeight n) \<noteq> None}"
  obtain x lo where f: "FirstBlock P s = Inr (x, lo)" "is_first (entries (st_DB s)) (x, lo)"
    using FirstBlock_eq [OF assms] by auto
  obtain y hi where t: "GetChainTip P s = Inr (y, hi)" "is_tip (entries (st_DB s)) (y, hi)"
    using GetChainTip_eq [OF assms] by auto
  obtain r where r: "spans r ?H" "GetHeightRange P (st_DB s) =
      (case r of None \<Rightarrow> Inl (Err ''no height data found in database'') | Some x \<Rightarrow> Inr x)"
    using GetHeightRange_spans [OF assms] by blast
  show ?thesis
  proof (cases r)
    case None
    then have "x = None" using r(1) f(2) by (cases x) (auto simp: spans_def is_first_def)
    then show ?thesis using None f(1) r(2) by simp
  next
    case (Some ab)
    obtain a b where ab: "ab = (a, b)" by (cases ab)
    have m: "a \<in> ?H" "b \<in> ?H" "\<And>n. n \<in> ?H \<Longrightarrow> a \<le> n \<and> n \<le> b" using r(1) Some ab by (auto simp: spans_def)
    obtain x' where x: "x = Some x'" using f(2) m(1) by (cases x) (auto simp: is_first_def)
    obtain y' where y: "y = Some y'" using t(2) m(1) by (cases y) (auto simp: is_tip_def)
    have "lo \<in> ?H" "lo \<le> a" "hi \<in> ?H" "b \<le> hi" using f(2) t(2) x y m by (auto simp: is_first_def is_tip_def)
    then have "lo = a" "hi = b" using m(3) [of lo] m(3) [of hi] by auto
    then show ?thesis using f(1) t(1) x y Some ab r(2) by simp
  qed
qed

end

section \<open>The rows that are iterated\<close>

lemma getKeyTypePrefix_small: "getKeyTypePrefix keyType = Inr p \<Longrightarrow> p < p + 1"
  by (auto simp: getKeyTypePrefix_def split: if_splits)

lemma range_rows:
  assumes "getKeyTypePrefix keyType = Inr p"
  shows "kv_range (Some (withPrefix p sk)) (Some [p + 1]) es =
    filter (\<lambda>e. fst e \<noteq> [] \<and> hd (fst e) = p \<and> withPrefix p sk \<le> fst e) es"
proof -
  have "in_bounds (Some (withPrefix p sk)) (Some [p + 1]) k \<longleftrightarrow>
      k \<noteq> [] \<and> hd k = p \<and> withPrefix p sk \<le> k" for k
  proof (cases k)
    case Nil
    then show ?thesis by (auto simp: withPrefix_def)
  next
    case (Cons a k')
    have "\<exists>r. withPrefix p sk = p # r" by (cases sk) (auto simp: withPrefix_def)
    then obtain r where r: "withPrefix p sk = p # r" by blast
    have "unat (p + 1) = unat p + 1"
      using getKeyTypePrefix_small [OF assms] by (auto simp: unat_plus_if_size word_size word_less_nat_alt split: if_splits)
    then have "p \<le> a \<and> a < p + 1 \<longleftrightarrow> a = p"
      by (auto simp: word_le_nat_alt word_less_nat_alt word_unat_eq_iff)
    then show ?thesis using getKeyTypePrefix_small [OF assms] by (auto simp: r Cons le_less)
  qed
  then show ?thesis by (simp add: kv_range_def)
qed

lemma prefix_rows:
  assumes "kv_sorted es"
  shows "takeWhile (\<lambda>e. prefix fp (fst e)) (kv_range (Some fp) None es) = filter (\<lambda>e. prefix fp (fst e)) es"
proof -
  have "takeWhile (\<lambda>e. prefix fp (fst e)) (kv_range (Some fp) None es) =
      filter (\<lambda>e. prefix fp (fst e)) (kv_range (Some fp) None es)"
  proof (rule takeWhile_sorted_filter)
    show "kv_sorted (kv_range (Some fp) None es)" using assms by simp
    show "fp \<le> fst e" if "e \<in> set (kv_range (Some fp) None es)" for e
      using that by (auto simp: kv_range_def)
    show "prefix fp k" if "fp \<le> k" "k < k'" "prefix fp k'" for k k'
      by (rule prefix_convex [OF that(3,1,2)])
  qed
  also have "\<dots> = filter (\<lambda>e. prefix fp (fst e)) es"
    by (auto simp: kv_range_def intro: prefix_le intro!: filter_cong)
  finally show ?thesis .
qed

section \<open>The summary\<close>

lemma countType_fold:
  "foldl countType c rows p =
    (let n = length (filter (\<lambda>e. fst e \<noteq> [] \<and> hd (fst e) = p) rows)
     in if n = 0 then c p else Some ((case c p of None \<Rightarrow> 0 | Some m \<Rightarrow> m) + n))"
proof (induction rows arbitrary: c)
  case (Cons e rows)
  then show ?case by (auto simp: countType_def Let_def split: option.splits)
qed simp

lemma sum_of_types:
  assumes "distinct order" and "f ` set es \<subseteq> set order"
  shows "sum_list (map (\<lambda>p. length (filter (\<lambda>e. f e = p) es)) order) = length es"
  using assms(2)
proof (induction es)
  case (Cons e es)
  have "sum_list (map (\<lambda>p. length (filter (\<lambda>e. f e = p) (e # es))) order) =
      sum_list (map (\<lambda>p. (if f e = p then 1 else 0) + length (filter (\<lambda>e. f e = p) es)) order)"
    by (rule arg_cong [of _ _ sum_list]) (rule map_cong [OF refl], simp)
  also have "\<dots> = (\<Sum>p \<in> set order. if f e = p then 1 else 0) + length es"
    using Cons by (simp add: sum_list_addf sum_list_distinct_conv_sum_set [OF assms(1)])
  finally show ?case using Cons.prems by (simp add: sum.delta)
qed simp

context pebble_reliable
begin

lemma IterateKeyRange_eq:
  assumes "getKeyTypePrefix keyType = Inr p"
    and "rows = take (nat limit)
      (filter (\<lambda>e. fst e \<noteq> [] \<and> hd (fst e) = p \<and> withPrefix p sk \<le> fst e) (entries db))"
  shows "IterateKeyRange P db keyType (EncodeToString sk) limit showValues =
    (numbered showValues 0 rows @
     ''Iterated through '' @ AppendUint (length rows) @ '' '' @ keyType @ '' keys'' @ nl, Inr ())"
proof -
  let ?R = "filter (\<lambda>e. fst e \<noteq> [] \<and> hd (fst e) = p \<and> withPrefix p sk \<le> fst e) (entries db)"
  have start: "(if EncodeToString sk \<noteq> [] then bindR (wrapf ''failed to decode hex start key''
      (DecodeString (EncodeToString sk))) (\<lambda>startKeyBytes. Inr (withPrefix p startKeyBytes)) else Inr [p]) =
      Inr (withPrefix p sk)"
  proof -
    have "EncodeToString sk = [] \<longleftrightarrow> sk = []" by (cases sk) simp_all
    then show ?thesis by (simp add: withPrefix_def)
  qed
  obtain it where it: "newIter P db (Some (withPrefix p sk)) (Some [p + 1]) = Inr it" "it_First it = ?R" "it_Error it = None"
    by (rule newIterE [of db "Some (withPrefix p sk)" "Some [p + 1]"]) (auto simp: range_rows [OF assms(1)])
  obtain fin where "rangeLoop p showValues limit 0 ?R = (numbered showValues 0 rows, length rows, fin)"
    using rangeLoop_eq [of ?R p showValues limit 0] assms(2) by auto
  then show ?thesis using it start assms(1)
    by (simp add: IterateKeyRange_def endLoop_def quiet_def say_def)
qed

lemma ScanKeyPrefix_eq:
  assumes "getKeyTypePrefix keyType = Inr p"
    and "rows = take (nat limit) (filter (\<lambda>e. prefix (p # bs) (fst e)) (entries db))"
  shows "ScanKeyPrefix P db keyType (EncodeToString bs) limit showValues =
    (numbered showValues 0 rows @ ''Found '' @ AppendUint (length rows) @ '' '' @ keyType @
     '' keys with prefix '' @ EncodeToString bs @ nl, Inr ())"
proof -
  obtain it where it: "newIter P db (Some (p # bs)) None = Inr it"
    "it_First it = kv_range (Some (p # bs)) None (entries db)" "it_Error it = None"
    by (rule newIterE)
  obtain fin where "scanLoop (p # bs) showValues limit 0 (it_First it) = (numbered showValues 0 rows, length rows, fin)"
    using scanLoop_eq [of "p # bs" showValues limit 0 "it_First it"] assms(2) it(2)
    by (auto simp: prefix_rows [OF entries_sorted] Let_def)
  then show ?thesis using it assms(1)
    by (simp add: ScanKeyPrefix_def endLoop_def quiet_def say_def)
qed

lemma PrintKeyTypeSummary_eq:
  assumes "typed (set (entries db))" and "distinct order" and "set order = (\<lambda>e. hd (fst e)) ` set (entries db)"
  shows "PrintKeyTypeSummary P db order =
    (''Database Key Type Summary:'' @ nl @ ''========================='' @ nl @
     concat (map (\<lambda>p. summaryLine (keyTypeName p) (length (filter (\<lambda>e. hd (fst e) = p) (entries db)))) order) @
     summaryLine ''TOTAL'' (length (entries db)), Inr ())"
proof -
  let ?es = "entries db" and ?n = "\<lambda>p. length (filter (\<lambda>e. hd (fst e) = p) (entries db))"
  have ne: "fst e \<noteq> []" if "e \<in> set ?es" for e
  proof -
    have "(fst e, snd e) \<in> set ?es" using that by simp
    then obtain dk where "fst e = enc_key dk" by (rule typedE [OF assms(1)])
    then show ?thesis by (cases dk) (simp_all add: key_defs)
  qed
  have f: "filter (\<lambda>e. fst e \<noteq> [] \<and> hd (fst e) = p) ?es = filter (\<lambda>e. hd (fst e) = p) ?es" for p
    using ne by (intro filter_cong) auto
  have n: "the (foldl countType Map.empty ?es p) = ?n p" if "p \<in> set order" for p
    using that assms(3) by (auto simp: countType_fold f Let_def filter_empty_conv)
  obtain it where it: "newIter P db None None = Inr it" "it_First it = kv_range None None ?es" "it_Error it = None"
    by (rule newIterE)
  have "sum_list (map (\<lambda>p. the (foldl countType Map.empty ?es p)) order) = sum_list (map ?n order)"
    by (rule arg_cong [of _ _ sum_list]) (simp add: n)
  also have "\<dots> = length ?es" by (rule sum_of_types) (use assms(2,3) in auto)
  finally show ?thesis using it n
    by (simp add: PrintKeyTypeSummary_def ListAllKeyTypes_def quiet_def kv_range_def cong: map_cong)
qed

end

section \<open>Properties of the explorer\<close>

text \<open>A database that holds a block at height 7, its transaction, and a tweak.\<close>

definition x_puts :: "put list" where
  "x_puts = [(DCIHeight 7, replicate 32 7), (DCIHeight 9, replicate 32 9), (DCIBlock (replicate 32 7), put_be32 7),
     (DTx (replicate 32 2), replicate 33 5)]"

definition x_edb :: "kv list" where
  "x_edb = map enc_put x_puts"

lemma x_edb_typed: "typed (set (mem_entries x_edb))"
proof -
  have "set (mem_entries x_edb) \<subseteq> set (map enc_put x_puts)"
    using set_kv_puts_subset [of "[]" x_edb] by (simp add: mem_entries_def x_edb_def)
  then show ?thesis
    by (rule typed_subset [OF typed_puts, rotated]) (simp add: x_puts_def wf_put_def)
qed

text \<open>C35. On a database that holds nothing but rows the store writes, counting the keys of one of the eight
  types gives the number of its keys, for the two types that carry a height those whose height lies between the bounds, both included.  The one exception is the
  chain index with the greatest height as the end, for which the exclusive upper bound wraps around
  and the count is 0.\<close>

theorem CountKeysByType_counts:
  assumes "pebble_reliable P entries writes" and "typed (set (entries db))" and "keyType \<in> keyTypes"
  shows "CountKeysByType P db keyType a b =
    Inr (if keyType = ''ci-height'' \<and> b = 0xFFFFFFFF then 0 else card (keysOf (entries db) keyType a b))"
proof (cases "keyType = ''ci-height'' \<and> b = 0xFFFFFFFF")
  case True
  then show ?thesis using pebble_reliable.CountKeysByType_wraps [OF assms(1)] by simp
next
  case False
  then show ?thesis using pebble_reliable.CountKeysByType_card [OF assms] by auto
qed

theorem CountKeysByType_counts_witness:
  "CountKeysByType mem_pebble x_edb ''ci-height'' 7 8 = Inr 1"
proof -
  have "keysOf (mem_entries x_edb) ''ci-height'' 7 8 = {DCIHeight 7}"
  proof (intro set_eqI iffI)
    fix dk assume "dk \<in> keysOf (mem_entries x_edb) ''ci-height'' 7 8"
    then obtain n where n: "dk = DCIHeight n" "map_of (mem_entries x_edb) (KeyCIHeight n) \<noteq> None" "n \<le> 8"
      by (cases dk) (auto simp: keysOf_def)
    then show "dk \<in> {DCIHeight 7}"
      by (auto simp: mem_entries_def map_of_kv_puts x_edb_def x_puts_def key_defs split: if_splits)
  qed (simp add: keysOf_def mem_entries_def map_of_kv_puts x_edb_def x_puts_def key_defs)
  then show ?thesis
    using CountKeysByType_counts [OF mem_reliable x_edb_typed, of "''ci-height''" 7 8] by (simp add: keyTypes_def)
qed

text \<open>C38. A lookup by the full key finds what the database has under it.  A lookup by the key without its type
  byte does so unless the rest of the key happens to start with the type byte: then the rest is
  taken for a full key and nothing is found, whether or not the key is in the database.\<close>

theorem LookupKey_with_and_without_type_byte:
  assumes "pebble_reliable P entries writes" and "typed (set (entries db))"
    and "wf_key dk" and "typeName dk \<noteq> ''''"
  shows "LookupKey P db (typeName dk) (EncodeToString (enc_key dk)) True = Inr (map_of (entries db) (enc_key dk)) \<and>
    LookupKey P db (typeName dk) (EncodeToString (tl (enc_key dk))) True =
      (if hd (tl (enc_key dk)) = hd (enc_key dk) then Inr None else Inr (map_of (entries db) (enc_key dk)))"
proof -
  obtain p r where k: "enc_key dk = p # r" "getKeyTypePrefix (typeName dk) = Inr p" "r \<noteq> []"
  proof -
    have "enc_key dk \<noteq> []" "getKeyTypePrefix (typeName dk) = Inr (hd (enc_key dk))"
      using enc_key_type [OF assms(4)] by auto
    moreover have "length (enc_key dk) \<ge> 5" by (cases dk) (simp_all add: key_defs)
    then have "tl (enc_key dk) \<noteq> []" by (cases "enc_key dk") auto
    ultimately show thesis using that [of "hd (enc_key dk)" "tl (enc_key dk)"] by simp
  qed
  note look = pebble_reliable.LookupKey_eq [OF assms(1) k(2)]
  have "map_of (entries db) r = None" if "hd r = p"
    using cut_key_absent [OF assms(2,3)] that k by simp
  then show ?thesis using k by (simp add: look withPrefix_def del: EncodeToString.simps)
qed

theorem LookupKey_with_and_without_type_byte_witness:
  "LookupKey mem_pebble x_edb ''tx'' (EncodeToString (KeyTx (replicate 32 2))) True = Inr (Some (replicate 33 5)) \<and>
   LookupKey mem_pebble x_edb ''tx'' (EncodeToString (replicate 32 2)) True = Inr None"
proof -
  have "map_of (mem_entries x_edb) (KeyTx (replicate 32 2)) = Some (replicate 33 5)"
    by (simp add: mem_entries_def map_of_kv_puts x_edb_def x_puts_def key_defs)
  then show ?thesis
    using LookupKey_with_and_without_type_byte [OF mem_reliable x_edb_typed, of "DTx (replicate 32 2)"]
    by (simp add: KeyTx_def del: EncodeToString.simps)
qed

text \<open>C36. The range and the prefix command print, numbered from one and at most as many as the limit says, the
  keys of the type from the start key on, and the keys that continue the prefix, in the order of the
  database; the last line says how many they are.\<close>

theorem range_and_prefix_listings:
  assumes "pebble_reliable P entries writes" and "getKeyTypePrefix keyType = Inr p"
    and "from_start = take (nat limit)
      (filter (\<lambda>e. fst e \<noteq> [] \<and> hd (fst e) = p \<and> withPrefix p bs \<le> fst e) (entries db))"
    and "with_prefix = take (nat limit) (filter (\<lambda>e. prefix (p # bs) (fst e)) (entries db))"
  shows "IterateKeyRange P db keyType (EncodeToString bs) limit showValues =
      (numbered showValues 0 from_start @
       ''Iterated through '' @ AppendUint (length from_start) @ '' '' @ keyType @ '' keys'' @ nl, Inr ()) \<and>
    ScanKeyPrefix P db keyType (EncodeToString bs) limit showValues =
      (numbered showValues 0 with_prefix @
       ''Found '' @ AppendUint (length with_prefix) @ '' '' @ keyType @ '' keys with prefix '' @
       EncodeToString bs @ nl, Inr ())"
  using pebble_reliable.IterateKeyRange_eq [OF assms(1-3)] pebble_reliable.ScanKeyPrefix_eq [OF assms(1,2,4)]
  by simp

lemma x_edb_rows: "mem_entries x_edb = [(KeyTx (replicate 32 2), replicate 33 5), (KeyCIHeight 7, replicate 32 7),
    (KeyCIHeight 9, replicate 32 9), (KeyCIBlock (replicate 32 7), put_be32 7)]"
proof -
  have "KeyCIHeight 7 < KeyCIHeight 9" "\<not> KeyCIHeight 9 < KeyCIHeight 7" by (simp_all add: KeyCIHeight_less)
  then show ?thesis by (simp add: mem_entries_def x_edb_def x_puts_def) (simp add: key_defs)
qed

lemma x_digits: "AppendUint (Suc 0) = ''1''" "AppendUint (Suc (Suc 0)) = ''2''" "AppendUint 2 = ''2''"
  "keyLine showValues (Suc (Suc 0)) k v = keyLine showValues 2 k v"
  by (code_simp, code_simp, code_simp, simp add: numeral_2_eq_2)

theorem range_and_prefix_listings_witness:
  "IterateKeyRange mem_pebble x_edb ''ci-height'' (EncodeToString []) 1 False =
     (keyLine False 1 (KeyCIHeight 7) (replicate 32 7) @ ''Iterated through 1 ci-height keys'' @ nl, Inr ()) \<and>
   ScanKeyPrefix mem_pebble x_edb ''ci-height'' (EncodeToString []) 5 False =
     (keyLine False 1 (KeyCIHeight 7) (replicate 32 7) @ keyLine False 2 (KeyCIHeight 9) (replicate 32 9) @
      ''Found 2 ci-height keys with prefix '' @ nl, Inr ())"
  using range_and_prefix_listings [OF mem_reliable _ refl refl, where keyType = "''ci-height''"
      and p = KCIHeight and limit = 1 and bs = "[]" and db = x_edb and showValues = False]
    range_and_prefix_listings [OF mem_reliable _ refl refl, where keyType = "''ci-height''"
      and p = KCIHeight and limit = 5 and bs = "[]" and db = x_edb and showValues = False]
  by (simp add: getKeyTypePrefix_def x_edb_rows withPrefix_def key_defs x_digits)

text \<open>C37. The height range of the explorer, found by looking at every key of the database, is the height of
  the first block and of the chain tip as the store reads them; on a database without heights it is an error.\<close>

theorem GetHeightRange_first_to_tip:
  assumes "pebble_reliable P entries writes" and "typed (set (entries (st_DB s)))"
  shows "GetHeightRange P (st_DB s) = (case (FirstBlock P s, GetChainTip P s) of
      (Inr (Some _, lo), Inr (Some _, hi)) \<Rightarrow> Inr (lo, hi)
    | _ \<Rightarrow> Inl (Err ''no height data found in database''))"
  by (rule pebble_reliable.GetHeightRange_ends [OF assms])

theorem GetHeightRange_first_to_tip_witness:
  "GetHeightRange mem_pebble (st_DB (NewStore mem_pebble x_edb)) =
     (case (FirstBlock mem_pebble (NewStore mem_pebble x_edb), GetChainTip mem_pebble (NewStore mem_pebble x_edb)) of
        (Inr (Some _, lo), Inr (Some _, hi)) \<Rightarrow> Inr (lo, hi)
      | _ \<Rightarrow> Inl (Err ''no height data found in database'')) \<and>
   GetHeightRange mem_pebble x_edb = Inr (7, 9)"
proof (intro conjI)
  have db: "st_DB (NewStore mem_pebble x_edb) = x_edb" by (simp add: NewStore_def)
  show "GetHeightRange mem_pebble (st_DB (NewStore mem_pebble x_edb)) =
     (case (FirstBlock mem_pebble (NewStore mem_pebble x_edb), GetChainTip mem_pebble (NewStore mem_pebble x_edb)) of
        (Inr (Some _, lo), Inr (Some _, hi)) \<Rightarrow> Inr (lo, hi)
      | _ \<Rightarrow> Inl (Err ''no height data found in database''))"
    by (rule GetHeightRange_first_to_tip [OF mem_reliable]) (simp only: db x_edb_typed)
  obtain r where r: "spans r {n. map_of (mem_entries x_edb) (KeyCIHeight n) \<noteq> None}"
    "GetHeightRange mem_pebble x_edb = (case r of None \<Rightarrow> Inl (Err ''no height data found in database'') | Some x \<Rightarrow> Inr x)"
    using mem.GetHeightRange_spans [OF x_edb_typed] by blast
  have "{n. map_of (mem_entries x_edb) (KeyCIHeight n) \<noteq> None} = {7, 9}"
    by (auto simp: x_edb_rows key_defs)
  then have "r = Some (7, 9)" using r(1) by (cases r) (auto simp: spans_def)
  then show "GetHeightRange mem_pebble x_edb = Inr (7, 9)" using r(2) by simp
qed

text \<open>The summary lists for every type byte in the database the number of its keys and closes with the number
  of all keys, in whatever order the language iterates the map of the counts.\<close>

theorem PrintKeyTypeSummary_counts:
  assumes "pebble_reliable P entries writes" and "typed (set (entries db))" and "distinct order"
    and "set order = (\<lambda>e. hd (fst e)) ` set (entries db)"
  shows "PrintKeyTypeSummary P db order =
    (''Database Key Type Summary:'' @ nl @ ''========================='' @ nl @
     concat (map (\<lambda>p. summaryLine (keyTypeName p) (length (filter (\<lambda>e. hd (fst e) = p) (entries db)))) order) @
     summaryLine ''TOTAL'' (length (entries db)), Inr ())"
  by (rule pebble_reliable.PrintKeyTypeSummary_eq [OF assms])

theorem PrintKeyTypeSummary_counts_witness:
  "PrintKeyTypeSummary mem_pebble x_edb [KCIBlock, KTx, KCIHeight] =
    (''Database Key Type Summary:'' @ nl @ ''========================='' @ nl @
     summaryLine (keyTypeName KCIBlock) 1 @ summaryLine (keyTypeName KTx) 1 @ summaryLine (keyTypeName KCIHeight) 2 @
     summaryLine ''TOTAL'' 4, Inr ())"
proof -
  have "set [KCIBlock, KTx, KCIHeight] = (\<lambda>e. hd (fst e)) ` set (mem_entries x_edb)"
    by (auto simp: x_edb_rows key_defs)
  moreover have "distinct [KCIBlock, KTx, KCIHeight]" by simp
  moreover have "length (filter (\<lambda>e. hd (fst e) = KCIHeight) (mem_entries x_edb)) = 2"
    "length (filter (\<lambda>e. hd (fst e) = KTx) (mem_entries x_edb)) = 1"
    "length (filter (\<lambda>e. hd (fst e) = KCIBlock) (mem_entries x_edb)) = 1" "length (mem_entries x_edb) = 4"
    by (simp_all add: x_edb_rows key_defs)
  ultimately show ?thesis
    using PrintKeyTypeSummary_counts [OF mem_reliable x_edb_typed, of "[KCIBlock, KTx, KCIHeight]"]
    by (simp only: list.map concat.simps append_assoc append_Nil2 simp_thms)
qed

end
