(* ===== verification/Compute_Range.thy ===== *)
theory Compute_Range
  imports Compute_Index Config
begin

text \<open>
  Rebuilding the compute index of an interval (\<open>BuildComputeIndexByRange\<close> in
  \<open>dbpebble/compute_index.go\<close>): a sender puts the heights on a channel, workers take them, rebuild
  the entries of a height and write them through the batch.  The goroutines are a step relation; the
  background commits of the store run beside them.
\<close>

section \<open>The goroutines\<close>

text \<open>
  The sender is at a height, or has closed the channel.  A worker waits for a height, rebuilds its
  entries, is about to attach them to the batch, or has attached them and is about to commit the
  batch: between the two it has released the lock, and the other workers may attach and commit too.
  After an error a worker has ended.
\<close>

record ('db, 'b) range_state =
  rg_next :: "u32 option"
  rg_chan :: "u32 list"
  rg_waiting :: nat
  rg_building :: "u32 list"
  rg_built :: "(u32 \<times> ComputeIndex list) list"
  rg_committing :: nat
  rg_errs :: "string list"
  rg_store :: "('db, 'b) Store"
  rg_result :: "unit res option"

definition rangeWorkers :: "Config \<Rightarrow> nat" where
  "rangeWorkers c = nat (cfg_MaxParallelTweakComputations c)"

definition range_start :: "Config \<Rightarrow> u32 \<Rightarrow> ('db, 'b) Store \<Rightarrow> ('db, 'b) range_state" where
  "range_start c startHeight s = \<lparr>rg_next = Some startHeight, rg_chan = [], rg_waiting = rangeWorkers c,
     rg_building = [], rg_built = [], rg_committing = 0, rg_errs = [], rg_store = s, rg_result = None\<rparr>"

inductive range_step ::
    "('db, 'b) pebble_api \<Rightarrow> u32 \<Rightarrow> ('db, 'b) range_state \<Rightarrow> ('db, 'b) range_state \<Rightarrow> bool"
  for P :: "('db, 'b) pebble_api" and endHeight :: u32 where
  send: "rg_result t = None \<Longrightarrow> rg_next t = Some h \<Longrightarrow> h \<le> endHeight \<Longrightarrow> length (rg_chan t) < 100 \<Longrightarrow>
     range_step P endHeight t (t\<lparr>rg_next := Some (h + 1), rg_chan := rg_chan t @ [h]\<rparr>)"
| close_chan: "rg_result t = None \<Longrightarrow> rg_next t = Some h \<Longrightarrow> \<not> h \<le> endHeight \<Longrightarrow>
     range_step P endHeight t (t\<lparr>rg_next := None\<rparr>)"
| receive: "rg_result t = None \<Longrightarrow> rg_chan t = h # hs \<Longrightarrow> rg_waiting t = Suc n \<Longrightarrow>
     range_step P endHeight t
       (t\<lparr>rg_chan := hs, rg_waiting := n, rg_building := rg_building t @ [h]\<rparr>)"
| worker_end: "rg_result t = None \<Longrightarrow> rg_next t = None \<Longrightarrow> rg_chan t = [] \<Longrightarrow> rg_waiting t = Suc n \<Longrightarrow>
     range_step P endHeight t (t\<lparr>rg_waiting := n\<rparr>)"
| build_ok: "rg_result t = None \<Longrightarrow> h \<in> set (rg_building t) \<Longrightarrow>
     BuildComputeIndexForHeight P (rg_store t) h = Inr idx \<Longrightarrow>
     range_step P endHeight t
       (t\<lparr>rg_building := remove1 h (rg_building t), rg_built := rg_built t @ [(h, idx)]\<rparr>)"
| build_err: "rg_result t = None \<Longrightarrow> h \<in> set (rg_building t) \<Longrightarrow>
     BuildComputeIndexForHeight P (rg_store t) h = Inl (Err e) \<Longrightarrow>
     range_step P endHeight t
       (t\<lparr>rg_building := remove1 h (rg_building t), rg_errs := rg_errs t @ [e]\<rparr>)"
| build_panic: "rg_result t = None \<Longrightarrow> h \<in> set (rg_building t) \<Longrightarrow>
     BuildComputeIndexForHeight P (rg_store t) h = Inl (Panic m) \<Longrightarrow>
     range_step P endHeight t (t\<lparr>rg_result := Some (Inl (Panic m))\<rparr>)"
| attach_ok: "rg_result t = None \<Longrightarrow> (h, idx) \<in> set (rg_built t) \<Longrightarrow>
     finishLocked P idx (rg_store t) = (Inr shouldCommit, s') \<Longrightarrow>
     range_step P endHeight t
       (t\<lparr>rg_built := remove1 (h, idx) (rg_built t), rg_store := s',
          rg_committing := rg_committing t + (if shouldCommit then 1 else 0),
          rg_waiting := rg_waiting t + (if shouldCommit then 0 else 1)\<rparr>)"
| attach_err: "rg_result t = None \<Longrightarrow> (h, idx) \<in> set (rg_built t) \<Longrightarrow>
     finishLocked P idx (rg_store t) = (Inl (Err e), s') \<Longrightarrow>
     range_step P endHeight t
       (t\<lparr>rg_built := remove1 (h, idx) (rg_built t), rg_store := s', rg_errs := rg_errs t @ [e]\<rparr>)"
| attach_panic: "rg_result t = None \<Longrightarrow> (h, idx) \<in> set (rg_built t) \<Longrightarrow>
     finishLocked P idx (rg_store t) = (Inl (Panic m), s') \<Longrightarrow>
     range_step P endHeight t (t\<lparr>rg_store := s', rg_result := Some (Inl (Panic m))\<rparr>)"
| finish_ok: "rg_result t = None \<Longrightarrow> rg_committing t = Suc n \<Longrightarrow>
     commitBatch P False (rg_store t) = (Inr (), s') \<Longrightarrow>
     range_step P endHeight t
       (t\<lparr>rg_committing := n, rg_store := s', rg_waiting := Suc (rg_waiting t)\<rparr>)"
| finish_err: "rg_result t = None \<Longrightarrow> rg_committing t = Suc n \<Longrightarrow>
     commitBatch P False (rg_store t) = (Inl (Err e), s') \<Longrightarrow>
     range_step P endHeight t
       (t\<lparr>rg_committing := n, rg_store := s', rg_errs := rg_errs t @ [e]\<rparr>)"
| finish_panic: "rg_result t = None \<Longrightarrow> rg_committing t = Suc n \<Longrightarrow>
     commitBatch P False (rg_store t) = (Inl (Panic m), s') \<Longrightarrow>
     range_step P endHeight t (t\<lparr>rg_store := s', rg_result := Some (Inl (Panic m))\<rparr>)"
| commit: "rg_result t = None \<Longrightarrow> pending (rg_store t) = xs @ b # ys \<Longrightarrow>
     closeOldBatch P (Some b) (st_DB (rg_store t)) = Inr db' \<Longrightarrow>
     range_step P endHeight t (t\<lparr>rg_store := (rg_store t)\<lparr>st_DB := db', pending := xs @ ys\<rparr>\<rparr>)"
| commit_panic: "rg_result t = None \<Longrightarrow> pending (rg_store t) = xs @ b # ys \<Longrightarrow>
     closeOldBatch P (Some b) (st_DB (rg_store t)) = Inl x \<Longrightarrow>
     range_step P endHeight t (t\<lparr>rg_result := Some (Inl x)\<rparr>)"
| all_done: "rg_result t = None \<Longrightarrow> rg_waiting t = 0 \<Longrightarrow> rg_building t = [] \<Longrightarrow> rg_built t = [] \<Longrightarrow>
     rg_committing t = 0 \<Longrightarrow> range_step P endHeight t
       (t\<lparr>rg_result := Some (case rg_errs t of [] \<Rightarrow> Inr () | e # _ \<Rightarrow> Inl (Err e))\<rparr>)"

inductive_cases range_stepE: "range_step P endHeight t t'"

definition BuildComputeIndexByRange ::
    "Config \<Rightarrow> ('db, 'b) pebble_api \<Rightarrow> u32 \<Rightarrow> u32 \<Rightarrow> ('db, 'b) Store \<Rightarrow> unit res \<Rightarrow> ('db, 'b) Store \<Rightarrow> bool" where
  "BuildComputeIndexByRange c P startHeight endHeight s r s' \<longleftrightarrow>
     (if cfg_MaxParallelTweakComputations c < 0
      then r = Inl (Panic ''makechan: size out of range'') \<and> s' = s
      else \<exists>t. (range_step P endHeight)\<^sup>*\<^sup>* (range_start c startHeight s) t \<and>
          rg_result t = Some r \<and> rg_store t = s')"

section \<open>An interval that ends at the greatest height\<close>

text \<open>A worker that is not waiting holds one height, or a commit.\<close>

definition rangeBusy :: "('db, 'b) range_state \<Rightarrow> nat" where
  "rangeBusy t = rg_waiting t + length (rg_building t) + length (rg_built t) + rg_committing t"

lemma length_remove1_mem: "x \<in> set xs \<Longrightarrow> length xs = Suc (length (remove1 x xs))"
  by (simp add: length_remove1) (metis Suc_pred length_pos_if_in_set)

text \<open>With the greatest height as the end the sender never closes the channel, because every height is at
  most the end and the counter wraps to zero: the rebuild never returns nil, whatever the schedule.\<close>

lemma range_endless_step:
  assumes "range_step P 0xFFFFFFFF t t'"
    and "rg_next t \<noteq> None \<and> rg_result t \<noteq> Some (Inr ()) \<and>
      (rg_errs t = [] \<longrightarrow> rangeBusy t = w)" and "0 < w"
  shows "rg_next t' \<noteq> None \<and> rg_result t' \<noteq> Some (Inr ()) \<and>
      (rg_errs t' = [] \<longrightarrow> rangeBusy t' = w)"
  using assms(1)
proof cases
  case (close_chan h)
  have "h \<le> 0xFFFFFFFF" using unsigned_less [where 'a = nat, of h] by (simp add: word_le_nat_alt)
  then show ?thesis using close_chan by simp
next
  case (build_ok h idx)
  then show ?thesis using assms(2) length_remove1_mem [of h] by (auto simp: rangeBusy_def)
next
  case (attach_ok h idx b s')
  then show ?thesis using assms(2) length_remove1_mem [of "(h, idx)"] by (auto simp: rangeBusy_def)
qed (use assms(2,3) in \<open>auto simp: rangeBusy_def split: list.splits\<close>)

theorem compute_range_max_height_never_nil:
  assumes "0 < cfg_MaxParallelTweakComputations c"
  shows "\<not> BuildComputeIndexByRange c P a 0xFFFFFFFF s (Inr ()) s'"
proof
  assume "BuildComputeIndexByRange c P a 0xFFFFFFFF s (Inr ()) s'"
  then obtain t where t: "(range_step P 0xFFFFFFFF)\<^sup>*\<^sup>* (range_start c a s) t" "rg_result t = Some (Inr ())"
    using assms by (auto simp: BuildComputeIndexByRange_def)
  have w: "0 < rangeWorkers c" using assms by (simp add: rangeWorkers_def)
  from t(1) have "rg_next t \<noteq> None \<and> rg_result t \<noteq> Some (Inr ()) \<and>
      (rg_errs t = [] \<longrightarrow> rangeBusy t = rangeWorkers c)"
  proof (induction rule: rtranclp_induct)
    case (step u v)
    then show ?case using range_endless_step [OF step.hyps(2) step.IH w] by blast
  qed (simp add: range_start_def rangeBusy_def)
  then show False using t(2) by simp
qed

theorem compute_range_max_height_never_nil_witness:
  "\<forall>s'. \<not> BuildComputeIndexByRange (initialConfig 1) mem_pebble 5 0xFFFFFFFF (NewStore mem_pebble []) (Inr ()) s'"
  by (rule allI, rule compute_range_max_height_never_nil) (simp add: initialConfig_def Let_def)

end
