(* ===== verification/Range_Spec.thy ===== *)
theory Range_Spec
  imports Compute_Range
begin

text \<open>
  What a rebuild of the compute index leaves in the database (\<open>BuildComputeIndexByRange\<close> in
  \<open>dbpebble/compute_index.go\<close>): under every schedule it ends, and then the rows of the blocks of the
  interval are in the index, over whatever was there before.
\<close>

section \<open>Writing over the contents\<close>

definition over :: "kv set \<Rightarrow> kv set \<Rightarrow> kv set" where
  "over W E = W \<union> {e \<in> E. fst e \<notin> fst ` W}"

lemma over_empty [simp]: "over {} E = E"
  by (simp add: over_def)

lemma over_mem: "(k, v) \<in> over W E \<longleftrightarrow> (k, v) \<in> W \<or> (k, v) \<in> E \<and> k \<notin> fst ` W"
  by (auto simp: over_def)

lemma over_over: "single (V \<union> W) \<Longrightarrow> over V (over W E) = over (V \<union> W) E"
proof (rule set_eqI, unfold split_paired_all)
  fix k v
  assume u: "single (V \<union> W)"
  have "(k, v) \<in> V" if "(k, v) \<in> W" "k \<in> fst ` V"
    using u that unfolding single_def by (metis UnI1 UnI2 fst_image_iff)
  then show "(k, v) \<in> over V (over W E) \<longleftrightarrow> (k, v) \<in> over (V \<union> W) E"
    unfolding over_mem image_Un by blast
qed

lemma set_kv_puts_over: "kv_sorted es \<Longrightarrow> single (set ws) \<Longrightarrow> set (kv_puts ws es) = over (set ws) (set es)"
proof (induction ws es rule: kv_puts.induct)
  case (2 k v ws es)
  have "set (kv_put k v es) = over {(k, v)} (set es)"
    using kv_put_mem [OF "2.prems"(1), of _ _ k v] by (auto simp: over_def)
  then have "set (kv_puts ((k, v) # ws) es) = over (set ws) (over {(k, v)} (set es))"
    using "2.IH" "2.prems" by (simp add: single_subset [of "set ((k, v) # ws)"] subset_insertI)
  then show ?case using over_over [of "set ws" "{(k, v)}"] "2.prems"(2) by simp
qed simp

text \<open>The sets that wait in the batches of a store.\<close>

definition waiting_writes :: "('b \<Rightarrow> kv list) \<Rightarrow> ('db, 'b) Store \<Rightarrow> kv set" where
  "waiting_writes writes s = (\<Union>b \<in> set (pending s). set (writes b)) \<union>
     (case dbBatch s of None \<Rightarrow> {} | Some b \<Rightarrow> set (writes b))"

text \<open>The writes \<open>H\<close> have been made over the contents \<open>E\<close>: some are in the database, the others wait.\<close>

definition written_over ::
    "('db \<Rightarrow> kv list) \<Rightarrow> ('b \<Rightarrow> kv list) \<Rightarrow> kv set \<Rightarrow> kv set \<Rightarrow> ('db, 'b) Store \<Rightarrow> bool" where
  "written_over entries writes E H s \<longleftrightarrow>
     (\<exists>W. set (entries (st_DB s)) = over W E \<and> W \<union> waiting_writes writes s = H)"

text \<open>A store that is open, with an active batch; a batch that is not counted is empty.\<close>

definition active :: "('b \<Rightarrow> kv list) \<Rightarrow> ('db, 'b) Store \<Rightarrow> bool" where
  "active writes s \<longleftrightarrow> \<not> closed s \<and> 0 \<le> batchCounter s \<and>
     (\<exists>b. dbBatch s = Some b \<and> (batchCounter s = 0 \<longrightarrow> writes b = []))"

context pebble_reliable
begin

lemma closeOldBatch_over:
  assumes "closeOldBatch P (Some b) db = Inr db'" and "set (entries db) = over W E"
    and "single (W \<union> set (writes b))"
  shows "set (entries db') = over (W \<union> set (writes b)) E"
proof -
  have "entries db' = kv_puts (writes b) (entries db)"
    using assms(1) commit_entries by (auto simp: closeOldBatch_def split: sum.splits)
  then have "set (entries db') = over (set (writes b)) (over W E)"
    using set_kv_puts_over [OF entries_sorted, of "writes b" db] assms(2,3) single_subset by (metis Un_upper2)
  then show ?thesis using assms(3) by (simp add: over_over Un_commute)
qed

lemma drain_over:
  "drain P bs db = Inr db' \<Longrightarrow> set (entries db) = over W E \<Longrightarrow>
   single (W \<union> (\<Union>b \<in> set bs. set (writes b))) \<Longrightarrow>
   set (entries db') = over (W \<union> (\<Union>b \<in> set bs. set (writes b))) E"
proof (induction bs arbitrary: db W)
  case (Cons b bs)
  then obtain d where d: "closeOldBatch P (Some b) db = Inr d" "drain P bs d = Inr db'" by auto
  have "set (entries d) = over (W \<union> set (writes b)) E"
    by (rule closeOldBatch_over [OF d(1) Cons.prems(2)], rule single_subset [OF Cons.prems(3)]) auto
  from Cons.IH [OF d(2) this] Cons.prems(3) show ?case by (simp add: Un_assoc)
qed simp

lemma commitBatch_over:
  assumes "commitBatch P sync s = (Inr (), s')" and "active writes s"
    and "written_over entries writes E H s" and "single H"
  shows "written_over entries writes E H s' \<and> active writes s' \<and> batchCounter s' = 0 \<and>
    length (pending s') \<le> Suc (length (pending s))"
proof -
  obtain W where W: "set (entries (st_DB s)) = over W E" "W \<union> waiting_writes writes s = H"
    using assms(3) by (auto simp: written_over_def)
  have open': "\<not> closed s" using assms(2) by (simp add: active_def)
  obtain db ps b where c:
    "(db = st_DB s \<and> ps = pending s \<and> int (length (pending s)) < maxPendingCommits s) \<or>
     (drain P (pending s) (st_DB s) = Inr db \<and> ps = [])"
    "dbBatch s = Some b"
    "if sync
     then (\<exists>db'. closeOldBatch P (Some b) db = Inr db' \<and>
            s' = s\<lparr>st_DB := db', pending := ps, dbBatch := Some (pb_new_batch P db),
                   batchCounter := 0\<rparr>)
     else s' = s\<lparr>st_DB := db, pending := ps @ [b], dbBatch := Some (pb_new_batch P db),
                 batchCounter := 0\<rparr>"
    by (rule commitBatch_cases [OF assms(1) open'])
  let ?W = "\<lambda>bs. \<Union>b \<in> set bs. set (writes b)"
  have H: "H = W \<union> ?W (pending s) \<union> set (writes b)" using W(2) c(2) by (auto simp: waiting_writes_def)
  obtain V where V: "set (entries db) = over V E" "V \<union> ?W ps \<union> set (writes b) = H"
  proof (cases "db = st_DB s \<and> ps = pending s")
    case False
    then have d: "drain P (pending s) (st_DB s) = Inr db" "ps = []" using c(1) by auto
    have "set (entries db) = over (W \<union> ?W (pending s)) E"
      using d W(1) assms(4) H by (intro drain_over) (auto intro: single_subset)
    then show thesis using that [of "W \<union> ?W (pending s)"] d(2) H by simp
  qed (use that [of W] W(1) H in auto)
  show ?thesis
  proof (cases sync)
    case True
    then obtain db' where s': "closeOldBatch P (Some b) db = Inr db'"
      "s' = s\<lparr>st_DB := db', pending := ps, dbBatch := Some (pb_new_batch P db), batchCounter := 0\<rparr>"
      using c(3) by auto
    have "set (entries db') = over (V \<union> set (writes b)) E"
      using s'(1) V assms(4) by (intro closeOldBatch_over) (auto intro: single_subset)
    then show ?thesis using s'(2) V(2) open' c(1)
      by (auto simp: written_over_def waiting_writes_def active_def new_batch intro!: exI [of _ "V \<union> set (writes b)"])
  next
    case False
    then show ?thesis using c(1,3) V open'
      by (auto simp: written_over_def waiting_writes_def active_def new_batch intro!: exI [of _ V])
  qed
qed

lemma background_over:
  assumes "closeOldBatch P (Some b) (st_DB s) = Inr db'" and "pending s = xs @ b # ys"
    and "written_over entries writes E H s" and "single H"
  shows "written_over entries writes E H (s\<lparr>st_DB := db', pending := xs @ ys\<rparr>)"
proof -
  obtain W where W: "set (entries (st_DB s)) = over W E" "W \<union> waiting_writes writes s = H"
    using assms(3) by (auto simp: written_over_def)
  have "set (entries db') = over (W \<union> set (writes b)) E"
    using assms(1,2,4) W by (intro closeOldBatch_over) (auto simp: waiting_writes_def intro: single_subset)
  moreover have "W \<union> set (writes b) \<union> waiting_writes writes (s\<lparr>st_DB := db', pending := xs @ ys\<rparr>) = H"
    using W(2) assms(2) by (auto simp: waiting_writes_def split: option.splits)
  ultimately show ?thesis unfolding written_over_def by auto
qed

lemma flush_over:
  assumes "active writes s" and "written_over entries writes E H s" and "single H"
  shows "\<exists>s1 s2. FlushBatch P True s = (Inr (), s1) \<and> WaitForPendingCommits P s1 = (Inr (), s2) \<and>
    set (entries (st_DB s2)) = over H E"
proof -
  obtain b where b: "dbBatch s = Some b" "batchCounter s = 0 \<longrightarrow> writes b = []"
    using assms(1) by (auto simp: active_def)
  obtain s1 where s1: "FlushBatch P True s = (Inr (), s1)" "written_over entries writes E H s1" "active writes s1"
    "batchCounter s1 = 0"
  proof (cases "batchCounter s = 0")
    case True
    then show thesis using that [of s] assms(1,2) by (simp add: FlushBatch_def)
  next
    case False
    obtain s' where "commitBatch P True s = (Inr (), s')" using commitBatch_ok [OF b(1)] by blast
    then show thesis using that [of s'] commitBatch_over [OF _ assms] False by (simp add: FlushBatch_def)
  qed
  obtain W where W: "set (entries (st_DB s1)) = over W E" "W \<union> waiting_writes writes s1 = H"
    using s1(2) by (auto simp: written_over_def)
  have H: "W \<union> (\<Union>b \<in> set (pending s1). set (writes b)) = H"
    using W(2) s1(3,4) by (auto simp: waiting_writes_def active_def)
  obtain d where d: "drain P (pending s1) (st_DB s1) = Inr d" using drain_ok by blast
  have "set (entries d) = over H E" using drain_over [OF d W(1)] H assms(3) by simp
  then show ?thesis using s1(1) d by (auto simp: WaitForPendingCommits_def)
qed

lemma finishLocked_over:
  assumes "active writes s" and "written_over entries writes E H s"
  shows "\<exists>c s'. finishLocked P cis s = (Inr c, s') \<and> active writes s' \<and> pending s' = pending s \<and>
    written_over entries writes E
      (H \<union> set (map (\<lambda>c. (ci_SerialiseKey c, ci_SerialiseData c)) cis)) s'"
proof -
  let ?ws = "map (\<lambda>c. (ci_SerialiseKey c, ci_SerialiseData c)) cis"
  obtain b where b: "dbBatch s = Some b" using assms(1) by (auto simp: active_def)
  obtain b' where b': "attachComputeIndexToBatch P cis b = (Inr (), b')" "writes b' = writes b @ ?ws"
    using emits_attachComputeIndex [of cis] unfolding emits_def by blast
  let ?s = "s\<lparr>dbBatch := Some b', batchCounter := batchCounter s + 1\<rparr>"
  have "finishLocked P cis s = (Inr (batchCounter ?s \<ge> 200), ?s)"
    using b b'(1) by (simp add: finishLocked_def)
  moreover have "active writes ?s" using assms(1) by (auto simp: active_def)
  moreover obtain W where W: "set (entries (st_DB s)) = over W E" "W \<union> waiting_writes writes s = H"
    using assms(2) by (auto simp: written_over_def)
  then have "written_over entries writes E (H \<union> set ?ws) ?s"
    using b b'(2) unfolding written_over_def by (intro exI [of _ W]) (auto simp: waiting_writes_def)
  ultimately show ?thesis by (intro exI [of _ "batchCounter ?s \<ge> 200"] exI [of _ ?s]) simp
qed

end

section \<open>What a rebuild reads\<close>

definition index_key :: "bytes \<Rightarrow> bool" where
  "index_key k \<longleftrightarrow> (\<exists>n x. k = KeyComputeIndex n x)"

text \<open>Contents that have the rows of the blocks, whatever is in the compute index.\<close>

definition blocks_but_index :: "kv set \<Rightarrow> DBBlock list \<Rightarrow> bool" where
  "blocks_but_index E bs \<longleftrightarrow> list_all wf_block bs \<and> typed E \<and>
     (\<forall>k v. \<not> index_key k \<longrightarrow> ((k, v) \<in> E \<longleftrightarrow> (k, v) \<in> all_puts bs))"

text \<open>
  A transaction is determined by its id: in whichever of the blocks it is, it has the same tweak and
  the same outputs, and these are in the order of their numbers.
\<close>

definition same_txs :: "DBBlock list \<Rightarrow> bool" where
  "same_txs bs \<longleftrightarrow> (\<forall>b \<in> set bs. \<forall>b' \<in> set bs. \<forall>(i, t) \<in> set (block_txs b). \<forall>(i', t') \<in> set (block_txs b').
     sorted_wrt (<) (map out_Vout (tx_Outs t)) \<and>
     (tx_Txid t = tx_Txid t' \<longrightarrow> tx_Tweak t = tx_Tweak t' \<and> tx_Outs t = tx_Outs t'))"

lemma same_txs_tweaks: "same_txs bs \<Longrightarrow> same_tweaks bs"
  unfolding same_txs_def same_tweaks_def by fast

text \<open>Sorted contents that differ in the compute index only give the same answers to a filter of other keys.\<close>

lemma filter_but_index:
  assumes "kv_sorted es" and "kv_sorted es'" and "\<And>k v. \<not> index_key k \<Longrightarrow> (k, v) \<in> set es \<longleftrightarrow> (k, v) \<in> set es'"
    and "\<And>k v. (k, v) \<in> set es \<union> set es' \<Longrightarrow> Q k \<Longrightarrow> \<not> index_key k"
  shows "filter (\<lambda>e. Q (fst e)) es = filter (\<lambda>e. Q (fst e)) es'"
proof (rule kv_sorted_set_eq)
  show "set (filter (\<lambda>e. Q (fst e)) es) = set (filter (\<lambda>e. Q (fst e)) es')"
    using assms(3,4) by (auto; blast)
qed (use assms(1,2) in \<open>simp_all add: sorted_wrt_map sorted_wrt_filter\<close>)

lemma holds_of_puts:
  assumes "list_all wf_block bs" and "single (all_puts bs)"
  obtains es where "holds_blocks es bs"
proof -
  let ?ws = "concat (map (\<lambda>d. map enc_put (block_puts d)) bs)"
  have "set ?ws = all_puts bs" by (auto simp: all_puts_def)
  then have "set (kv_puts ?ws []) = all_puts bs" using set_kv_puts [of "[]" ?ws] assms(2) by simp
  then show thesis using that [of "kv_puts ?ws []"] assms(1) by (simp add: holds_blocks_def)
qed

text \<open>Contents with the rows of the blocks, and such contents with exactly these rows.\<close>

definition index_free :: "kv list \<Rightarrow> kv list \<Rightarrow> DBBlock list \<Rightarrow> bool" where
  "index_free es es' bs \<longleftrightarrow> blocks_but_index (set es) bs \<and> kv_sorted es \<and> holds_blocks es' bs \<and>
     distinct (map blk_Hash bs) \<and> same_txs bs"

lemma index_free_parts:
  assumes "index_free es es' bs"
  shows "typed (set es)" "typed (set es')" "kv_sorted es" "kv_sorted es'" "holds_blocks es' bs"
    "distinct (map blk_Hash bs)" "same_txs bs"
    "\<not> index_key k \<Longrightarrow> (k, v) \<in> set es \<longleftrightarrow> (k, v) \<in> set es'"
  using assms typed_all_puts by (auto simp: index_free_def blocks_but_index_def holds_blocks_def)

lemma filters_same:
  assumes "index_free es es' bs" and "\<And>dk. wf_key dk \<Longrightarrow> Q (enc_key dk) \<Longrightarrow> \<not> index_key (enc_key dk)"
  shows "filter (\<lambda>e. Q (fst e)) es = filter (\<lambda>e. Q (fst e)) es'"
proof (rule filter_but_index [OF index_free_parts(3,4,8) [OF assms(1)]])
  fix k v assume "(k, v) \<in> set es \<union> set es'" "Q k"
  then obtain dk where "wf_key dk" "k = enc_key dk"
    using index_free_parts(1,2) [OF assms(1)] by (meson Un_iff typedE)
  then show "\<not> index_key k" using assms(2) \<open>Q k\<close> by blast
qed

lemma lookup_same:
  assumes "index_free es es' bs" and "\<not> index_key k"
  shows "map_of es k = map_of es' k"
proof -
  note F = index_free_parts [OF assms(1)]
  have "map_of es k = Some v \<longleftrightarrow> map_of es' k = Some v" for v
    using F(8) [OF assms(2)] by (simp add: map_of_sorted_iff F(3,4))
  then show ?thesis by (metis option.exhaust)
qed

lemma txids_same:
  assumes "index_free es es' bs" and "length h = 32"
  shows "txids_at es h = txids_at es' h"
proof -
  have "\<not> index_key (enc_key dk)" if "wf_key dk" "within (BoundsBlockTx h) (enc_key dk)" for dk
    using within_BlockTx [OF assms(2) that(1)] that(2) by (auto simp: index_key_def key_defs)
  from filters_same [OF assms(1) this] show ?thesis by (simp add: txids_at_def range_of_within)
qed

lemma tweak_same: "index_free es es' bs \<Longrightarrow> tweak_at es x = tweak_at es' x"
  unfolding tweak_at_def by (subst lookup_same) (auto simp: index_key_def key_defs)

lemma outs_same:
  assumes "index_free es es' bs" and "length x = 32"
  shows "range_of (BoundsOut x) es = range_of (BoundsOut x) es'"
proof -
  have "\<not> index_key (enc_key dk)" if "wf_key dk" "within (BoundsOut x) (enc_key dk)" for dk
    using within_Out [OF assms(2) that(1)] that(2) by (auto simp: index_key_def key_defs)
  from filters_same [OF assms(1) this] show ?thesis by (simp add: range_of_within)
qed

lemma hash_of_height:
  assumes "index_free es es' bs" and "d \<in> set bs"
  shows "map_of es (KeyCIHeight (blk_Height d)) = Some (blk_Hash d)"
proof -
  have "map_of es' (enc_key (DCIHeight (blk_Height d))) = Some (blk_Hash d)"
    using assms(2) by (subst holds_lookup [OF index_free_parts(5) [OF assms(1)]]) (auto simp: block_puts_mem)
  then show ?thesis by (subst lookup_same [OF assms(1)]) (auto simp: index_key_def key_defs)
qed

lemma wf_tx_in: "holds_blocks es' bs \<Longrightarrow> d \<in> set bs \<Longrightarrow> (i, t) \<in> set (block_txs d) \<Longrightarrow> wf_tx t"
  by (auto simp: holds_blocks_def list_all_iff wf_block_def)

text \<open>The outputs of a transaction with a tweak, as the blocks have them.\<close>

lemma outs_of_tx:
  assumes F: "index_free es es' bs"
    and d: "d \<in> set bs" and t: "(i, t) \<in> set (block_txs d)" and tw: "tx_Tweak t \<noteq> None"
  shows "range_of (BoundsOut (tx_Txid t)) es =
    map (\<lambda>o'. (KeyOut (tx_Txid t) (out_Vout o'), put_le64 (out_Amount o') @ out_Pubkey o')) (tx_Outs t)"
    (is "_ = map ?row (tx_Outs t)")
proof -
  note holds = index_free_parts(5) [OF F] and txs = index_free_parts(7) [OF F]
  have wf: "wf_tx t" by (rule wf_tx_in [OF holds d t])
  then have x: "length (tx_Txid t) = 32" by (rule wf_tx_lengths)
  have outs: "out_Txid o' = tx_Txid t \<and> out_Vout o' \<noteq> 0xFFFFFFFF" if "o' \<in> set (tx_Outs t)" for o'
    using wf that by (auto simp: wf_tx_def list_all_iff)
  have mem: "(KeyOut (tx_Txid t) n, v) \<in> set es' \<longleftrightarrow> (KeyOut (tx_Txid t) n, v) \<in> set (map ?row (tx_Outs t))" for n v
  proof -
    have "(KeyOut (tx_Txid t) n, v) \<in> set es' \<longleftrightarrow> (\<exists>b \<in> set bs. (DOut (tx_Txid t) n, v) \<in> set (block_puts b))"
      using holds_lookup [OF holds, of "DOut (tx_Txid t) n" v] x map_of_sorted_iff [of es'] holds
      by (simp add: holds_blocks_def)
    also have "\<dots> \<longleftrightarrow> (\<exists>o' \<in> set (tx_Outs t). n = out_Vout o' \<and> v = put_le64 (out_Amount o') @ out_Pubkey o')"
    proof
      assume "\<exists>b \<in> set bs. (DOut (tx_Txid t) n, v) \<in> set (block_puts b)"
      then obtain b i' t' o' where b: "b \<in> set bs" "(i', t') \<in> set (block_txs b)" "o' \<in> set (tx_Outs t')"
        "tx_Txid t = out_Txid o'" "n = out_Vout o'" "v = put_le64 (out_Amount o') @ out_Pubkey o'"
        by (auto simp: block_puts_mem)
      have "out_Txid o' = tx_Txid t'" using wf_tx_in [OF holds b(1,2)] b(3) by (auto simp: wf_tx_def list_all_iff)
      then have "tx_Outs t = tx_Outs t'" using txs d t b(1,2,4) unfolding same_txs_def by fastforce
      then show "\<exists>o' \<in> set (tx_Outs t). n = out_Vout o' \<and> v = put_le64 (out_Amount o') @ out_Pubkey o'"
        using b by auto
    next
      assume "\<exists>o' \<in> set (tx_Outs t). n = out_Vout o' \<and> v = put_le64 (out_Amount o') @ out_Pubkey o'"
      then show "\<exists>b \<in> set bs. (DOut (tx_Txid t) n, v) \<in> set (block_puts b)"
        using d t tw outs by (fastforce simp: block_puts_mem)
    qed
    finally show ?thesis using KeyOut_less [OF x x] by (auto simp: key_defs)
  qed
  have "set (range_of (BoundsOut (tx_Txid t)) es') = set (map ?row (tx_Outs t))"
  proof (rule set_eqI, unfold split_paired_all)
    fix k v
    show "(k, v) \<in> set (range_of (BoundsOut (tx_Txid t)) es') \<longleftrightarrow> (k, v) \<in> set (map ?row (tx_Outs t))"
    proof
      assume "(k, v) \<in> set (range_of (BoundsOut (tx_Txid t)) es')"
      then have kv: "(k, v) \<in> set es'" "within (BoundsOut (tx_Txid t)) k" by (auto simp: range_of_within)
      obtain dk where "wf_key dk" "k = enc_key dk" by (rule typedE [OF index_free_parts(2) [OF F] kv(1)])
      then obtain n where "k = KeyOut (tx_Txid t) n" using within_Out [OF x] kv(2) by auto
      then show "(k, v) \<in> set (map ?row (tx_Outs t))" using mem kv(1) by simp
    next
      assume kv: "(k, v) \<in> set (map ?row (tx_Outs t))"
      then obtain n where n: "k = KeyOut (tx_Txid t) n" "n \<noteq> 0xFFFFFFFF" using outs by auto
      then have "within (BoundsOut (tx_Txid t)) k" using within_Out [OF x, of "DOut (tx_Txid t) n"] x by simp
      then show "(k, v) \<in> set (range_of (BoundsOut (tx_Txid t)) es')"
        using mem kv n(1) by (simp add: range_of_within)
    qed
  qed
  moreover have "sorted_wrt (<) (map out_Vout (tx_Outs t))"
    using txs d t unfolding same_txs_def by fastforce
  then have "kv_sorted (map ?row (tx_Outs t))"
    unfolding sorted_wrt_map by (rule sorted_wrt_mono_rel [rotated]) (simp add: KeyOut_less [OF x x])
  moreover have "kv_sorted (range_of (BoundsOut (tx_Txid t)) es')"
    using holds by (simp add: holds_blocks_def range_of_def)
  ultimately show ?thesis unfolding outs_same [OF F x] by (intro kv_sorted_set_eq)
qed

text \<open>The rows of a block in the compute index.\<close>

definition index_rows :: "DBBlock \<Rightarrow> kv set" where
  "index_rows d = (\<lambda>(x, v). (KeyComputeIndex (blk_Height d) x, v)) ` block_ci d"

definition rows_between :: "DBBlock list \<Rightarrow> u32 set \<Rightarrow> kv set" where
  "rows_between bs hs = (\<Union>d \<in> {d \<in> set bs. blk_Height d \<in> hs}. index_rows d)"

definition entries_of :: "ComputeIndex list \<Rightarrow> kv set" where
  "entries_of cis = set (map (\<lambda>c. (ci_SerialiseKey c, ci_SerialiseData c)) cis)"

lemma index_rows_puts:
  assumes "wf_block d"
  shows "index_rows d \<subseteq> set (map enc_put (block_puts d))"
proof
  fix e assume "e \<in> index_rows d"
  then obtain i t tw where t: "(i, t) \<in> set (block_txs d)" "tx_Tweak t = Some tw"
    "e = (KeyComputeIndex (blk_Height d) (tx_Txid t), tw @ concat (outs_short t))"
    by (auto simp: index_rows_def block_ci_def)
  then have "(DComputeIndex (blk_Height d) (tx_Txid t), snd e) \<in> set (block_puts d)"
    by (auto simp: block_puts_mem)
  then have "enc_put (DComputeIndex (blk_Height d) (tx_Txid t), snd e) \<in> enc_put ` set (block_puts d)"
    by (rule imageI)
  then show "e \<in> set (map enc_put (block_puts d))" using t(3) by (simp add: enc_put_def)
qed

lemma rows_between_puts: "list_all wf_block bs \<Longrightarrow> rows_between bs hs \<subseteq> all_puts bs"
  using index_rows_puts by (fastforce simp: rows_between_def all_puts_def list_all_iff)

lemma rows_between_index: "(k, v) \<in> rows_between bs hs \<Longrightarrow> index_key k"
  by (auto simp: rows_between_def index_rows_def index_key_def)

lemma rows_between_Un: "rows_between bs (A \<union> B) = rows_between bs A \<union> rows_between bs B"
  by (auto simp: rows_between_def)

lemma rows_at_block:
  assumes "d \<in> set bs" and "single (all_puts bs)" and "distinct (map blk_Hash bs)"
  shows "rows_between bs {blk_Height d} = index_rows d"
proof -
  have "b = d" if "b \<in> set bs" "blk_Height b = blk_Height d" for b
    using single_heights [OF assms(2) that(1) assms(1) that(2)] assms(1,3) that(1)
    by (auto simp: distinct_map inj_on_def)
  then have "{b \<in> set bs. blk_Height b \<in> {blk_Height d}} = {d}" using assms(1) by auto
  then show ?thesis by (simp add: rows_between_def)
qed

lemma image_described:
  assumes "\<And>c. c \<in> S \<longleftrightarrow> (\<exists>i t tw. Q i t tw \<and> c = f t tw)"
  shows "e \<in> g ` S \<longleftrightarrow> (\<exists>i t tw. Q i t tw \<and> e = g (f t tw))"
proof -
  have "S = {c. \<exists>i t tw. Q i t tw \<and> c = f t tw}" using assms by auto
  then show ?thesis by auto
qed

lemma fit_short:
  assumes "wf_tx t"
  shows "map (\<lambda>o'. fit 8 (out_Pubkey o')) (tx_Outs t) = outs_short t"
proof -
  have "length (out_Pubkey o') = 32" if "o' \<in> set (tx_Outs t)" for o'
    using wf_tx_lengths(3) [OF assms] that by (auto simp: list_all_iff wf_output_def)
  then show ?thesis by (simp add: outs_short_def fit_long)
qed

context pebble_reliable
begin

lemma built_row:
  assumes F: "index_free (entries (st_DB s)) es' bs" and d: "d \<in> set bs" and t: "(i, t) \<in> set (block_txs d)"
    and tw: "tx_Tweak t = Some tw"
  shows "\<exists>outs. OutputsForTx P s (tx_Txid t) = Inr outs \<and> map (\<lambda>o'. fit 8 (out_Pubkey o')) outs = outs_short t"
proof -
  let ?es = "entries (st_DB s)" and ?x = "tx_Txid t"
  have wf: "wf_tx t" by (rule wf_tx_in [OF index_free_parts(5) [OF F] d t])
  note ty = index_free_parts(1) [OF F]
  have x: "length ?x = 32" using wf by (rule wf_tx_lengths)
  have "outs_at ?es ?x = map (out_of ?x) (range_of (BoundsOut ?x) ?es)"
    by (simp add: outs_at_def BoundsOut_rows [OF ty x])
  also have "\<dots> = map (\<lambda>o'. out_of ?x (KeyOut ?x (out_Vout o'), put_le64 (out_Amount o') @ out_Pubkey o')) (tx_Outs t)"
    by (simp add: outs_of_tx [OF F d t] tw comp_def)
  finally have "map (\<lambda>o'. fit 8 (out_Pubkey o')) (outs_at ?es ?x) = outs_short t"
    using fit_short [OF wf] by (simp add: out_of_def comp_def)
  then show ?thesis using OutputsForTx_eq [OF ty x] by simp
qed

lemma BuildComputeIndex_block:
  assumes F: "index_free (entries (st_DB s)) es' bs" and d: "d \<in> set bs"
  shows "\<exists>cis. BuildComputeIndexForHeight P s (blk_Height d) = Inr cis \<and> entries_of cis = index_rows d"
proof -
  let ?es = "entries (st_DB s)" and ?n = "blk_Height d"
  note parts = index_free_parts [OF F]
  have wf: "wf_block d" using parts(5) d by (auto simp: holds_blocks_def list_all_iff)
  have h: "GetBlockHashByHeight P s ?n = Inr (Some (blk_Hash d))"
    using hash_of_height [OF F d] by (simp add: GetBlockHashByHeight_def get_eq)
  have len: "length (blk_Hash d) = 32" using wf by simp
  have "List.map_filter (tweak_at ?es) (txids_at ?es (blk_Hash d)) =
      List.map_filter (tweak_at es') (txids_at es' (blk_Hash d))"
    using tweak_same [OF F] txids_same [OF F len] by (simp add: ext [of "tweak_at ?es" "tweak_at es'"])
  also have "\<dots> = block_tweaks d"
    by (rule tweaks_of_block [OF parts(5) d same_txs_tweaks [OF parts(7)] parts(6)])
  finally have tweaks: "TweaksForBlockAll P s (blk_Hash d) = Inr (block_tweaks d)"
    using TweaksForBlockAll_eq [OF parts(1) len] BlockTxids_eq [OF parts(1) len]
    by (simp add: refTweaksForBlockAll_def refTweaksLoop_eq)
  let ?ci = "\<lambda>t tw. \<lparr>ci_TxId = tx_Txid t, ci_Height = ?n, ci_Tweak = tw, ci_OutputsShort = outs_short t\<rparr>"
  let ?row = "\<lambda>tweak. bindR (OutputsForTx P s (row_Txid tweak)) (\<lambda>outputs.
       Inr \<lparr>ci_TxId = row_Txid tweak, ci_Height = ?n, ci_Tweak = row_Tweak tweak,
            ci_OutputsShort = map (\<lambda>o'. fit 8 (out_Pubkey o')) outputs\<rparr>)"
  have row: "\<exists>x. OutputsForTx P s (row_Txid (tweak_row (tx_Txid t) tw)) = Inr x \<and>
      row_Txid (tweak_row (tx_Txid t) tw) = tx_Txid t \<and> row_Tweak (tweak_row (tx_Txid t) tw) = tw \<and>
      map (\<lambda>o'. fit 8 (out_Pubkey o')) x = outs_short t"
    if t: "(i, t) \<in> set (block_txs d)" "tx_Tweak t = Some tw" for i t tw
  proof -
    have "wf_tx t" by (rule wf_tx_in [OF parts(5) d t(1)])
    then have "length (tx_Txid t) = 32" "length tw = 33" using t(2) by (auto simp: wf_tx_def hash_ok_def)
    then show ?thesis using built_row [OF F d t] by (auto simp: tweak_row_def)
  qed
  let ?cis = "List.map_filter (\<lambda>(i, t). map_option (?ci t) (tx_Tweak t)) (block_txs d)"
  have "mapR ?row (List.map_filter (\<lambda>(i, t). map_option (tweak_row (tx_Txid t)) (tx_Tweak t)) txs) =
      Inr (List.map_filter (\<lambda>(i, t). map_option (?ci t) (tx_Tweak t)) txs)" if "set txs \<subseteq> set (block_txs d)" for txs
    using that row by (induction txs) (auto simp: map_filter_simps split: option.splits)
  then have "BuildComputeIndexForHeight P s ?n = Inr ?cis"
    using h tweaks by (simp add: BuildComputeIndexForHeight_def block_tweaks_def)
  moreover have "entries_of ?cis = index_rows d"
  proof (rule set_eqI)
    fix e
    have ser: "(ci_SerialiseKey (?ci t tw), ci_SerialiseData (?ci t tw)) =
        (KeyComputeIndex ?n (tx_Txid t), tw @ concat (outs_short t))"
      if t: "(i, t) \<in> set (block_txs d)" "tx_Tweak t = Some tw" for i t tw
    proof -
      have wt: "wf_tx t" by (rule wf_tx_in [OF parts(5) d t(1)])
      have "map (fit 8) (outs_short t) = outs_short t" unfolding fit_short [OF wt, symmetric] by simp
      then show ?thesis using wt t(2) by (simp add: ci_SerialiseKey_def ci_SerialiseData_def wf_tx_def)
    qed
    have cis: "c \<in> set ?cis \<longleftrightarrow> (\<exists>i t tw. ((i, t) \<in> set (block_txs d) \<and> tx_Tweak t = Some tw) \<and> c = ?ci t tw)" for c
      by (force simp: List.map_filter_def)
    have "e \<in> entries_of ?cis \<longleftrightarrow> (\<exists>i t tw. (i, t) \<in> set (block_txs d) \<and> tx_Tweak t = Some tw \<and>
        e = (ci_SerialiseKey (?ci t tw), ci_SerialiseData (?ci t tw)))"
      unfolding entries_of_def set_map by (subst image_described [OF cis]) simp
    also have "\<dots> \<longleftrightarrow> (\<exists>i t tw. (i, t) \<in> set (block_txs d) \<and> tx_Tweak t = Some tw \<and>
        e = (KeyComputeIndex ?n (tx_Txid t), tw @ concat (outs_short t)))" using ser by metis
    also have "\<dots> \<longleftrightarrow> e \<in> index_rows d"
    proof -
      have "c \<in> block_ci d \<longleftrightarrow> (\<exists>i t tw. ((i, t) \<in> set (block_txs d) \<and> tx_Tweak t = Some tw) \<and>
          c = (tx_Txid t, tw @ concat (outs_short t)))" for c
        unfolding block_ci_def by auto
      then show ?thesis unfolding index_rows_def by (subst image_described) (assumption | simp)+
    qed
    finally show "e \<in> entries_of ?cis \<longleftrightarrow> e \<in> index_rows d" .
  qed
  ultimately show ?thesis by blast
qed

end

section \<open>The invariant of a rebuild\<close>

text \<open>The heights that have been sent, and those that are still under way.\<close>

definition sent :: "u32 \<Rightarrow> u32 \<Rightarrow> u32 option \<Rightarrow> u32 set" where
  "sent a e nx = (case nx of None \<Rightarrow> {a..e} | Some h \<Rightarrow> {a..<h})"

definition under_way :: "('db, 'b) range_state \<Rightarrow> u32 set" where
  "under_way t = set (rg_chan t) \<union> set (rg_building t) \<union> fst ` set (rg_built t)"

text \<open>
  What a rebuild of the heights \<open>a\<close> to \<open>e\<close> starts from: the contents \<open>E\<close> have the rows of blocks that
  do not contradict each other, with one at each of the heights.
\<close>

definition rebuildable :: "kv set \<Rightarrow> DBBlock list \<Rightarrow> u32 \<Rightarrow> u32 \<Rightarrow> bool" where
  "rebuildable E bs a e \<longleftrightarrow> blocks_but_index E bs \<and> single (all_puts bs) \<and> distinct (map blk_Hash bs) \<and>
     same_txs bs \<and> (\<forall>n. a \<le> n \<and> n \<le> e \<longrightarrow> n \<in> blk_Height ` set bs) \<and> e \<noteq> 0xFFFFFFFF"

definition range_inv ::
    "('db \<Rightarrow> kv list) \<Rightarrow> ('b \<Rightarrow> kv list) \<Rightarrow> kv set \<Rightarrow> DBBlock list \<Rightarrow> nat \<Rightarrow> u32 \<Rightarrow> u32 \<Rightarrow>
     ('db, 'b) range_state \<Rightarrow> bool" where
  "range_inv entries writes E bs w a e t \<longleftrightarrow>
     rg_errs t = [] \<and>
     (rg_result t = None \<or> rg_result t = Some (Inr ()) \<and> rg_next t = None \<and> under_way t = {}) \<and>
     (\<forall>h. rg_next t = Some h \<longrightarrow> a \<le> h \<and> (h \<le> e + 1 \<or> h = a)) \<and>
     (rg_next t \<noteq> None \<or> rg_chan t \<noteq> [] \<longrightarrow> rangeBusy t = w) \<and>
     (\<forall>(h, idx) \<in> set (rg_built t). entries_of idx = rows_between bs {h}) \<and>
     active writes (rg_store t) \<and>
     (\<exists>D. D \<union> under_way t = sent a e (rg_next t) \<and>
        written_over entries writes E (rows_between bs D) (rg_store t))"

definition range_measure :: "u32 \<Rightarrow> ('db, 'b) range_state \<Rightarrow> nat" where
  "range_measure e t = (case rg_next t of None \<Rightarrow> 0 | Some h \<Rightarrow> Suc (6 * (Suc (unat e) - unat h))) +
     5 * length (rg_chan t) + 5 * length (rg_building t) + 4 * length (rg_built t) + 3 * rg_committing t +
     rg_waiting t + length (pending (rg_store t)) + (if rg_result t = None then 1 else 0)"

lemma insert_remove1: "x \<in> set xs \<Longrightarrow> insert x (set (remove1 x xs)) = set xs"
  by (induction xs) auto

lemma sent_step:
  assumes "a \<le> h" and "h \<le> (e :: u32)" and "e \<noteq> 0xFFFFFFFF"
  shows "sent a e (Some (h + 1)) = insert h (sent a e (Some h))" and "a \<le> h + 1" and "h + 1 \<le> e + 1"
    and "unat (h + 1) = Suc (unat h)"
proof -
  have le: "unat (e + 1) = unat e + 1" "unat (h + 1) = unat h + 1"
    using assms(2,3) unsigned_less [where 'a = nat, of e]
    by (auto simp: unat_plus_if_size word_size word_le_nat_alt word_unat_eq_iff)
  then show "a \<le> h + 1" "h + 1 \<le> e + 1" "unat (h + 1) = Suc (unat h)"
    using assms by (simp_all add: word_le_nat_alt)
  show "sent a e (Some (h + 1)) = insert h (sent a e (Some h))"
    unfolding sent_def option.case using le assms(1)
    by (auto simp: word_le_nat_alt word_less_nat_alt word_unat_eq_iff)
qed

lemma below_next:
  assumes "(e :: u32) \<noteq> 0xFFFFFFFF" and "h \<le> e + 1" and "x < h"
  shows "x \<le> e"
proof -
  have "unat (e + 1) = unat e + 1" using assms(1) unsigned_less [where 'a = nat, of e]
    by (auto simp: unat_plus_if_size word_size word_unat_eq_iff)
  then show ?thesis using assms(2,3) by (simp add: word_le_nat_alt word_less_nat_alt)
qed

lemma sent_all:
  assumes "a \<le> h" and "h \<le> e + 1 \<or> h = a" and "\<not> h \<le> (e :: u32)" and "e \<noteq> 0xFFFFFFFF"
  shows "sent a e (Some h) = sent a e None"
proof -
  have "x < h \<longleftrightarrow> x \<le> e" if "a \<le> x" for x
  proof
    assume "x < h"
    then show "x \<le> e" using assms(2) below_next [OF assms(4)] that by auto
  qed (use assms(3) in auto)
  then show ?thesis unfolding sent_def option.case by (simp add: atLeastAtMost_def atLeastLessThan_def) blast
qed

lemma sent_between:
  assumes "h \<in> sent a e nx" and "\<forall>h'. nx = Some h' \<longrightarrow> a \<le> h' \<and> (h' \<le> e + 1 \<or> h' = a)" and "e \<noteq> 0xFFFFFFFF"
  shows "a \<le> h" "h \<le> e"
  using assms below_next [OF assms(3), of _ h] by (auto simp: sent_def split: option.splits)

lemma rebuildable_single: "rebuildable E bs a e \<Longrightarrow> single (rows_between bs D)"
  using rows_between_puts by (auto simp: rebuildable_def blocks_but_index_def intro: single_subset)

lemma over_but_index:
  assumes "blocks_but_index E bs" and "W \<subseteq> rows_between bs D"
  shows "blocks_but_index (over W E) bs"
proof -
  have wf: "list_all wf_block bs" and ty: "typed E" using assms(1) by (simp_all add: blocks_but_index_def)
  have "typed (W \<union> E)"
    using typed_all_puts [OF wf] rows_between_puts [OF wf, of D] assms(2) ty by (auto simp: typed_Un intro: typed_subset)
  then have "typed (over W E)" by (rule typed_subset) (auto simp: over_def)
  moreover have "(k, v) \<in> over W E \<longleftrightarrow> (k, v) \<in> E" if "\<not> index_key k" for k v
    using that assms(2) rows_between_index unfolding over_mem by fastforce
  ultimately show ?thesis using assms(1) by (simp add: blocks_but_index_def)
qed

context pebble_reliable
begin

lemma rebuilt_height:
  assumes "rebuildable E bs a e" and "written_over entries writes E (rows_between bs D) s" and "a \<le> h" and "h \<le> e"
  shows "\<exists>cis. BuildComputeIndexForHeight P s h = Inr cis \<and> entries_of cis = rows_between bs {h}"
proof -
  have R: "blocks_but_index E bs" "single (all_puts bs)" "distinct (map blk_Hash bs)" "same_txs bs"
    using assms(1) by (simp_all add: rebuildable_def)
  obtain d where d: "d \<in> set bs" "h = blk_Height d" using assms(1,3,4) by (auto simp: rebuildable_def)
  obtain es' where es': "holds_blocks es' bs"
    using holds_of_puts R(1,2) by (auto simp: blocks_but_index_def)
  obtain W where "set (entries (st_DB s)) = over W E" "W \<subseteq> rows_between bs D"
    using assms(2) by (auto simp: written_over_def)
  then have "blocks_but_index (set (entries (st_DB s))) bs" using over_but_index [OF R(1)] by simp
  then have "index_free (entries (st_DB s)) es' bs"
    using R es' entries_sorted by (simp add: index_free_def)
  from BuildComputeIndex_block [OF this d(1)] show ?thesis
    unfolding d(2) using rows_at_block [OF d(1) R(2,3)] by simp
qed

lemma range_inv_step:
  assumes "range_step P e t t'" and "range_inv entries writes E bs w a e t" and "rebuildable E bs a e" and "0 < w"
  shows "range_inv entries writes E bs w a e t' \<and> range_measure e t' < range_measure e t"
proof -
  have emax: "e \<noteq> 0xFFFFFFFF" using assms(3) by (simp add: rebuildable_def)
  obtain D where D: "D \<union> under_way t = sent a e (rg_next t)"
    "written_over entries writes E (rows_between bs D) (rg_store t)"
    using assms(2) by (auto simp: range_inv_def)
  have next': "\<forall>h. rg_next t = Some h \<longrightarrow> a \<le> h \<and> (h \<le> e + 1 \<or> h = a)"
    and errs: "rg_errs t = []" and act: "active writes (rg_store t)"
    and built: "\<forall>(h, idx) \<in> set (rg_built t). entries_of idx = rows_between bs {h}"
    and busy: "rg_next t \<noteq> None \<or> rg_chan t \<noteq> [] \<longrightarrow> rangeBusy t = w"
    using assms(2) by (auto simp: range_inv_def)
  note one = rebuildable_single [OF assms(3)]
  from assms(1) show ?thesis
  proof cases
    case (send h)
    note st = sent_step [OF _ send(4) emax, of a]
    have "a \<le> h" using next' send by simp
    note st = st [OF this]
    have "D \<union> under_way t' = sent a e (rg_next t')" using send D(1) st(1) by (auto simp: under_way_def)
    moreover have "Suc (unat e) - unat h = Suc (Suc (unat e) - unat (h + 1))"
      using send(4) st(4) by (simp add: word_le_nat_alt)
    ultimately show ?thesis using send assms(2) D(2) st(2,3)
      by (auto simp: range_inv_def range_measure_def rangeBusy_def)
  next
    case (close_chan h)
    then have "D \<union> under_way t' = sent a e (rg_next t')"
      using D(1) sent_all [of a h e] next' emax by (simp add: under_way_def)
    then show ?thesis using close_chan assms(2) D(2)
      by (auto simp: range_inv_def range_measure_def rangeBusy_def)
  next
    case (receive h hs n)
    then have "D \<union> under_way t' = sent a e (rg_next t')" using D(1) by (auto simp: under_way_def)
    then show ?thesis using receive assms(2) D(2)
      by (auto simp: range_inv_def range_measure_def rangeBusy_def)
  next
    case (worker_end n)
    then have "D \<union> under_way t' = sent a e (rg_next t')" using D(1) by (auto simp: under_way_def)
    then show ?thesis using worker_end assms(2) D(2)
      by (auto simp: range_inv_def range_measure_def)
  next
    case (build_ok h idx)
    have "h \<in> sent a e (rg_next t)" using D(1) build_ok(3) by (auto simp: under_way_def)
    then have "a \<le> h" "h \<le> e" using sent_between [OF _ next' emax] by auto
    from rebuilt_height [OF assms(3) D(2) this] have i: "entries_of idx = rows_between bs {h}"
      using build_ok(4) by auto
    have "set (rg_building t) = insert h (set (remove1 h (rg_building t)))"
      using insert_remove1 [OF build_ok(3)] by simp
    then have "D \<union> under_way t' = sent a e (rg_next t')" using D(1) build_ok(1) by (auto simp: under_way_def)
    then show ?thesis using build_ok assms(2) D(2) i length_remove1_mem [OF build_ok(3)]
      by (auto simp: range_inv_def range_measure_def rangeBusy_def)
  next
    case (attach_ok h idx c s')
    obtain c' s'' where f: "finishLocked P idx (rg_store t) = (Inr c', s'')" "active writes s''"
      "pending s'' = pending (rg_store t)"
      "written_over entries writes E (rows_between bs D \<union> entries_of idx) s''"
      using finishLocked_over [OF act D(2), of idx] by (auto simp: entries_of_def)
    have "entries_of idx = rows_between bs {h}" using built attach_ok(3) by auto
    then have w: "written_over entries writes E (rows_between bs (D \<union> {h})) s''"
      using f(4) rows_between_Un [of bs D "{h}"] by simp
    have "fst ` set (rg_built t) = insert h (fst ` set (remove1 (h, idx) (rg_built t)))"
      using insert_remove1 [OF attach_ok(3)] by (metis fst_conv image_insert)
    then have u: "(D \<union> {h}) \<union> under_way t' = sent a e (rg_next t')"
      using D(1) attach_ok(1) by (auto simp: under_way_def)
    have b: "\<forall>(h, idx) \<in> set (rg_built t'). entries_of idx = rows_between bs {h}"
      using built attach_ok(1) set_remove1_subset [of "(h, idx)" "rg_built t"] by auto
    have st: "rg_store t' = s''" "rg_errs t' = []" "rg_next t' = rg_next t" "rg_chan t' = rg_chan t" "rg_result t' = None"
      "pending (rg_store t') = pending (rg_store t)" "rangeBusy t' = rangeBusy t"
      using attach_ok f errs length_remove1_mem [OF attach_ok(3)] by (auto simp: rangeBusy_def)
    have "\<exists>D. D \<union> under_way t' = sent a e (rg_next t') \<and>
        written_over entries writes E (rows_between bs D) (rg_store t')"
      using u w st(1) by (intro exI [of _ "D \<union> {h}"]) simp
    then have "range_inv entries writes E bs w a e t'"
      unfolding range_inv_def using b f(2) next' busy by (simp only: st) simp
    moreover have "range_measure e t' < range_measure e t"
      using attach_ok st(3,4,6) length_remove1_mem [OF attach_ok(3)] by (auto simp: range_measure_def)
    ultimately show ?thesis by blast
  next
    case (attach_err h idx x s')
    then show ?thesis using finishLocked_over [OF act D(2), of idx] by auto
  next
    case (attach_panic h idx x s')
    then show ?thesis using finishLocked_over [OF act D(2), of idx] by auto
  next
    case (finish_ok n s')
    note c = commitBatch_over [OF finish_ok(4) act D(2) one]
    have "D \<union> under_way t' = sent a e (rg_next t')" using D(1) finish_ok(1) by (auto simp: under_way_def)
    then show ?thesis using finish_ok assms(2) c
      by (auto simp: range_inv_def range_measure_def rangeBusy_def under_way_def)
  next
    case (commit xs b ys db')
    have "written_over entries writes E (rows_between bs D) (rg_store t')"
      using background_over [OF commit(4,3) D(2) one] commit(1) by simp
    moreover have "D \<union> under_way t' = sent a e (rg_next t')" "active writes (rg_store t')"
      using D(1) act commit(1) by (auto simp: under_way_def active_def)
    ultimately show ?thesis using commit assms(2)
      by (auto simp: range_inv_def range_measure_def rangeBusy_def under_way_def)
  next
    case all_done
    have "rg_next t = None \<and> rg_chan t = []" using busy all_done assms(4) by (auto simp: rangeBusy_def)
    then have "D \<union> under_way t' = sent a e (rg_next t')" "under_way t' = {}" "rg_next t' = None"
      using D(1) all_done by (auto simp: under_way_def)
    then show ?thesis using all_done assms(2) D(2) errs
      by (auto simp: range_inv_def range_measure_def rangeBusy_def)
  next
    case (build_err h x)
    have "h \<in> sent a e (rg_next t)" using D(1) build_err(3) by (auto simp: under_way_def)
    then have "a \<le> h" "h \<le> e" using sent_between [OF _ next' emax] by auto
    from rebuilt_height [OF assms(3) D(2) this] show ?thesis using build_err by auto
  next
    case (build_panic h m)
    have "h \<in> sent a e (rg_next t)" using D(1) build_panic(3) by (auto simp: under_way_def)
    then have "a \<le> h" "h \<le> e" using sent_between [OF _ next' emax] by auto
    from rebuilt_height [OF assms(3) D(2) this] show ?thesis using build_panic by auto
  next
    case (finish_err n x s')
    obtain b where "dbBatch (rg_store t) = Some b" using act by (auto simp: active_def)
    from commitBatch_ok [OF this, of False] show ?thesis using finish_err by auto
  next
    case (finish_panic n m s')
    obtain b where "dbBatch (rg_store t) = Some b" using act by (auto simp: active_def)
    from commitBatch_ok [OF this, of False] show ?thesis using finish_panic by auto
  next
    case (commit_panic xs b ys x)
    then show ?thesis using closeOldBatch_ok [of b "st_DB (rg_store t)"] by auto
  qed
qed

text \<open>Until the rebuild has its result a step is possible.\<close>

lemma range_progress:
  assumes "range_inv entries writes E bs w a e t" and "rebuildable E bs a e" and "rg_result t = None"
  shows "\<exists>t'. range_step P e t t'"
proof -
  have emax: "e \<noteq> 0xFFFFFFFF" using assms(2) by (simp add: rebuildable_def)
  obtain D where D: "D \<union> under_way t = sent a e (rg_next t)"
    "written_over entries writes E (rows_between bs D) (rg_store t)"
    using assms(1) by (auto simp: range_inv_def)
  have next': "\<forall>h. rg_next t = Some h \<longrightarrow> a \<le> h \<and> (h \<le> e + 1 \<or> h = a)" and act: "active writes (rg_store t)"
    using assms(1) by (auto simp: range_inv_def)
  obtain b where b: "dbBatch (rg_store t) = Some b" using act by (auto simp: active_def)
  consider (built) h idx where "(h, idx) \<in> set (rg_built t)" | (building) h where "h \<in> set (rg_building t)"
    | (committing) n where "rg_committing t = Suc n" | (chan) n h hs where "rg_waiting t = Suc n" "rg_chan t = h # hs"
    | (idle) n where "rg_waiting t = Suc n" "rg_chan t = []"
    | (over) "rg_waiting t = 0" "rg_building t = []" "rg_built t = []" "rg_committing t = 0"
    by (cases "rg_built t"; cases "rg_building t"; cases "rg_committing t"; cases "rg_waiting t"; cases "rg_chan t") auto
  then show ?thesis
  proof cases
    case (built h idx)
    obtain c s' where "finishLocked P idx (rg_store t) = (Inr c, s')" using finishLocked_over [OF act D(2)] by blast
    from range_step.attach_ok [OF assms(3) built this] show ?thesis by blast
  next
    case (building h)
    have "h \<in> sent a e (rg_next t)" using D(1) building by (auto simp: under_way_def)
    then have "a \<le> h" "h \<le> e" using sent_between [OF _ next' emax] by auto
    from rebuilt_height [OF assms(2) D(2) this] obtain idx where "BuildComputeIndexForHeight P (rg_store t) h = Inr idx" by blast
    from range_step.build_ok [OF assms(3) building this] show ?thesis by blast
  next
    case (committing n)
    obtain s' where "commitBatch P False (rg_store t) = (Inr (), s')" using commitBatch_ok [OF b] by blast
    from range_step.finish_ok [OF assms(3) committing this] show ?thesis by blast
  next
    case (chan n h hs)
    from range_step.receive [OF assms(3) chan(2,1)] show ?thesis by blast
  next
    case (idle n)
    show ?thesis
    proof (cases "rg_next t")
      case None
      from range_step.worker_end [OF assms(3) None idle(2,1)] show ?thesis by blast
    next
      case (Some h)
      then show ?thesis
      proof (cases "h \<le> e")
        case True
        from range_step.send [OF assms(3) Some True] idle(2) show ?thesis by auto
      next
        case False
        from range_step.close_chan [OF assms(3) Some False] show ?thesis by blast
      qed
    qed
  next
    case over
    from range_step.all_done [OF assms(3) over] show ?thesis by blast
  qed
qed

lemma range_result:
  assumes "range_inv entries writes E bs w a e t" and "rebuildable E bs a e" and "rg_result t = Some r"
  shows "r = Inr () \<and> (\<exists>s1 s2. FlushBatch P True (rg_store t) = (Inr (), s1) \<and>
    WaitForPendingCommits P s1 = (Inr (), s2) \<and> set (entries (st_DB s2)) = over (rows_between bs {a..e}) E)"
proof -
  have r: "r = Inr ()" "rg_next t = None" "under_way t = {}" and act: "active writes (rg_store t)"
    using assms(1,3) by (auto simp: range_inv_def)
  have "written_over entries writes E (rows_between bs {a..e}) (rg_store t)"
    using assms(1) r(2,3) by (auto simp: range_inv_def sent_def)
  then show ?thesis using flush_over [OF act _ rebuildable_single [OF assms(2)]] r(1) by blast
qed

end

text \<open>A store with nothing under way.\<close>

definition quiet :: "('b \<Rightarrow> kv list) \<Rightarrow> ('db, 'b) Store \<Rightarrow> bool" where
  "quiet writes s \<longleftrightarrow> \<not> closed s \<and> 0 \<le> batchCounter s \<and> pending s = [] \<and>
     (\<exists>b. dbBatch s = Some b \<and> writes b = [])"

lemma range_inv_start:
  assumes "quiet writes s" and "E = set (entries (st_DB s))"
  shows "range_inv entries writes E bs (rangeWorkers c) a e (range_start c a s)"
proof -
  have "written_over entries writes E {} s"
    using assms by (auto simp: written_over_def quiet_def waiting_writes_def intro!: exI [of _ "{}"])
  then have "\<exists>D. D \<union> under_way (range_start c a s) = sent a e (Some a) \<and>
      written_over entries writes E (rows_between bs D) s"
    by (intro exI [of _ "{}"]) (simp add: range_start_def under_way_def sent_def rows_between_def)
  moreover have "active writes s" using assms(1) by (auto simp: quiet_def active_def)
  ultimately show ?thesis by (auto simp: range_inv_def range_start_def rangeBusy_def)
qed

section \<open>The property\<close>

text \<open>C34. A rebuild of the compute index repairs it: it starts from a database with the rows of a set of
  blocks that do not contradict each other, a block at every height from \<open>a\<close> to \<open>e\<close>, and anything in its
  compute index.  Under every schedule of the sender, the workers and the background commits, each step
  decreases a measure, a step is possible until there is a result, and the result is nil.  After a flush
  and the pending commits the database then has, for every transaction with a tweak in a block of these
  heights, the row with the tweak and the short outputs of the block, in place of a row of the same key
  if there was one, and nothing else has changed: rows of other transactions at these heights stay.
  There must be at least one worker and the end must not be the greatest height, for which the sender
  never stops.\<close>

theorem compute_range_repairs_index:
  assumes "pebble_reliable P entries writes" and "quiet writes s"
    and "blocks_but_index (set (entries (st_DB s))) bs" and "single (all_puts bs)"
    and "distinct (map blk_Hash bs)" and "same_txs bs"
    and "\<forall>n. a \<le> n \<and> n \<le> e \<longrightarrow> n \<in> blk_Height ` set bs" and "e \<noteq> 0xFFFFFFFF"
    and "0 < cfg_MaxParallelTweakComputations c"
    and "(range_step P e)\<^sup>*\<^sup>* (range_start c a s) t"
  shows "(\<forall>t'. range_step P e t t' \<longrightarrow> range_measure e t' < range_measure e t) \<and>
    (rg_result t = None \<longrightarrow> (\<exists>t'. range_step P e t t')) \<and>
    (\<forall>r. rg_result t = Some r \<longrightarrow> r = Inr () \<and>
       (\<exists>s1 s2. FlushBatch P True (rg_store t) = (Inr (), s1) \<and> WaitForPendingCommits P s1 = (Inr (), s2) \<and>
          (let rows = (\<Union>d \<in> {d \<in> set bs. a \<le> blk_Height d \<and> blk_Height d \<le> e}.
               {(KeyComputeIndex (blk_Height d) x, v) |x v. (x, v) \<in> block_ci d})
           in \<forall>k v. (k, v) \<in> set (entries (st_DB s2)) \<longleftrightarrow>
                (k, v) \<in> rows \<or> (k, v) \<in> set (entries (st_DB s)) \<and> k \<notin> fst ` rows)))"
proof -
  let ?E = "set (entries (st_DB s))"
  have R: "rebuildable ?E bs a e" using assms(3-8) by (simp add: rebuildable_def)
  have w: "0 < rangeWorkers c" using assms(9) by (simp add: rangeWorkers_def)
  have inv: "range_inv entries writes ?E bs (rangeWorkers c) a e t"
    using assms(10)
  proof (induction rule: rtranclp_induct)
    case (step u v)
    show ?case using pebble_reliable.range_inv_step [OF assms(1) step.hyps(2) step.IH R w] by blast
  qed (rule range_inv_start [OF assms(2) refl])
  have rows: "(\<Union>d \<in> {d \<in> set bs. a \<le> blk_Height d \<and> blk_Height d \<le> e}.
      {(KeyComputeIndex (blk_Height d) x, v) |x v. (x, v) \<in> block_ci d}) = rows_between bs {a..e}"
    by (auto simp: rows_between_def index_rows_def image_iff)
  have step: "range_measure e t' < range_measure e t" if "range_step P e t t'" for t'
    using pebble_reliable.range_inv_step [OF assms(1) that inv R w] by blast
  have result: "r = Inr () \<and> (\<exists>s1 s2. FlushBatch P True (rg_store t) = (Inr (), s1) \<and>
      WaitForPendingCommits P s1 = (Inr (), s2) \<and> set (entries (st_DB s2)) = over (rows_between bs {a..e}) ?E)"
    if "rg_result t = Some r" for r
    by (rule pebble_reliable.range_result [OF assms(1) inv R that])
  show ?thesis
    unfolding rows Let_def over_mem [symmetric]
    using step pebble_reliable.range_progress [OF assms(1) inv R] result by metis
qed

text \<open>The database of one block whose compute-index row is missing.\<close>

definition w_unindexed :: "kv list" where
  "w_unindexed = filter (\<lambda>e. hd (fst e) \<noteq> KComputeIndex) (map enc_put (block_puts w_block))"

lemma w_unindexed_holds: "blocks_but_index (set (mem_entries w_unindexed)) [w_block]"
proof -
  have sub: "set w_unindexed \<subseteq> all_puts [w_block]" by (auto simp: w_unindexed_def all_puts_def)
  then have "single (set w_unindexed)" using w_single' single_subset by blast
  then have es: "set (mem_entries w_unindexed) = set w_unindexed"
    using set_kv_puts [of "[]" w_unindexed] by (simp add: mem_entries_def)
  have ty: "typed (all_puts [w_block])" using typed_all_puts [of "[w_block]"] w_block_wf by simp
  have "(k, v) \<in> set w_unindexed" if k: "\<not> index_key k" "(k, v) \<in> all_puts [w_block]" for k v
  proof -
    obtain dk where "k = enc_key dk" by (rule typedE [OF ty k(2)])
    then have "hd k \<noteq> KComputeIndex" using k(1) by (cases dk) (auto simp: key_defs index_key_def)
    then show ?thesis using k(2) by (simp add: w_unindexed_def all_puts_def)
  qed
  then show ?thesis
    using sub ty w_block_wf unfolding es by (auto simp: blocks_but_index_def intro: typed_subset)
qed

lemma w_same_txs: "same_txs [w_block]"
  by (simp add: same_txs_def w_block_def w_tx_def block_txs_def)

theorem compute_range_repairs_index_witness:
  "\<exists>t s1 s2. (range_step mem_pebble 7)\<^sup>*\<^sup>* (range_start (initialConfig 1) 7 (NewStore mem_pebble w_unindexed)) t \<and>
     rg_result t = Some (Inr ()) \<and> FlushBatch mem_pebble True (rg_store t) = (Inr (), s1) \<and>
     WaitForPendingCommits mem_pebble s1 = (Inr (), s2) \<and>
     (KeyComputeIndex 7 (replicate 32 1), replicate 33 2 @ replicate 8 7) \<in> set (mem_entries (st_DB s2))"
proof -
  let ?c = "initialConfig 1" and ?s = "NewStore mem_pebble w_unindexed" and ?r = "range_step mem_pebble 7"
  have q: "quiet (\<lambda>b. b) ?s" by (simp add: quiet_def NewStore_def mem_pebble_def)
  have db: "blocks_but_index (set (mem_entries (st_DB ?s))) [w_block]"
    using w_unindexed_holds by (simp add: NewStore_def)
  have h: "\<forall>n. 7 \<le> n \<and> n \<le> 7 \<longrightarrow> n \<in> blk_Height ` set [w_block]" by (auto simp: w_block_def)
  have c: "0 < cfg_MaxParallelTweakComputations ?c" by (simp add: initialConfig_def Let_def)
  have "distinct (map blk_Hash [w_block])" "(7 :: u32) \<noteq> 0xFFFFFFFF" by simp_all
  note rebuild = compute_range_repairs_index [OF mem_reliable q db w_single' this(1) w_same_txs h this(2) c]
  have "\<exists>t'. ?r\<^sup>*\<^sup>* t t' \<and> rg_result t' \<noteq> None" if "?r\<^sup>*\<^sup>* (range_start ?c 7 ?s) t" for t
    using that
  proof (induction t rule: measure_induct_rule [of "range_measure 7"])
    case (less t)
    show ?case
    proof (cases "rg_result t")
      case None
      then obtain t' where t': "?r t t'" "range_measure 7 t' < range_measure 7 t" using rebuild [OF less.prems] by blast
      then show ?thesis
        using less.IH [OF t'(2)] less.prems by (meson converse_rtranclp_into_rtranclp rtranclp.rtrancl_into_rtrancl)
    qed auto
  qed
  then obtain t r where t: "?r\<^sup>*\<^sup>* (range_start ?c 7 ?s) t" "rg_result t = Some r" by fastforce
  have row: "(KeyComputeIndex 7 (replicate 32 1), replicate 33 2 @ replicate 8 7) \<in>
      (\<Union>d \<in> {d \<in> set [w_block]. 7 \<le> blk_Height d \<and> blk_Height d \<le> 7}.
         {(KeyComputeIndex (blk_Height d) x, v) |x v. (x, v) \<in> block_ci d})"
    by (auto simp: w_block_def w_tx_def block_ci_def block_txs_def outs_short_def)
  show ?thesis using rebuild [OF t(1)] t row unfolding Let_def by blast
qed

end
