(* ===== verification/Router.thy ===== *)
theory Router
  imports Server_Spec
begin

text \<open>
  The routes of the HTTP server (\<open>server/run.go\<close>): which handler answers which path.  Matching a path
  against a pattern and extracting its parameter is done by gin, a third-party package, and is the
  parameter \<open>param\<close>; the locale \<open>gin_paths\<close> states the documented behaviour for the two kinds of
  patterns that the code registers.  Compression and cross-origin headers do not change a response.
\<close>

section \<open>Routes\<close>

datatype endpoint = Info | Blockhash | Tweaks | Utxos | SpentOutputs | ComputeIndexOf | FullBlock
  | RangeTweaks | RangeUtxos | RangeSpentOutputs | RangeComputeIndex

definition routes :: "(string \<times> endpoint) list" where
  "routes =
     [(''/info'', Info),
      (''/blockhash/:blockheight'', Blockhash),
      (''/tweaks/:blockheight'', Tweaks),
      (''/utxos/:blockheight'', Utxos),
      (''/spent-outputs/:blockheight'', SpentOutputs),
      (''/compute-index/:blockheight'', ComputeIndexOf),
      (''/full-block/:blockheight'', FullBlock),
      (''/range/tweaks'', RangeTweaks),
      (''/range/utxos'', RangeUtxos),
      (''/range/spent-outputs'', RangeSpentOutputs),
      (''/range/compute-index'', RangeComputeIndex)]"

text \<open>A response with a document as its body, or a stream.\<close>

datatype reply = Document http_response | Stream string

definition document :: "http_response res \<Rightarrow> reply res" where
  "document r = bindR r (\<lambda>x. Inr (Document x))"

fun ranged :: "range_reply \<Rightarrow> reply" where
  "ranged (Refused r) = Document r"
| "ranged (Streamed s) = Stream s"

text \<open>The handler of a route on the path parameter and the two query parameters.\<close>

fun handlerOf ::
    "Config \<Rightarrow> (bytes \<Rightarrow> bytes) \<Rightarrow> (bytes \<Rightarrow> bytes) \<Rightarrow> db_api \<Rightarrow> endpoint \<Rightarrow> string \<Rightarrow> string \<Rightarrow> string \<Rightarrow> reply res" where
  "handlerOf c RC RB D Info v s e = document (GetInfo c D)"
| "handlerOf c RC RB D Blockhash v s e = document (server_GetBlockHashByHeight RC D v)"
| "handlerOf c RC RB D Tweaks v s e = document (GetTweaks RC D v)"
| "handlerOf c RC RB D Utxos v s e = document (GetUtxos RC D v)"
| "handlerOf c RC RB D SpentOutputs v s e = document (GetSpentOutputs RC D v)"
| "handlerOf c RC RB D ComputeIndexOf v s e = document (GetComputeIndex RC D v)"
| "handlerOf c RC RB D FullBlock v s e = document (GetFullBlock RC RB D v)"
| "handlerOf c RC RB D RangeTweaks v s e = Inr (ranged (GetTweaksRange RC (cfg_MaxRangeBlocks c) D s e))"
| "handlerOf c RC RB D RangeUtxos v s e =
     bindR (GetUtxosRange RC (cfg_MaxRangeBlocks c) D s e) (\<lambda>r. Inr (ranged r))"
| "handlerOf c RC RB D RangeSpentOutputs v s e =
     Inr (ranged (GetSpentOutputsRange RC (cfg_MaxRangeBlocks c) D s e))"
| "handlerOf c RC RB D RangeComputeIndex v s e =
     Inr (ranged (GetComputeIndexRange RC (cfg_MaxRangeBlocks c) D s e))"

fun firstRoute ::
    "(string \<Rightarrow> string \<Rightarrow> string option) \<Rightarrow> string \<Rightarrow> (string \<times> endpoint) list \<Rightarrow> (endpoint \<times> string) option" where
  "firstRoute param path [] = None"
| "firstRoute param path ((pat, ep) # rs) =
     (case param pat path of Some v \<Rightarrow> Some (ep, v) | None \<Rightarrow> firstRoute param path rs)"

text \<open>The answer to a GET request; \<open>None\<close> is a path that no route matches, to which gin answers by itself: a
  redirect when a route matches without or with the trailing slash, and a 404 otherwise.\<close>

definition RunServer ::
    "(string \<Rightarrow> string \<Rightarrow> string option) \<Rightarrow> Config \<Rightarrow> (bytes \<Rightarrow> bytes) \<Rightarrow> (bytes \<Rightarrow> bytes) \<Rightarrow> db_api \<Rightarrow>
     string \<Rightarrow> string \<Rightarrow> string \<Rightarrow> reply res option" where
  "RunServer param c RC RB D path s e =
     (case firstRoute param path routes of
        None \<Rightarrow> None
      | Some (ep, v) \<Rightarrow> Some (handlerOf c RC RB D ep v s e))"

section \<open>Wrapped responses\<close>

text \<open>The document that wraps a result or an error (\<open>server/responses.go\<close>).\<close>

datatype 'a payload = SuccessResponse 'a | ErrorResponse string "'a list option"

record 'a ApiResponse =
  api_Success :: bool
  api_Data :: "'a payload"

definition NewSuccessResponse :: "'a \<Rightarrow> 'a ApiResponse" where
  "NewSuccessResponse data = \<lparr>api_Success = True, api_Data = SuccessResponse data\<rparr>"

definition NewErrorResponse :: "string \<Rightarrow> 'a list \<Rightarrow> 'a ApiResponse" where
  "NewErrorResponse e extra =
     \<lparr>api_Success = False, api_Data = ErrorResponse e (if extra = [] then None else Some extra)\<rparr>"

section \<open>What is relied on of the matching of paths\<close>

locale gin_paths =
  fixes param :: "string \<Rightarrow> string \<Rightarrow> string option"
  assumes static: "CHR '':'' \<notin> set pat \<Longrightarrow> param pat path = (if path = pat then Some [] else None)"
    and named: "CHR '':'' \<notin> set pre \<Longrightarrow> CHR ''/'' \<notin> set name \<Longrightarrow>
      param (pre @ ''/:'' @ name) path =
        (if \<exists>v. path = pre @ ''/'' @ v \<and> v \<noteq> [] \<and> CHR ''/'' \<notin> set v
         then Some (drop (length pre + 1) path) else None)"
begin

lemma pattern: "param (p @ ''/:blockheight'') path =
    (if \<exists>v. path = p @ ''/'' @ v \<and> v \<noteq> [] \<and> CHR ''/'' \<notin> set v then Some (drop (length p + 1) path) else None)"
  if "CHR '':'' \<notin> set p"
  using named [OF that, of "''blockheight''" path] by simp

end

text \<open>The matcher of one pattern: a fixed path, or a fixed path and one named segment.\<close>

definition segments :: "string \<Rightarrow> string \<Rightarrow> string option" where
  "segments pat path =
     (let pre = takeWhile (\<lambda>ch. ch \<noteq> CHR '':'') pat; v = drop (length pre) path
      in if CHR '':'' \<notin> set pat then (if path = pat then Some [] else None)
         else if take (length pre) path = pre \<and> v \<noteq> [] \<and> CHR ''/'' \<notin> set v then Some v else None)"

interpretation seg: gin_paths segments
proof unfold_locales
  show "segments pat path = (if path = pat then Some [] else None)" if "CHR '':'' \<notin> set pat" for pat path
    using that by (simp add: segments_def)
  show "segments (pre @ ''/:'' @ name) path =
      (if \<exists>v. path = pre @ ''/'' @ v \<and> v \<noteq> [] \<and> CHR ''/'' \<notin> set v
       then Some (drop (length pre + 1) path) else None)"
    if "CHR '':'' \<notin> set pre" for pre name path
  proof -
    have t: "takeWhile (\<lambda>ch. ch \<noteq> CHR '':'') (pre @ CHR ''/'' # CHR '':'' # name) = pre @ [CHR ''/'']"
      using that by (induction pre) auto
    have "(\<exists>v. path = pre @ ''/'' @ v \<and> v \<noteq> [] \<and> CHR ''/'' \<notin> set v) \<longleftrightarrow>
        take (length pre + 1) path = pre @ ''/'' \<and> drop (length pre + 1) path \<noteq> [] \<and>
        CHR ''/'' \<notin> set (drop (length pre + 1) path)"
      by (metis append_take_drop_id append_assoc length_append append_eq_conv_conj list.size(3,4) One_nat_def add.right_neutral add_Suc_right)
    then show ?thesis by (simp add: segments_def Let_def t)
  qed
qed

section \<open>Every path reaches its handler\<close>

definition heightPaths :: "(string \<times> endpoint) list" where
  "heightPaths = [(''/blockhash'', Blockhash), (''/tweaks'', Tweaks), (''/utxos'', Utxos),
     (''/spent-outputs'', SpentOutputs), (''/compute-index'', ComputeIndexOf), (''/full-block'', FullBlock)]"

definition plainPaths :: "(string \<times> endpoint) list" where
  "plainPaths = [(''/info'', Info), (''/range/tweaks'', RangeTweaks), (''/range/utxos'', RangeUtxos),
     (''/range/spent-outputs'', RangeSpentOutputs), (''/range/compute-index'', RangeComputeIndex)]"

context gin_paths
begin

lemma param_routes:
  "param ''/info'' path = (if path = ''/info'' then Some [] else None)"
  "param ''/range/tweaks'' path = (if path = ''/range/tweaks'' then Some [] else None)"
  "param ''/range/utxos'' path = (if path = ''/range/utxos'' then Some [] else None)"
  "param ''/range/spent-outputs'' path = (if path = ''/range/spent-outputs'' then Some [] else None)"
  "param ''/range/compute-index'' path = (if path = ''/range/compute-index'' then Some [] else None)"
  by (rule static, simp)+

lemmas param_heights =
  pattern [of "''/blockhash''", simplified]
  pattern [of "''/tweaks''", simplified]
  pattern [of "''/utxos''", simplified]
  pattern [of "''/spent-outputs''", simplified]
  pattern [of "''/compute-index''", simplified]
  pattern [of "''/full-block''", simplified]

lemma route_height:
  assumes "v \<noteq> []" and "CHR ''/'' \<notin> set v" and "(p, ep) \<in> set heightPaths"
  shows "RunServer param c RC RB D (p @ ''/'' @ v) s e = Some (handlerOf c RC RB D ep v s e)"
  using assms(3) unfolding heightPaths_def list.set insert_iff empty_iff prod.inject
  by (elim disjE conjE FalseE) (simp_all add: RunServer_def routes_def param_routes param_heights assms(1,2))

lemma route_plain:
  assumes "(p, ep) \<in> set plainPaths"
  shows "RunServer param c RC RB D p s e = Some (handlerOf c RC RB D ep [] s e)"
  using assms unfolding plainPaths_def list.set insert_iff empty_iff prod.inject
  by (elim disjE conjE FalseE) (simp_all add: RunServer_def routes_def param_routes param_heights)

end

section \<open>The limit that a client is told\<close>

lemma rangeParams_numbers:
  assumes "a \<le> b" and "b < 2 ^ 32"
  shows "(\<exists>r. rangeParams m (AppendUint a) (AppendUint b) = Inr r) \<longleftrightarrow> b - a + 1 \<le> unat m"
  using assms AppendUint_digits [of a] AppendUint_digits [of b]
  by (auto simp: rangeParams_def Parse_Append Let_def)

lemma rangeReply_streams: "rangeReply m D s e encode = Streamed t \<longleftrightarrow>
    (\<exists>x y. rangeParams m s e = Inr (x, y) \<and> t = streamBlocks D x y encode)"
  by (auto simp: rangeReply_def split: sum.splits prod.splits)

lemma ranged_Stream [simp]: "ranged r = Stream t \<longleftrightarrow> r = Streamed t"
  by (cases r) simp_all

lemma range_streams:
  assumes "(p, ep) \<in> set plainPaths" and "ep \<noteq> Info" and "db_GetChainTip D = Inr tip"
  shows "(\<exists>text. handlerOf c RC RB D ep [] s e = Inr (Stream text)) \<longleftrightarrow>
    (\<exists>r. rangeParams (cfg_MaxRangeBlocks c) s e = Inr r)"
  using assms
  by (auto simp: plainPaths_def GetTweaksRange_def GetSpentOutputsRange_def GetComputeIndexRange_def GetUtxosRange_def
      rangeReply_streams split: sum.splits prod.splits)

text \<open>C26. A client can rely on the limit it is told: the info endpoint answers a number of blocks, and each of the
  four range endpoints streams a range of heights exactly when it has at most that many blocks.\<close>

theorem range_limit_announced:
  assumes "gin_paths param" and "db_GetChainTip D = Inr tip" and "ChainToString (cfg_Chain c) = Inr network"
  shows "\<exists>i. RunServer param c RC RB D ''/info'' s e = Some (Inr (Document \<lparr>http_status = 200, http_body = BInfo i\<rparr>)) \<and>
    (\<forall>a b. \<forall>p \<in> {''/range/tweaks'', ''/range/utxos'', ''/range/spent-outputs'', ''/range/compute-index''}.
       a \<le> b \<and> b < 2 ^ 32 \<longrightarrow>
         ((\<exists>text. RunServer param c RC RB D p (AppendUint a) (AppendUint b) = Some (Inr (Stream text))) \<longleftrightarrow>
          b - a + 1 \<le> unat (inf_MaxRangeBlocks i)))"
proof -
  obtain i where i: "GetInfo c D = JSON 200 (BInfo i)" "inf_MaxRangeBlocks i = cfg_MaxRangeBlocks c"
    using assms(2,3) by (cases tip) (simp add: GetInfo_def)
  have "RunServer param c RC RB D ''/info'' s e = Some (Inr (Document \<lparr>http_status = 200, http_body = BInfo i\<rparr>))"
    by (subst gin_paths.route_plain [OF assms(1), of _ Info]) (simp_all add: plainPaths_def document_def i JSON_def)
  moreover have "(\<exists>text. RunServer param c RC RB D p (AppendUint a) (AppendUint b) = Some (Inr (Stream text))) \<longleftrightarrow>
      b - a + 1 \<le> unat (inf_MaxRangeBlocks i)"
    if "p \<in> {''/range/tweaks'', ''/range/utxos'', ''/range/spent-outputs'', ''/range/compute-index''}"
      "a \<le> b \<and> b < 2 ^ 32" for a b p
  proof -
    have "\<exists>ep. (p, ep) \<in> set plainPaths \<and> ep \<noteq> Info"
      using that(1) unfolding plainPaths_def by (elim insertE) simp_all
    then obtain ep where ep: "(p, ep) \<in> set plainPaths" "ep \<noteq> Info" by blast
    show ?thesis
      using range_streams [OF ep assms(2)] rangeParams_numbers [of a b] that(2) i(2)
      by (simp add: gin_paths.route_plain [OF assms(1) ep(1)])
  qed
  ultimately show ?thesis by blast
qed

theorem range_limit_announced_witness:
  "\<exists>i. RunServer segments ((initialConfig 4)\<lparr>cfg_Chain := Mainnet\<rparr>) rev rev x_db ''/info'' [] [] =
       Some (Inr (Document \<lparr>http_status = 200, http_body = BInfo i\<rparr>)) \<and>
     (\<exists>text. RunServer segments ((initialConfig 4)\<lparr>cfg_Chain := Mainnet\<rparr>) rev rev x_db ''/range/tweaks''
        (AppendUint 7) (AppendUint 106) = Some (Inr (Stream text))) \<and>
     \<not> (\<exists>text. RunServer segments ((initialConfig 4)\<lparr>cfg_Chain := Mainnet\<rparr>) rev rev x_db ''/range/tweaks''
        (AppendUint 7) (AppendUint 107) = Some (Inr (Stream text)))"
proof -
  let ?c = "(initialConfig 4)\<lparr>cfg_Chain := Mainnet\<rparr>"
  have lib: "gin_paths segments" by (rule seg.gin_paths_axioms)
  have tip: "db_GetChainTip x_db = Inr (Some (replicate 32 1), 8)" by (simp add: x_db_def)
  have net: "ChainToString (cfg_Chain ?c) = Inr ''main''" by simp
  obtain i where i: "RunServer segments ?c rev rev x_db ''/info'' [] [] =
      Some (Inr (Document \<lparr>http_status = 200, http_body = BInfo i\<rparr>))"
    "\<forall>a b. \<forall>p \<in> {''/range/tweaks'', ''/range/utxos'', ''/range/spent-outputs'', ''/range/compute-index''}.
       a \<le> b \<and> b < 2 ^ 32 \<longrightarrow>
         ((\<exists>text. RunServer segments ?c rev rev x_db p (AppendUint a) (AppendUint b) = Some (Inr (Stream text))) \<longleftrightarrow>
          b - a + 1 \<le> unat (inf_MaxRangeBlocks i))"
    using range_limit_announced [OF lib tip net, of rev rev "[]" "[]"] by blast
  have "GetInfo ?c x_db = JSON 200 (BInfo i)"
    using i(1) seg.route_plain [of "''/info''" Info ?c rev rev x_db "[]" "[]"]
    by (cases "GetInfo ?c x_db") (simp_all add: plainPaths_def document_def JSON_def)
  then have "inf_MaxRangeBlocks i = 100" by (auto simp: GetInfo_def tip JSON_def initialConfig_def Let_def)
  then show ?thesis using i by (intro exI [of _ i]) (auto dest: spec [of _ 7])
qed

end
