(* ===== verification/Json_Reader.thy ===== *)
theory Json_Reader
  imports Json "HOL-Library.Sublist"
begin

text \<open>
  A JSON parser as a client has it: the syntax of RFC 8259 with white space, escapes and all forms of
  numbers.  Strings and numbers are kept as they are written.  It is the specification side of the
  HTTP server: what a client reads of a document, and that it rejects a document that is cut off.
  The readers take fuel; \<open>readDoc_enough\<close> shows that the fuel \<open>Parse\<close> passes is never short.
\<close>

section \<open>Reading\<close>

datatype doc = DNull | DBool bool | DNum string | DStr string | DArr "doc list" | DObj "(string \<times> doc) list"

definition blank :: "char \<Rightarrow> bool" where
  "blank c \<longleftrightarrow> c = CHR '' '' \<or> c = CHR 0x09 \<or> c = CHR 0x0A \<or> c = CHR 0x0D"

definition skip :: "string \<Rightarrow> string" where
  "skip s = dropWhile blank s"

fun hexDigits4 :: "string \<Rightarrow> bool" where
  "hexDigits4 s = (length s = 4 \<and> list_all (\<lambda>c. fromHexChar c \<noteq> None) s)"

definition escapes :: string where
  "escapes = [CHR 0x22, CHR 0x5C] @ ''/bfnrt''"

text \<open>The rest of a string after its opening quote.\<close>

function readString :: "string \<Rightarrow> (string \<times> string) option" where
  "readString [] = None"
| "readString (c # r) =
     (if c = CHR 0x22 then Some ([], r)
      else if (of_char c :: nat) < 32 then None
      else if c = CHR 0x5C
      then (let k = (if r \<noteq> [] \<and> hd r \<in> set escapes then 1
                     else if r \<noteq> [] \<and> hd r = CHR ''u'' \<and> hexDigits4 (take 4 (tl r)) then 5 else 0)
            in if k = 0 then None
               else (case readString (drop k r) of None \<Rightarrow> None
                     | Some (s, q) \<Rightarrow> Some (c # take k r @ s, q)))
      else (case readString r of None \<Rightarrow> None | Some (s, q) \<Rightarrow> Some (c # s, q)))"
  by pat_completeness auto
termination by (relation "measure length") auto

declare readString.simps(2) [simp del]

text \<open>The parts of a number: the integer part, the fraction and the exponent.\<close>

definition readInt :: "string \<Rightarrow> (string \<times> string) option" where
  "readInt s =
     (let d = takeWhile isDigit s
      in if d = [] \<or> hd d = CHR ''0'' \<and> length d > 1 then None else Some (d, dropWhile isDigit s))"

definition readSigned :: "string \<Rightarrow> (string \<times> string) option" where
  "readSigned s =
     (if s \<noteq> [] \<and> hd s = CHR ''-''
      then (case readInt (tl s) of None \<Rightarrow> None | Some (d, r) \<Rightarrow> Some (CHR ''-'' # d, r))
      else readInt s)"

definition readFrac :: "string \<Rightarrow> (string \<times> string) option" where
  "readFrac s =
     (if s \<noteq> [] \<and> hd s = CHR ''.''
      then (let d = takeWhile isDigit (tl s)
            in if d = [] then None else Some (CHR ''.'' # d, dropWhile isDigit (tl s)))
      else Some ([], s))"

definition readExp :: "string \<Rightarrow> (string \<times> string) option" where
  "readExp s =
     (if s \<noteq> [] \<and> (hd s = CHR ''e'' \<or> hd s = CHR ''E'')
      then (let k = (if tl s \<noteq> [] \<and> (hd (tl s) = CHR ''+'' \<or> hd (tl s) = CHR ''-'') then 2 else 1);
                d = takeWhile isDigit (drop k s)
            in if d = [] then None else Some (take k s @ d, dropWhile isDigit (drop k s)))
      else Some ([], s))"

definition readNumber :: "string \<Rightarrow> (doc \<times> string) option" where
  "readNumber s =
     (case readSigned s of None \<Rightarrow> None
      | Some (i, r) \<Rightarrow> (case readFrac r of None \<Rightarrow> None
        | Some (f, r) \<Rightarrow> (case readExp r of None \<Rightarrow> None
          | Some (e, r) \<Rightarrow> Some (DNum (i @ f @ e), r))))"

definition readWord :: "string \<Rightarrow> doc \<Rightarrow> string \<Rightarrow> (doc \<times> string) option" where
  "readWord w v s = (if take (length w) s = w then Some (v, drop (length w) s) else None)"

definition readLiteral :: "string \<Rightarrow> (doc \<times> string) option" where
  "readLiteral s =
     (case readWord ''null'' DNull s of Some x \<Rightarrow> Some x
      | None \<Rightarrow> (case readWord ''true'' (DBool True) s of Some x \<Rightarrow> Some x
        | None \<Rightarrow> (case readWord ''false'' (DBool False) s of Some x \<Rightarrow> Some x
          | None \<Rightarrow> readNumber s)))"

text \<open>A value; the elements of an array after its bracket; the fields of an object after its brace.\<close>

fun readDoc :: "nat \<Rightarrow> string \<Rightarrow> (doc \<times> string) option"
  and readItems :: "nat \<Rightarrow> string \<Rightarrow> (doc list \<times> string) option"
  and readFields :: "nat \<Rightarrow> string \<Rightarrow> ((string \<times> doc) list \<times> string) option" where
  "readDoc 0 s = None"
| "readDoc (Suc n) s =
     (case skip s of [] \<Rightarrow> None
      | c # r \<Rightarrow>
          if c = CHR ''{'' then
            (if skip r \<noteq> [] \<and> hd (skip r) = CHR ''}'' then Some (DObj [], tl (skip r))
             else (case readFields n r of None \<Rightarrow> None | Some (fs, q) \<Rightarrow> Some (DObj fs, q)))
          else if c = CHR ''['' then
            (if skip r \<noteq> [] \<and> hd (skip r) = CHR '']'' then Some (DArr [], tl (skip r))
             else (case readItems n r of None \<Rightarrow> None | Some (vs, q) \<Rightarrow> Some (DArr vs, q)))
          else if c = CHR 0x22 then
            (case readString r of None \<Rightarrow> None | Some (t, q) \<Rightarrow> Some (DStr t, q))
          else readLiteral (c # r))"
| "readItems 0 s = None"
| "readItems (Suc n) s =
     (case readDoc n s of None \<Rightarrow> None
      | Some (v, r) \<Rightarrow>
          (case skip r of [] \<Rightarrow> None
           | c # q \<Rightarrow>
               if c = CHR '']'' then Some ([v], q)
               else if c = CHR '','' then
                 (case readItems n q of None \<Rightarrow> None | Some (vs, q') \<Rightarrow> Some (v # vs, q'))
               else None))"
| "readFields 0 s = None"
| "readFields (Suc n) s =
     (case skip s of [] \<Rightarrow> None
      | c # r \<Rightarrow>
          if c \<noteq> CHR 0x22 then None
          else (case readString r of None \<Rightarrow> None
            | Some (k, r) \<Rightarrow>
                (case skip r of [] \<Rightarrow> None
                 | c # r \<Rightarrow>
                     if c \<noteq> CHR '':'' then None
                     else (case readDoc n r of None \<Rightarrow> None
                       | Some (v, r) \<Rightarrow>
                           (case skip r of [] \<Rightarrow> None
                            | c # q \<Rightarrow>
                                if c = CHR ''}'' then Some ([(k, v)], q)
                                else if c = CHR '','' then
                                  (case readFields n q of None \<Rightarrow> None
                                   | Some (fs, q') \<Rightarrow> Some ((k, v) # fs, q'))
                                else None)))))"

definition Parse :: "string \<Rightarrow> doc option" where
  "Parse s =
     (case readDoc (2 * length s + 1) s of None \<Rightarrow> None
      | Some (v, r) \<Rightarrow> if skip r = [] then Some v else None)"

section \<open>Every reader consumes a part of the text\<close>

text \<open>A reader is well behaved when it consumes something, and more text after what it has read does
  not change what it reads.\<close>

lemma skip_length: "length (skip s) \<le> length s"
  by (simp add: skip_def length_dropWhile_le)

lemma skip_append: "skip r \<noteq> [] \<Longrightarrow> skip (r @ t) = skip r @ t"
  unfolding skip_def by (induction r) auto

lemma skip_blanks: "list_all blank w \<Longrightarrow> skip (w @ s) = skip s"
  unfolding skip_def by (induction w) simp_all

lemma skip_id: "s \<noteq> [] \<Longrightarrow> \<not> blank (hd s) \<Longrightarrow> skip s = s"
  by (cases s) (simp_all add: skip_def)

lemma span_append:
  "dropWhile P s \<noteq> [] \<Longrightarrow>
     takeWhile P (s @ t) = takeWhile P s \<and> dropWhile P (s @ t) = dropWhile P s @ t"
  by (induction s) auto

lemma readString_step:
  "readString s = Some (x, r) \<Longrightarrow> length r < length s \<and> readString (s @ t) = Some (x, r @ t)"
proof (induction s arbitrary: x rule: readString.induct)
  case (2 c s)
  show ?case
  proof (cases "c = CHR 0x5C")
    case True
    define k where "k = (if s \<noteq> [] \<and> hd s \<in> set escapes then 1
       else if s \<noteq> [] \<and> hd s = CHR ''u'' \<and> hexDigits4 (take 4 (tl s)) then 5 else (0 :: nat))"
    have k: "k \<noteq> 0" and "\<exists>y. readString (drop k s) = Some (y, r) \<and> x = c # take k s @ y"
      using "2.prems" True
      by (auto simp: readString.simps(2) k_def [symmetric] Let_def split: option.splits if_splits)
    then obtain y where y: "readString (drop k s) = Some (y, r)" "x = c # take k s @ y" by blast
    have IH: "length r < length (drop k s)" "readString (drop k s @ t) = Some (y, r @ t)"
      using "2.IH"(1) [OF _ _ True refl, folded k_def, OF _ _ k y(1)] True by simp_all
    have ls: "k \<le> length s" using IH(1) by (cases "k \<le> length s") simp_all
    have k': "k = (if s @ t \<noteq> [] \<and> hd (s @ t) \<in> set escapes then 1
       else if s @ t \<noteq> [] \<and> hd (s @ t) = CHR ''u'' \<and> hexDigits4 (take 4 (tl (s @ t))) then 5 else (0 :: nat))"
      using k ls by (auto simp: k_def split: if_splits)
    show ?thesis using True IH ls k y(2) k' by (simp add: readString.simps(2) Let_def)
  next
    case False
    then show ?thesis using "2.prems" "2.IH"(2)
      by (auto simp: readString.simps(2) split: option.splits if_splits)
  qed
qed simp

text \<open>The parts of a number, when something follows.\<close>

lemma span_step:
  assumes "takeWhile P s \<noteq> []"
  shows "length (dropWhile P s) < length s"
    and "dropWhile P s \<noteq> [] \<Longrightarrow> takeWhile P (s @ t) = takeWhile P s"
    and "dropWhile P s \<noteq> [] \<Longrightarrow> dropWhile P (s @ t) = dropWhile P s @ t"
proof -
  have "length s = length (takeWhile P s) + length (dropWhile P s)"
    by (metis length_append takeWhile_dropWhile_id)
  moreover have "length (takeWhile P s) \<noteq> 0" using assms by simp
  ultimately show "length (dropWhile P s) < length s" by linarith
qed (use span_append [of P s t] in simp_all)

lemma readInt_step:
  assumes "readInt s = Some (x, r)"
  shows "length r < length s \<and> (r \<noteq> [] \<longrightarrow> readInt (s @ t) = Some (x, r @ t))"
proof -
  have x: "takeWhile isDigit s \<noteq> []" "x = takeWhile isDigit s" "r = dropWhile isDigit s"
    "\<not> (hd x = CHR ''0'' \<and> length x > 1)"
    using assms by (auto simp: readInt_def Let_def split: if_splits)
  note sp = span_step [OF x(1)]
  show ?thesis using sp(1) sp(2,3) [folded x(2,3), of t] x(1,4) x(2,3) [symmetric]
    by (auto simp: readInt_def Let_def)
qed

lemma readSigned_step:
  assumes "readSigned s = Some (x, r)"
  shows "length r < length s \<and> (r \<noteq> [] \<longrightarrow> readSigned (s @ t) = Some (x, r @ t))"
proof (cases "s \<noteq> [] \<and> hd s = CHR ''-''")
  case True
  then obtain s' where s': "s = CHR ''-'' # s'" by (cases s) auto
  then obtain d where d: "readInt s' = Some (d, r)" "x = CHR ''-'' # d"
    using assms by (auto simp: readSigned_def split: option.splits)
  show ?thesis using readInt_step [OF d(1), of t] d by (simp add: readSigned_def s')
next
  case False
  then have i: "readInt s = Some (x, r)" using assms by (simp add: readSigned_def split: if_splits)
  then show ?thesis using readInt_step [OF i, of t] False by (cases s) (auto simp: readSigned_def)
qed

lemma readFrac_step:
  assumes "readFrac s = Some (x, r)"
  shows "length r \<le> length s \<and> (r \<noteq> [] \<longrightarrow> readFrac (s @ t) = Some (x, r @ t))"
proof (cases "s \<noteq> [] \<and> hd s = CHR ''.''")
  case True
  then obtain s' where s': "s = CHR ''.'' # s'" by (cases s) auto
  then have d: "takeWhile isDigit s' \<noteq> []" "x = CHR ''.'' # takeWhile isDigit s'" "r = dropWhile isDigit s'"
    using assms by (auto simp: readFrac_def Let_def split: if_splits)
  note sp = span_step [OF d(1)]
  show ?thesis using sp(1) sp(2,3) [folded d(3), of t] d(1,2) d(3) [symmetric]
    by (simp add: readFrac_def s')
next
  case False
  then show ?thesis using assms by (cases s) (auto simp: readFrac_def)
qed

lemma readExp_step:
  "readExp s = Some (x, r) \<Longrightarrow> length r \<le> length s \<and> (r \<noteq> [] \<longrightarrow> readExp (s @ t) = Some (x, r @ t))"
proof -
  assume r: "readExp s = Some (x, r)"
  show ?thesis
  proof (cases "s \<noteq> [] \<and> (hd s = CHR ''e'' \<or> hd s = CHR ''E'')")
    case True
    define k where "k = (if tl s \<noteq> [] \<and> (hd (tl s) = CHR ''+'' \<or> hd (tl s) = CHR ''-'') then 2 else (1 :: nat))"
    have d: "takeWhile isDigit (drop k s) \<noteq> []" and x: "x = take k s @ takeWhile isDigit (drop k s)"
      and rr: "r = dropWhile isDigit (drop k s)"
      using r True by (auto simp: readExp_def Let_def k_def [symmetric] split: if_splits)
    have ls: "k < length s" using d by (cases "k < length s") simp_all
    have "tl s \<noteq> []" using ls by (cases s) (auto simp: k_def)
    then have k': "k = (if tl (s @ t) \<noteq> [] \<and> (hd (tl (s @ t)) = CHR ''+'' \<or> hd (tl (s @ t)) = CHR ''-'') then 2 else 1)"
      using True by (cases s) (auto simp: k_def)
    have "length r \<le> length s"
      using length_dropWhile_le [of isDigit "drop k s"] rr by simp
    moreover have "readExp (s @ t) = Some (x, r @ t)" if "r \<noteq> []"
    proof -
      have sp: "takeWhile isDigit (drop k s @ t) = takeWhile isDigit (drop k s)"
        "dropWhile isDigit (drop k s @ t) = r @ t"
        using span_append [of isDigit "drop k s" t] that rr by simp_all
      show ?thesis
        unfolding readExp_def k' [symmetric] Let_def using True ls sp d x by simp
    qed
    ultimately show ?thesis by simp
  next
    case False
    then show ?thesis using r by (cases s) (auto simp: readExp_def)
  qed
qed

lemma readNumber_step:
  assumes "readNumber s = Some (v, r)"
  shows "length r < length s" and "r \<noteq> [] \<Longrightarrow> readNumber (s @ t) = Some (v, r @ t)"
proof -
  obtain i r1 f r2 e where a: "readSigned s = Some (i, r1)" "readFrac r1 = Some (f, r2)"
    "readExp r2 = Some (e, r)" "v = DNum (i @ f @ e)"
    using assms by (auto simp: readNumber_def split: option.splits)
  note steps = readSigned_step [OF a(1), of t] readFrac_step [OF a(2), of t] readExp_step [OF a(3), of t]
  show "length r < length s" using steps by linarith
  assume "r \<noteq> []"
  moreover from this have "r2 \<noteq> []" using steps by auto
  moreover from this have "r1 \<noteq> []" using steps by auto
  ultimately show "readNumber (s @ t) = Some (v, r @ t)" using steps a by (simp add: readNumber_def)
qed

fun isNum :: "doc \<Rightarrow> bool" where
  "isNum (DNum t) = True"
| "isNum v = False"

lemma readNumber_isNum: "readNumber s = Some (v, r) \<Longrightarrow> isNum v"
  by (auto simp: readNumber_def split: option.splits)

lemma readWord_step:
  "readWord w v s = Some (x, r) \<Longrightarrow> w \<noteq> [] \<Longrightarrow>
     x = v \<and> length r < length s \<and> readWord w v (s @ t) = Some (x, r @ t)"
proof -
  assume w: "readWord w v s = Some (x, r)" "w \<noteq> []"
  then have "take (length w) s = w" "drop (length w) s = r" by (simp_all add: readWord_def split: if_splits)
  then have "s = w @ r" by (metis append_take_drop_id)
  then show ?thesis using w by (auto simp: readWord_def)
qed

lemma readWord_hd: "readWord w v s = Some p \<Longrightarrow> w \<noteq> [] \<Longrightarrow> s \<noteq> [] \<and> hd s = hd w"
  by (cases s; cases w) (auto simp: readWord_def split: if_splits)

lemma readWord_None: "hd s \<noteq> hd w \<Longrightarrow> w \<noteq> [] \<Longrightarrow> readWord w v s = None"
  using readWord_hd [of w v s] by (cases "readWord w v s") auto

lemma readNumber_start:
  "readNumber s = Some (v, r) \<Longrightarrow> s \<noteq> [] \<and> (hd s = CHR ''-'' \<or> isDigit (hd s))"
  by (cases s) (auto simp: readNumber_def readSigned_def readInt_def Let_def split: option.splits if_splits)

lemma readLiteral_step:
  assumes "readLiteral s = Some (v, r)"
  shows "length r < length s \<and> (r \<noteq> [] \<or> \<not> isNum v \<longrightarrow> readLiteral (s @ t) = Some (v, r @ t))"
proof -
  consider (null) "readWord ''null'' DNull s = Some (v, r)"
    | (true) "readWord ''true'' (DBool True) s = Some (v, r)"
    | (false) "readWord ''false'' (DBool False) s = Some (v, r)"
    | (num) "readNumber s = Some (v, r)"
    using assms unfolding readLiteral_def by (auto split: option.splits)
  then show ?thesis
  proof cases
    case null
    then show ?thesis using readWord_step [OF null, of t] by (simp add: readLiteral_def)
  next
    case true
    have "hd (s @ t) = CHR ''t''" using readWord_hd [OF true] by simp
    then show ?thesis using readWord_step [OF true, of t] by (simp add: readLiteral_def readWord_None)
  next
    case false
    have "hd (s @ t) = CHR ''f''" using readWord_hd [OF false] by simp
    then show ?thesis using readWord_step [OF false, of t] by (simp add: readLiteral_def readWord_None)
  next
    case num
    have "hd (s @ t) = CHR ''-'' \<or> isDigit (hd (s @ t))" using readNumber_start [OF num] by simp
    then have "hd (s @ t) \<noteq> CHR ''n'' \<and> hd (s @ t) \<noteq> CHR ''t'' \<and> hd (s @ t) \<noteq> CHR ''f''"
      by (auto simp: isDigit_def)
    then show ?thesis
      using readNumber_step [OF num] readNumber_isNum [OF num] by (simp add: readLiteral_def readWord_None)
  qed
qed

lemma readItems_start: "readItems n s = Some p \<Longrightarrow> skip s \<noteq> []"
  by (cases n; cases "n - 1") (auto split: option.splits)

lemma readFields_start: "readFields n s = Some p \<Longrightarrow> skip s \<noteq> []"
  by (cases n) (auto split: list.splits)

definition keeps_value :: "nat \<Rightarrow> bool" where
  "keeps_value n \<longleftrightarrow> (\<forall>s v r t. readDoc n s = Some (v, r) \<longrightarrow>
     length r < length s \<and> (r \<noteq> [] \<or> \<not> isNum v \<longrightarrow> readDoc n (s @ t) = Some (v, r @ t)))"

definition keeps_items :: "nat \<Rightarrow> bool" where
  "keeps_items n \<longleftrightarrow> (\<forall>s vs r t. readItems n s = Some (vs, r) \<longrightarrow>
     length r < length s \<and> readItems n (s @ t) = Some (vs, r @ t))"

definition keeps_fields :: "nat \<Rightarrow> bool" where
  "keeps_fields n \<longleftrightarrow> (\<forall>s fs r t. readFields n s = Some (fs, r) \<longrightarrow>
     length r < length s \<and> readFields n (s @ t) = Some (fs, r @ t))"

lemma skip_Cons_append:
  assumes "skip s = c # q"
  shows "skip (s @ t) = c # q @ t" and "length q < length s"
  using assms skip_append [of s t] skip_length [of s] by simp_all

lemma keeps_value_Suc:
  assumes "keeps_items n" and "keeps_fields n"
  shows "keeps_value (Suc n)"
  unfolding keeps_value_def
proof (intro allI impI)
  fix s v r t assume r: "readDoc (Suc n) s = Some (v, r)"
  then obtain c q where q: "skip s = c # q" by (auto split: list.splits)
  note sk = skip_Cons_append(1) [OF q, of t] skip_Cons_append(2) [OF q]
  have sq: "skip q \<noteq> [] \<Longrightarrow> skip (q @ t) = skip q @ t" by (rule skip_append)
  have tl: "length (tl (skip q)) \<le> length q" using skip_length [of q] by (cases "skip q") auto
  consider (obj) "c = CHR ''{''" | (arr) "c = CHR ''[''" | (str) "c = CHR 0x22"
    | (lit) "c \<noteq> CHR ''{''" "c \<noteq> CHR ''[''" "c \<noteq> CHR 0x22" by blast
  then show "length r < length s \<and> (r \<noteq> [] \<or> \<not> isNum v \<longrightarrow> readDoc (Suc n) (s @ t) = Some (v, r @ t))"
  proof cases
    case obj
    show ?thesis
    proof (cases "skip q \<noteq> [] \<and> hd (skip q) = CHR ''}''")
      case True
      then show ?thesis using r q sk tl sq obj by simp
    next
      case False
      then obtain fs where fs: "readFields n q = Some (fs, r)" "v = DObj fs"
        using r q obj by (auto split: option.splits)
      have "length r < length q" "readFields n (q @ t) = Some (fs, r @ t)"
        using assms(2) fs(1) unfolding keeps_fields_def by blast+
      then show ?thesis using False readFields_start [OF fs(1)] fs sk sq obj by simp
    qed
  next
    case arr
    show ?thesis
    proof (cases "skip q \<noteq> [] \<and> hd (skip q) = CHR '']''")
      case True
      then show ?thesis using r q sk tl sq arr by simp
    next
      case False
      then obtain vs where vs: "readItems n q = Some (vs, r)" "v = DArr vs"
        using r q arr by (auto split: option.splits)
      have "length r < length q" "readItems n (q @ t) = Some (vs, r @ t)"
        using assms(1) vs(1) unfolding keeps_items_def by blast+
      then show ?thesis using False readItems_start [OF vs(1)] vs sk sq arr by simp
    qed
  next
    case str
    then obtain x where x: "readString q = Some (x, r)" "v = DStr x" using r q by (auto split: option.splits)
    show ?thesis using readString_step [OF x(1), of t] x sk str by simp
  next
    case lit
    then have l: "readLiteral (c # q) = Some (v, r)" using r q by simp
    have "length (c # q) \<le> length s" using sk(2) by simp
    then show ?thesis using readLiteral_step [OF l, of t] sk(1) lit by auto
  qed
qed

lemma keeps_items_Suc:
  assumes "keeps_value n" and "keeps_items n"
  shows "keeps_items (Suc n)"
  unfolding keeps_items_def
proof (intro allI impI)
  fix s vs r t assume r: "readItems (Suc n) s = Some (vs, r)"
  then obtain v r1 c q where a: "readDoc n s = Some (v, r1)" "skip r1 = c # q"
    by (auto split: option.splits list.splits)
  note sk = skip_Cons_append(1) [OF a(2), of t] skip_Cons_append(2) [OF a(2)]
  have "r1 \<noteq> []" using sk(2) by auto
  then have v: "length r1 < length s" "readDoc n (s @ t) = Some (v, r1 @ t)"
    using assms(1) a(1) unfolding keeps_value_def by blast+
  show "length r < length s \<and> readItems (Suc n) (s @ t) = Some (vs, r @ t)"
  proof (cases "c = CHR '']''")
    case True
    then show ?thesis using r a v sk by simp
  next
    case False
    then obtain ws where ws: "c = CHR '',''" "readItems n q = Some (ws, r)" "vs = v # ws"
      using r a by (auto split: option.splits if_splits)
    have "length r < length q" "readItems n (q @ t) = Some (ws, r @ t)"
      using assms(2) ws(2) unfolding keeps_items_def by blast+
    then show ?thesis using ws v sk by simp
  qed
qed

lemma keeps_fields_Suc:
  assumes "keeps_value n" and "keeps_fields n"
  shows "keeps_fields (Suc n)"
  unfolding keeps_fields_def
proof (intro allI impI)
  fix s fs r t assume r: "readFields (Suc n) s = Some (fs, r)"
  then obtain q k r1 q1 v r2 c q2 where a: "skip s = CHR 0x22 # q" "readString q = Some (k, r1)"
    "skip r1 = CHR '':'' # q1" "readDoc n q1 = Some (v, r2)" "skip r2 = c # q2"
    by (auto split: option.splits list.splits if_splits)
  note sk = skip_Cons_append(1) [OF a(1), of t] skip_Cons_append(2) [OF a(1)] skip_Cons_append(1) [OF a(3), of t] skip_Cons_append(2) [OF a(3)] skip_Cons_append(1) [OF a(5), of t] skip_Cons_append(2) [OF a(5)]
  note str = readString_step [OF a(2), of t]
  have "r2 \<noteq> []" using sk(6) by auto
  then have v: "length r2 < length q1" "readDoc n (q1 @ t) = Some (v, r2 @ t)"
    using assms(1) a(4) unfolding keeps_value_def by blast+
  show "length r < length s \<and> readFields (Suc n) (s @ t) = Some (fs, r @ t)"
  proof (cases "c = CHR ''}''")
    case True
    then show ?thesis using r a v sk str by simp
  next
    case False
    then obtain gs where gs: "c = CHR '',''" "readFields n q2 = Some (gs, r)" "fs = (k, v) # gs"
      using r a by (auto split: option.splits if_splits)
    have "length r < length q2" "readFields n (q2 @ t) = Some (gs, r @ t)"
      using assms(2) gs(2) unfolding keeps_fields_def by blast+
    then show ?thesis using gs v sk str by simp
  qed
qed

lemma readers_keep: "keeps_value n \<and> keeps_items n \<and> keeps_fields n"
proof (induction n)
  case 0
  show ?case by (simp add: keeps_value_def keeps_items_def keeps_fields_def)
next
  case (Suc n)
  then show ?case using keeps_value_Suc keeps_items_Suc keeps_fields_Suc by blast
qed

lemma readDoc_append:
  "readDoc n s = Some (v, r) \<Longrightarrow> r \<noteq> [] \<or> \<not> isNum v \<Longrightarrow> readDoc n (s @ t) = Some (v, r @ t)"
  using readers_keep [of n] unfolding keeps_value_def by blast

lemma readers_shorter:
  "readDoc n s = Some (v, r) \<Longrightarrow> length r < length s"
  "readItems n s = Some (vs, r) \<Longrightarrow> length r < length s"
  "readFields n s = Some (fs, r) \<Longrightarrow> length r < length s"
  using readers_keep [of n] unfolding keeps_value_def keeps_items_def keeps_fields_def by blast+

section \<open>The fuel\<close>

text \<open>What is read with some fuel is read with every fuel above twice the length of the text.\<close>

lemma readers_enough:
  "(\<forall>s x m. readDoc n s = Some x \<and> 2 * length s + 1 \<le> m \<longrightarrow> readDoc m s = Some x) \<and>
   (\<forall>s x m. readItems n s = Some x \<and> 2 * length s + 2 \<le> m \<longrightarrow> readItems m s = Some x) \<and>
   (\<forall>s x m. readFields n s = Some x \<and> 2 * length s + 2 \<le> m \<longrightarrow> readFields m s = Some x)"
proof (induction n)
  case (Suc n)
  then have IHv: "readDoc n s = Some x \<Longrightarrow> 2 * length s + 1 \<le> m \<Longrightarrow> readDoc m s = Some x"
    and IHi: "readItems n s = Some y \<Longrightarrow> 2 * length s + 2 \<le> m \<Longrightarrow> readItems m s = Some y"
    and IHf: "readFields n s = Some z \<Longrightarrow> 2 * length s + 2 \<le> m \<Longrightarrow> readFields m s = Some z"
    for s x y z m by blast+
  have "readDoc m s = Some x" if r: "readDoc (Suc n) s = Some x" and m: "2 * length s + 1 \<le> m" for s x m
  proof -
    obtain c q where q: "skip s = c # q" using r by (auto split: list.splits)
    obtain k where k: "m = Suc k" using m by (cases m) auto
    have lq: "2 * length q + 2 \<le> k" using skip_Cons_append(2) [OF q] m k by simp
    have i: "readItems k q = readItems n q" if "readItems n q \<noteq> None" using IHi [OF _ lq] that by auto
    have f: "readFields k q = readFields n q" if "readFields n q \<noteq> None" using IHf [OF _ lq] that by auto
    show ?thesis using r q by (auto simp: k i f split: option.splits if_splits)
  qed
  moreover have "readItems m s = Some x" if r: "readItems (Suc n) s = Some x" and m: "2 * length s + 2 \<le> m" for s x m
  proof -
    obtain v r1 c q where a: "readDoc n s = Some (v, r1)" "skip r1 = c # q"
      using r by (auto split: option.splits list.splits)
    obtain k where k: "m = Suc k" using m by (cases m) auto
    have v: "readDoc k s = Some (v, r1)" by (rule IHv [OF a(1)]) (use m k in simp)
    have lq: "2 * length q + 2 \<le> k"
      using skip_Cons_append(2) [OF a(2)] readers_shorter(1) [OF a(1)] m k by simp
    have i: "readItems k q = readItems n q" if "readItems n q \<noteq> None" using IHi [OF _ lq] that by auto
    show ?thesis using r a v by (auto simp: k i split: option.splits if_splits)
  qed
  moreover have "readFields m s = Some x" if r: "readFields (Suc n) s = Some x" and m: "2 * length s + 2 \<le> m" for s x m
  proof -
    obtain q l r1 q1 v r2 c q2 where a: "skip s = CHR 0x22 # q" "readString q = Some (l, r1)"
      "skip r1 = CHR '':'' # q1" "readDoc n q1 = Some (v, r2)" "skip r2 = c # q2"
      using r by (auto split: option.splits list.splits if_splits)
    obtain k where k: "m = Suc k" using m by (cases m) auto
    have l: "length q1 < length s"
      using skip_Cons_append(2) [OF a(1)] skip_Cons_append(2) [OF a(3)] readString_step [OF a(2)] by force
    have v: "readDoc k q1 = Some (v, r2)" by (rule IHv [OF a(4)]) (use l m k in simp)
    have lq: "2 * length q2 + 2 \<le> k"
      using skip_Cons_append(2) [OF a(5)] readers_shorter(1) [OF a(4)] l m k by simp
    have f: "readFields k q2 = readFields n q2" if "readFields n q2 \<noteq> None" using IHf [OF _ lq] that by auto
    show ?thesis using r a v by (auto simp: k f split: option.splits if_splits)
  qed
  ultimately show ?case by blast
qed simp

lemma readDoc_enough:
  "readDoc n s = Some x \<Longrightarrow> 2 * length s + 1 \<le> m \<Longrightarrow> readDoc m s = Some x"
  using readers_enough [of n] by blast

lemma Parse_iff: "Parse s = Some v \<longleftrightarrow> (\<exists>n r. readDoc n s = Some (v, r) \<and> skip r = [])"
proof
  assume "\<exists>n r. readDoc n s = Some (v, r) \<and> skip r = []"
  then obtain n r where r: "readDoc n s = Some (v, r)" "skip r = []" by blast
  show "Parse s = Some v" using readDoc_enough [OF r(1) order_refl] r(2) by (simp add: Parse_def)
next
  assume "Parse s = Some v"
  then obtain r where "readDoc (2 * length s + 1) s = Some (v, r)" "skip r = []"
    by (auto simp: Parse_def simp del: readDoc.simps split: option.splits if_splits)
  then show "\<exists>n r. readDoc n s = Some (v, r) \<and> skip r = []" by blast
qed

section \<open>A document that is cut off\<close>

text \<open>A text that starts with a brace and is not blank at its end is rejected when a part of it is
  missing.\<close>

lemma skip_last: "s \<noteq> [] \<Longrightarrow> \<not> blank (last s) \<Longrightarrow> skip s \<noteq> []"
  by (auto simp: skip_def)

lemma readDoc_brace: "readDoc n (CHR ''{'' # s) = Some (v, r) \<Longrightarrow> \<not> isNum v"
  by (cases n) (auto simp: skip_id blank_def split: option.splits if_splits)

theorem Parse_strict_prefix:
  assumes "Parse (CHR ''{'' # s) = Some v" and "\<not> blank (last (CHR ''{'' # s))"
    and "strict_prefix p (CHR ''{'' # s)"
  shows "Parse p = None"
proof (rule ccontr)
  assume "Parse p \<noteq> None"
  then obtain w n r where w: "readDoc n p = Some (w, r)" "skip r = []" by (auto simp: Parse_iff)
  have "p \<noteq> []" using w(1) by (cases n) (auto simp: skip_def)
  obtain t where t: "CHR ''{'' # s = p @ t" "t \<noteq> []" using assms(3) by (auto elim: strict_prefixE')
  then obtain q where q: "p = CHR ''{'' # q" using \<open>p \<noteq> []\<close> by (cases p) auto
  have full: "readDoc n (CHR ''{'' # s) = Some (w, r @ t)"
    using readDoc_append [OF w(1), of t] readDoc_brace w(1) q t(1) by auto
  obtain m r' where m: "readDoc m (CHR ''{'' # s) = Some (v, r')" "skip r' = []"
    using assms(1) by (auto simp: Parse_iff)
  have "r' = r @ t"
    using readDoc_enough [OF full order_refl] readDoc_enough [OF m(1) order_refl] by simp
  moreover have "\<not> blank (last (r @ t))" using assms(2) t by simp
  ultimately show False using m(2) t(2) skip_last [of "r @ t"] by simp
qed

section \<open>Reading back what is written\<close>

text \<open>The strings of a document that the server writes need no escapes.\<close>

definition clean :: "string \<Rightarrow> bool" where
  "clean s \<longleftrightarrow> list_all (\<lambda>c. c \<noteq> CHR 0x22 \<and> c \<noteq> CHR 0x5C \<and> 32 \<le> (of_char c :: nat)) s"

fun clean_json :: "json \<Rightarrow> bool" where
  "clean_json JNull = True"
| "clean_json (JNum n) = True"
| "clean_json (JStr s) = clean s"
| "clean_json (JArr xs) = list_all clean_json xs"
| "clean_json (JObj fs) = list_all (\<lambda>(k, v). clean k \<and> clean_json v) fs"

text \<open>What a client reads of a document.\<close>

fun docOf :: "json \<Rightarrow> doc" where
  "docOf JNull = DNull"
| "docOf (JNum n) = DNum (AppendUint n)"
| "docOf (JStr s) = DStr s"
| "docOf (JArr xs) = DArr (map docOf xs)"
| "docOf (JObj fs) = DObj (map (\<lambda>(k, v). (k, docOf v)) fs)"

definition reads :: "string \<Rightarrow> doc \<Rightarrow> string \<Rightarrow> bool" where
  "reads s v r \<longleftrightarrow> (\<exists>n. readDoc n s = Some (v, r))"

definition readsItems :: "string \<Rightarrow> doc list \<Rightarrow> string \<Rightarrow> bool" where
  "readsItems s vs r \<longleftrightarrow> (\<exists>n. readItems n s = Some (vs, r))"

definition readsFields :: "string \<Rightarrow> (string \<times> doc) list \<Rightarrow> string \<Rightarrow> bool" where
  "readsFields s fs r \<longleftrightarrow> (\<exists>n. readFields n s = Some (fs, r))"

lemma Parse_reads: "reads s v r \<Longrightarrow> skip r = [] \<Longrightarrow> Parse s = Some v"
  by (auto simp: reads_def Parse_iff)

text \<open>The readers, as rules without fuel.\<close>

lemma reads_start: "reads s v r \<Longrightarrow> skip s \<noteq> [] \<and> hd (skip s) \<noteq> CHR '']'' \<and> hd (skip s) \<noteq> CHR ''}''"
proof -
  assume "reads s v r"
  then obtain n where n: "readDoc n s = Some (v, r)" by (auto simp: reads_def)
  then obtain m c q where q: "n = Suc m" "skip s = c # q" by (cases n) (auto split: list.splits)
  have "readLiteral (CHR '']'' # q) = None" "readLiteral (CHR ''}'' # q) = None"
    using readNumber_start [of "CHR '']'' # q"] readNumber_start [of "CHR ''}'' # q"]
    by (simp_all add: readLiteral_def readWord_None isDigit_def) (metis not_None_eq prod.exhaust)+
  then show ?thesis using n q by auto
qed

lemma fuel2:
  assumes "readDoc n s = Some x" and "readItems m t = Some y \<or> readFields m t = Some z"
  obtains k where "readDoc k s = Some x"
    and "readItems m t = Some y \<Longrightarrow> readItems k t = Some y"
    and "readFields m t = Some z \<Longrightarrow> readFields k t = Some z"
proof
  let ?k = "2 * length s + 1 + (2 * length t + 2)"
  show "readDoc ?k s = Some x" by (rule readDoc_enough [OF assms(1)]) simp
  show "readItems m t = Some y \<Longrightarrow> readItems ?k t = Some y"
    "readFields m t = Some z \<Longrightarrow> readFields ?k t = Some z"
    using readers_enough [of m] by (meson le_add2)+
qed

lemma reads_arr:
  "readsItems s vs r \<Longrightarrow> skip s \<noteq> [] \<Longrightarrow> hd (skip s) \<noteq> CHR '']'' \<Longrightarrow> reads (CHR ''['' # s) (DArr vs) r"
  unfolding reads_def readsItems_def
  by (elim exE, rule_tac x = "Suc n" in exI) (simp add: skip_id blank_def)

lemma reads_obj:
  "readsFields s fs r \<Longrightarrow> skip s \<noteq> [] \<Longrightarrow> hd (skip s) \<noteq> CHR ''}'' \<Longrightarrow> reads (CHR ''{'' # s) (DObj fs) r"
  unfolding reads_def readsFields_def
  by (elim exE, rule_tac x = "Suc n" in exI) (simp add: skip_id blank_def)

lemma items_one: "reads s v r \<Longrightarrow> skip r = CHR '']'' # q \<Longrightarrow> readsItems s [v] q"
  unfolding reads_def readsItems_def by (elim exE, rule_tac x = "Suc n" in exI) simp

lemma items_more:
  assumes "reads s v r" and "skip r = CHR '','' # q" and "readsItems q vs r'"
  shows "readsItems s (v # vs) r'"
proof -
  obtain n m where "readDoc n s = Some (v, r)" "readItems m q = Some (vs, r')"
    using assms(1,3) by (auto simp: reads_def readsItems_def)
  then obtain k where "readDoc k s = Some (v, r)" "readItems k q = Some (vs, r')"
    using fuel2 [of n s "(v, r)" m q "(vs, r')" "([], [])"] by blast
  then have "readItems (Suc k) s = Some (v # vs, r')" using assms(2) by simp
  then show ?thesis unfolding readsItems_def ..
qed

lemma readString_clean: "clean s \<Longrightarrow> readString (s @ CHR 0x22 # r) = Some (s, r)"
  by (induction s) (auto simp: clean_def readString.simps(2))

lemma fields_head:
  assumes "clean k" and "reads s v r" and "skip r = c # q" and "c = CHR ''}'' \<and> fs = [] \<and> r' = q \<or>
    c = CHR '','' \<and> readsFields q fs r'"
  shows "readsFields (quote k @ CHR '':'' # s) ((k, v) # fs) r'"
proof -
  obtain n where n: "readDoc n s = Some (v, r)" using assms(2) by (auto simp: reads_def)
  have start: "skip (quote k @ t) = CHR 0x22 # (k @ CHR 0x22 # t)" for t
    by (simp add: quote_def skip_id blank_def)
  have colon: "skip (CHR '':'' # s) = CHR '':'' # s" by (simp add: skip_id blank_def)
  show ?thesis
  proof (cases "c = CHR ''}''")
    case True
    then have "readFields (Suc n) (quote k @ CHR '':'' # s) = Some ((k, v) # fs, r')"
      using assms(3,4) n readString_clean [OF assms(1)] start colon by simp
    then show ?thesis unfolding readsFields_def ..
  next
    case False
    then obtain m where m: "readFields m q = Some (fs, r')" "c = CHR '',''"
      using assms(4) by (auto simp: readsFields_def)
    then obtain j where "readDoc j s = Some (v, r)" "readFields j q = Some (fs, r')"
      using fuel2 [of n s "(v, r)" m q "([], [])" "(fs, r')"] n by blast
    then have "readFields (Suc j) (quote k @ CHR '':'' # s) = Some ((k, v) # fs, r')"
      using assms(3) m readString_clean [OF assms(1)] start colon by simp
    then show ?thesis unfolding readsFields_def ..
  qed
qed

text \<open>An element of an array or a field, with what follows it.\<close>

definition closes :: "char \<Rightarrow> bool" where
  "closes c \<longleftrightarrow> c = CHR '','' \<or> c = CHR '']'' \<or> c = CHR ''}''"

definition element :: "string \<Rightarrow> doc \<Rightarrow> bool" where
  "element t v \<longleftrightarrow> (\<forall>c q. closes c \<longrightarrow> (\<exists>r. reads (t @ c # q) v r \<and> skip r = c # q))"

lemma closes_simps [simp]: "closes (CHR '','')" "closes (CHR '']'')" "closes (CHR ''}'')"
  by (simp_all add: closes_def)

lemma closes_char:
  "closes c \<Longrightarrow> \<not> isDigit c \<and> c \<noteq> CHR ''.'' \<and> c \<noteq> CHR ''e'' \<and> c \<noteq> CHR ''E'' \<and> \<not> blank c"
  by (auto simp: closes_def isDigit_def blank_def)

lemma elementI:
  assumes "\<And>c q. closes c \<Longrightarrow> reads (t @ c # q) v (w @ c # q)" and "list_all blank w"
  shows "element t v"
  unfolding element_def
proof (intro allI impI exI conjI)
  fix c q assume c: "closes c"
  show "reads (t @ c # q) v (w @ c # q)" by (rule assms(1) [OF c])
  show "skip (w @ c # q) = c # q" using closes_char [OF c] by (simp add: skip_blanks [OF assms(2)] skip_id)
qed

lemma elementE:
  assumes "element t v" and "closes c"
  obtains r where "reads (t @ c # q) v r" "skip r = c # q"
  using assms unfolding element_def by blast

lemma items_elements:
  "list_all2 element ts vs \<Longrightarrow> ts \<noteq> [] \<Longrightarrow> readsItems (sepBy ts @ CHR '']'' # q) vs q"
proof (induction ts arbitrary: vs rule: sepBy.induct)
  case (2 x)
  then obtain v where v: "vs = [v]" "element x v" by (auto simp: list_all2_Cons1)
  obtain r where "reads (x @ CHR '']'' # q) v r" "skip r = CHR '']'' # q"
    by (rule elementE [OF v(2) closes_simps(2)])
  then show ?case using v(1) items_one by simp
next
  case (3 x y zs)
  then obtain v ws where v: "vs = v # ws" "element x v" "list_all2 element (y # zs) ws"
    by (auto simp: list_all2_Cons1)
  obtain r where "reads (x @ CHR '','' # (sepBy (y # zs) @ CHR '']'' # q)) v r"
    "skip r = CHR '','' # (sepBy (y # zs) @ CHR '']'' # q)"
    by (rule elementE [OF v(2) closes_simps(1)])
  then show ?case using v(1) items_more "3.IH" [OF v(3)] by simp
qed simp

lemma fields_elements:
  "\<forall>(k, v) \<in> set fs. clean k \<and> element (m v) (d v) \<Longrightarrow> fs \<noteq> [] \<Longrightarrow>
   readsFields (sepBy (map (\<lambda>(k, v). quote k @ CHR '':'' # m v) fs) @ CHR ''}'' # q)
     (map (\<lambda>(k, v). (k, d v)) fs) q"
proof (induction fs rule: induct_list012)
  case (2 x)
  obtain k v where x: "x = (k, v)" by (cases x)
  have e: "element (m v) (d v)" and k: "clean k" using "2.prems" x by simp_all
  obtain r where "reads (m v @ CHR ''}'' # q) (d v) r" "skip r = CHR ''}'' # q"
    by (rule elementE [OF e closes_simps(3)])
  from fields_head [OF k this] show ?case using x by simp
next
  case (3 x y zs)
  obtain k v where x: "x = (k, v)" by (cases x)
  have e: "element (m v) (d v)" and k: "clean k" using "3.prems" x by simp_all
  let ?rest = "sepBy (map (\<lambda>(k, v). quote k @ CHR '':'' # m v) (y # zs)) @ CHR ''}'' # q"
  obtain r where "reads (m v @ CHR '','' # ?rest) (d v) r" "skip r = CHR '','' # ?rest"
    by (rule elementE [OF e closes_simps(1)])
  moreover have "readsFields ?rest (map (\<lambda>(k, v). (k, d v)) (y # zs)) q" using "3.IH"(2) "3.prems" by simp
  ultimately show ?case using fields_head [OF k] x by simp
qed simp

lemma AppendUint_zero: "hd (AppendUint n) = CHR ''0'' \<Longrightarrow> n = 0"
proof (induction n rule: AppendUint.induct)
  case (1 n)
  have d: "digit n = CHR ''0'' \<Longrightarrow> n < 10 \<Longrightarrow> n = 0"
    using digit_ok [of n] by (auto simp: dest: arg_cong [of _ _ "of_char :: char \<Rightarrow> nat"])
  show ?case
  proof (cases "n < 10")
    case True
    then show ?thesis using 1(2) d by (simp add: AppendUint.simps [of n])
  next
    case False
    then have "hd (AppendUint (n div 10)) = CHR ''0''"
      using 1(2) AppendUint_digits [of "n div 10"] by (simp add: AppendUint.simps [of n])
    then show ?thesis using 1(1) False by simp
  qed
qed

lemma readNumber_AppendUint:
  assumes "\<not> isDigit c" and "c \<noteq> CHR ''.''" and "c \<noteq> CHR ''e''" and "c \<noteq> CHR ''E''"
  shows "readNumber (AppendUint n @ c # q) = Some (DNum (AppendUint n), c # q)"
proof -
  let ?d = "AppendUint n"
  have d: "\<forall>x \<in> set ?d. isDigit x" "?d \<noteq> []" using AppendUint_digits [of n] by (simp_all add: list_all_iff)
  have "hd ?d = CHR ''0'' \<Longrightarrow> length ?d = 1"
    using AppendUint_zero [of n] by (auto simp: AppendUint.simps [of 0])
  then have i: "readInt (?d @ c # q) = Some (?d, c # q)"
    using d assms(1) by (auto simp: readInt_def Let_def takeWhile_append2 dropWhile_append2)
  have "hd (?d @ c # q) \<noteq> CHR ''-''" using d by (cases ?d) (auto simp: isDigit_def)
  then have "readSigned (?d @ c # q) = Some (?d, c # q)" using i d(2) by (simp add: readSigned_def)
  then show ?thesis using assms by (simp add: readNumber_def readFrac_def readExp_def)
qed

text \<open>What \<open>Marshal\<close> writes, also with the line feed of the encoder, is an element.\<close>

definition follows :: "char \<Rightarrow> bool" where
  "follows c \<longleftrightarrow> closes c \<or> c = CHR 0x0A"

lemma Marshal_start:
  "\<exists>c s. Marshal j = c # s \<and> \<not> blank c \<and> c \<noteq> CHR '']'' \<and> c \<noteq> CHR ''}''"
proof (cases j)
  case (JNum n)
  obtain x xs where "AppendUint n = x # xs" "isDigit x"
    using AppendUint_digits [of n] by (cases "AppendUint n") simp_all
  then show ?thesis using JNum by (auto simp: isDigit_def blank_def)
qed (simp_all add: quote_def blank_def)

lemma sepBy_start: "\<exists>t. sepBy (x # xs) = x @ t"
  by (cases xs) simp_all

text \<open>The first element of an array is not taken for its end.\<close>

lemma items_start:
  assumes "x = Marshal j @ w"
  shows "skip (sepBy (x # xs) @ u) \<noteq> [] \<and> hd (skip (sepBy (x # xs) @ u)) \<noteq> CHR '']''"
proof -
  obtain c t where "Marshal j = c # t" "\<not> blank c" "c \<noteq> CHR '']''" using Marshal_start by metis
  moreover obtain t' where "sepBy (x # xs) = x @ t'" using sepBy_start by metis
  ultimately show ?thesis by (simp add: skip_id assms)
qed

lemma reads_word:
  assumes "readDoc 1 s = Some (v, r)"
  shows "reads s v r"
  unfolding reads_def using assms ..

lemma reads_array:
  assumes "list_all2 element ts vs" and "ts = [] \<or> (\<exists>j w. hd ts = Marshal j @ w)"
  shows "reads (CHR ''['' # sepBy ts @ CHR '']'' # q) (DArr vs) q"
proof (cases ts)
  case Nil
  then show ?thesis using assms(1) by (intro reads_word) (simp add: skip_id blank_def)
next
  case (Cons x xs)
  then obtain j w where "x = Marshal j @ w" using assms(2) by auto
  from items_start [OF this, of xs "CHR '']'' # q"] show ?thesis
    using reads_arr [OF items_elements [OF assms(1)]] Cons by simp
qed

lemma reads_object:
  assumes "\<forall>(k, v) \<in> set fs. clean k \<and> element (m v) (d v)"
  shows "reads (CHR ''{'' # sepBy (map (\<lambda>(k, v). quote k @ CHR '':'' # m v) fs) @ CHR ''}'' # q)
    (DObj (map (\<lambda>(k, v). (k, d v)) fs)) q"
proof (cases fs)
  case Nil
  then show ?thesis by (intro reads_word) (simp add: skip_id blank_def)
next
  case (Cons x xs)
  obtain k v where x: "x = (k, v)" by (cases x)
  obtain t where "sepBy (map (\<lambda>(k, v). quote k @ CHR '':'' # m v) fs) = quote k @ t"
    using sepBy_start [of "quote k @ CHR '':'' # m v"] Cons x by auto
  then have "skip (sepBy (map (\<lambda>(k, v). quote k @ CHR '':'' # m v) fs) @ u) =
      CHR 0x22 # k @ CHR 0x22 # t @ u" for u
    by (simp add: quote_def skip_id blank_def)
  then show ?thesis using reads_obj [OF fields_elements [OF assms]] Cons by simp
qed

lemma reads_Marshal: "clean_json j \<Longrightarrow> follows c \<Longrightarrow> reads (Marshal j @ c # q) (docOf j) (c # q)"
proof (induction j arbitrary: c q rule: Marshal.induct)
  case 1
  show ?case
    by (rule reads_word) (simp add: skip_id blank_def readLiteral_def readWord_def)
next
  case (2 n)
  have c: "\<not> isDigit c" "c \<noteq> CHR ''.''" "c \<noteq> CHR ''e''" "c \<noteq> CHR ''E''"
    using 2(2) closes_char [of c] by (auto simp: follows_def isDigit_def)
  obtain x xs where x: "AppendUint n = x # xs" "isDigit x"
    using AppendUint_digits [of n] by (cases "AppendUint n") simp_all
  have "\<not> blank x \<and> x \<noteq> CHR ''{'' \<and> x \<noteq> CHR ''['' \<and> x \<noteq> CHR 0x22 \<and> x \<noteq> CHR ''n'' \<and> x \<noteq> CHR ''t'' \<and> x \<noteq> CHR ''f''"
    using x(2) by (auto simp: isDigit_def blank_def)
  then show ?case
    using readNumber_AppendUint [OF c, of n q] x(1)
    by (intro reads_word) (simp add: skip_id readLiteral_def readWord_None)
next
  case (3 s)
  show ?case
    by (rule reads_word) (use readString_clean [of s "c # q"] 3(1) in \<open>simp add: quote_def skip_id blank_def\<close>)
next
  case (4 xs)
  have "element (Marshal x) (docOf x)" if "x \<in> set xs" for x
    by (rule elementI [of _ _ "[]"]) (use that 4 in \<open>auto simp: list_all_iff follows_def\<close>)
  then have "list_all2 element (map Marshal xs) (map docOf xs)"
    by (simp add: list_all2_map1 list_all2_map2 list_all2_same)
  moreover have "map Marshal xs = [] \<or> (\<exists>j w. hd (map Marshal xs) = Marshal j @ w)"
    by (cases xs) (auto intro: exI [of _ "[]"])
  ultimately show ?case using reads_array by simp
next
  case (5 fs)
  have "clean k \<and> element (Marshal v) (docOf v)" if "(k, v) \<in> set fs" for k v
  proof
    show "clean k" using that 5(2) by (auto simp: list_all_iff)
    show "element (Marshal v) (docOf v)"
      by (rule elementI [of _ _ "[]"]) (use that 5 in \<open>auto simp: list_all_iff follows_def\<close>)
  qed
  then show ?case using reads_object [of fs Marshal docOf "c # q"] by auto
qed

lemma element_Marshal: "clean_json j \<Longrightarrow> list_all blank w \<Longrightarrow> w = [] \<or> w = [CHR 0x0A] \<Longrightarrow> element (Marshal j @ w) (docOf j)"
  by (rule elementI [of _ _ w]) (use reads_Marshal in \<open>auto simp: follows_def\<close>)

text \<open>An object reads back, and no part of it does.\<close>

lemma object_exact:
  assumes "reads (CHR ''{'' # s @ ''}'') v []"
  shows "Parse (CHR ''{'' # s @ ''}'') = Some v"
    and "strict_prefix p (CHR ''{'' # s @ ''}'') \<Longrightarrow> Parse p = None"
proof -
  show p: "Parse (CHR ''{'' # s @ ''}'') = Some v" by (rule Parse_reads [OF assms]) (simp add: skip_def)
  show "Parse p = None" if "strict_prefix p (CHR ''{'' # s @ ''}'')"
    by (rule Parse_strict_prefix [OF p _ that]) (simp add: blank_def)
qed

text \<open>A document that the server writes reads back as it is, and no part of it is a document.\<close>

theorem Marshal_reads_back:
  assumes "clean_json (JObj fs)"
  shows "Parse (Marshal (JObj fs)) = Some (docOf (JObj fs)) \<and>
    (\<forall>p. strict_prefix p (Marshal (JObj fs)) \<longrightarrow> Parse p = None)"
proof -
  have "\<forall>(k, v) \<in> set fs. clean k \<and> element (Marshal v) (docOf v)"
    using assms element_Marshal [of _ "[]"] by (auto simp: list_all_iff)
  from reads_object [OF this, of "[]"]
  have "reads (CHR ''{'' # sepBy (map (\<lambda>(k, v). quote k @ CHR '':'' # Marshal v) fs) @ ''}'') (docOf (JObj fs)) []"
    by simp
  from object_exact [OF this] show ?thesis by simp
qed

theorem Marshal_reads_back_witness:
  "Parse (Marshal (JObj [(''a'', JNum 12)])) = Some (DObj [(''a'', DNum (AppendUint 12))]) \<and> Parse ''{'' = None"
  using Marshal_reads_back [of "[(''a'', JNum 12)]"] by (simp add: clean_def strict_prefix_def)

end
