(* ===== verification/Client.thy ===== *)
theory Client
  imports Server_Spec Json_Reader
begin

text \<open>
  The HTTP server as its clients see it: what a client with a JSON parser (Json_Reader) reads of a
  response, of a streamed range of blocks, and of a response of which a part is missing.
\<close>

section \<open>Responses as documents\<close>

definition tweaksDoc :: "TweakIndexResponse \<Rightarrow> json" where
  "tweaksDoc r = response_json (tir_BlockIdentifier r) (refHexArray (tir_Index r))"

definition spentDoc :: "SpentIndexResponse \<Rightarrow> json" where
  "spentDoc r = response_json (sir_BlockIdentifier r) (refHexArray (sir_Index r))"

definition computeDoc :: "ComputeIndexResponse \<Rightarrow> json" where
  "computeDoc r = response_json (cir_BlockIdentifier r) (array_json refComputeIndexItem (cir_Index r))"

definition utxosDoc :: "UtxoResponse \<Rightarrow> json" where
  "utxosDoc r = response_json (utr_BlockIdentifier r) (array_json refUTXOItem (utr_Index r))"

definition fullDoc :: "FullBlockResponse \<Rightarrow> json" where
  "fullDoc r = response_json (fbr_BlockIdentifier r) (array_json refFullTxItem (fbr_Index r))"

lemma texts_are_docs:
  "TweakIndexResponse_text = (\<lambda>r. Marshal (tweaksDoc r))"
  "SpentIndexResponse_text = (\<lambda>r. Marshal (spentDoc r))"
  "ComputeIndexResponse_text = (\<lambda>r. Marshal (computeDoc r))"
  "UtxoResponse_text = (\<lambda>r. Marshal (utxosDoc r))"
  "FullBlockResponse_text = (\<lambda>r. Marshal (fullDoc r))"
  by (simp_all only: fun_eq_iff TweakIndexResponse_text_def SpentIndexResponse_text_def
      ComputeIndexResponse_text_def UtxoResponse_text_def FullBlockResponse_text_def tweaksDoc_def
      spentDoc_def computeDoc_def utxosDoc_def fullDoc_def TweakSlice_MarshalJSON_def
      SpentIndex_MarshalJSON_def appendHexArray_eq response_eq append_Nil
      array_eq [of _ refComputeIndexItem, OF ComputeIndexItem_eq]
      array_eq [of _ refUTXOItem, OF UTXOItem_eq] array_eq [of _ refFullTxItem, OF FullTxItem_eq] simp_thms)

lemma clean_hex [simp]: "clean (EncodeToString bs)"
proof -
  have "hexDigit n \<noteq> CHR 0x22 \<and> hexDigit n \<noteq> CHR 0x5C \<and> 32 \<le> (of_char (hexDigit n) :: nat)" if "n < 16" for n
    using fromHexChar_hexDigit [OF that] by (auto simp: fromHexChar_def Let_def split: if_splits)
  moreover have "unat b div 16 < 16" for b :: byte using unat_byte_lt [of b] by simp
  ultimately show ?thesis by (induction bs) (simp_all add: clean_def)
qed

lemma clean_words [simp]:
  "clean ''txid''" "clean ''tweak''" "clean ''outputs''" "clean ''vout''" "clean ''amount''" "clean ''pubkey''"
  "clean ''inputs''" "clean ''utxos''" "clean ''index''" "clean ''blocks''" "clean ''block_identifier''"
  "clean ''block_hash''" "clean ''block_height''"
  by (simp_all add: clean_def)

lemma clean_items [simp]:
  "clean_json (refHexArray xs)" "clean_json (refComputeIndexItem c)" "clean_json (refUTXOItem u)"
  "clean_json (refUTXOItemLight ul)"
  by (simp_all add: refHexArray_def refComputeIndexItem_def refUTXOItem_def refUTXOItemLight_def list_all_iff)

lemma clean_full [simp]: "clean_json (refFullTxItem f)"
  by (simp add: refFullTxItem_def list_all_iff split: option.split)

lemma clean_array: "(\<And>x. clean_json (j x)) \<Longrightarrow> clean_json (array_json j xs)"
  by (simp add: array_json_def list_all_iff split: option.split)

lemma clean_response: "clean_json j \<Longrightarrow> clean_json (response_json b j)"
  by (simp add: response_json_def BlockIdentifier_json_def)

lemma clean_docs [simp]:
  "clean_json (tweaksDoc r1)" "clean_json (spentDoc r2)" "clean_json (computeDoc r3)"
  "clean_json (utxosDoc r4)" "clean_json (fullDoc r5)"
  by (simp_all add: tweaksDoc_def spentDoc_def computeDoc_def utxosDoc_def fullDoc_def clean_response clean_array)

text \<open>The text of every response of one block is a document: a JSON parser reads its fields, and
  rejects every part of it, as a client has when the connection breaks.\<close>

theorem response_reads_back:
  "j \<in> {tweaksDoc r1, spentDoc r2, computeDoc r3, utxosDoc r4, fullDoc r5} \<Longrightarrow>
   Parse (Marshal j) = Some (docOf j) \<and> (\<forall>p. strict_prefix p (Marshal j) \<longrightarrow> Parse p = None)"
proof -
  assume j: "j \<in> {tweaksDoc r1, spentDoc r2, computeDoc r3, utxosDoc r4, fullDoc r5}"
  then obtain fs where fs: "j = JObj fs"
    by (auto simp: tweaksDoc_def spentDoc_def computeDoc_def utxosDoc_def fullDoc_def response_json_def)
  have "clean_json (JObj fs)" using j unfolding fs [symmetric] by auto
  from Marshal_reads_back [OF this] show ?thesis unfolding fs .
qed

section \<open>A range of blocks\<close>

text \<open>The entries of a height, without their text: none when the height is not indexed.\<close>

definition entriesAt :: "db_api \<Rightarrow> (u32 \<Rightarrow> bytes \<Rightarrow> 'a res) \<Rightarrow> nat \<Rightarrow> 'a list res" where
  "entriesAt D f n =
     bindR (db_GetBlockHashByHeight D (of_nat n)) (\<lambda>h.
       case h of None \<Rightarrow> Inr [] | Some blockhash \<Rightarrow> bindR (f (of_nat n) blockhash) (\<lambda>x. Inr [x]))"

text \<open>What a client is to read of a range: the document of all its blocks, or nothing at all.\<close>

definition blocksDoc :: "json list \<Rightarrow> doc" where
  "blocksDoc js = docOf (JObj [(''blocks'', JArr js)])"

definition clientView :: "db_api \<Rightarrow> (u32 \<Rightarrow> bytes \<Rightarrow> 'a res) \<Rightarrow> ('a \<Rightarrow> json) \<Rightarrow> u32 \<Rightarrow> u32 \<Rightarrow> doc option" where
  "clientView D f js s e =
     (case mapR (entriesAt D f) [unat s..<Suc (unat e)] of
        Inl _ \<Rightarrow> None
      | Inr xss \<Rightarrow> Some (blocksDoc (map js (concat xss))))"

definition entryText :: "json \<Rightarrow> string" where
  "entryText j = Marshal j @ [CHR 0x0A]"

lemma stream_text_exact:
  assumes "list_all clean_json js"
  shows "Parse (blocksOpen @ sepBy (map entryText js) @ '']}'') = Some (blocksDoc js)"
    and "strict_prefix p (blocksOpen @ sepBy (map entryText js) @ '']}'') \<Longrightarrow> Parse p = None"
proof -
  let ?arr = "CHR ''['' # sepBy (map entryText js) @ [CHR '']'']"
  let ?s = "quote ''blocks'' @ CHR '':'' # ?arr"
  have "element (entryText j) (docOf j)" if "j \<in> set js" for j
    unfolding entryText_def using that assms by (intro element_Marshal) (auto simp: list_all_iff blank_def)
  then have els: "list_all2 element (map entryText js) (map docOf js)"
    by (simp add: list_all2_map1 list_all2_map2 list_all2_same)
  have hd: "map entryText js = [] \<or> (\<exists>j w. hd (map entryText js) = Marshal j @ w)"
    by (cases js) (auto simp: entryText_def)
  have "element ?arr (DArr (map docOf js))"
    by (rule elementI [of _ _ "[]"]) (use reads_array [OF els hd] in simp_all)
  then have "\<forall>(k, v) \<in> set [(''blocks'', ())]. clean k \<and> element ?arr (DArr (map docOf js))" by simp
  from reads_object [OF this, of "[]"]
  have r: "reads (CHR ''{'' # ?s @ ''}'') (blocksDoc js) []" by (simp add: blocksDoc_def)
  have eq: "blocksOpen @ sepBy (map entryText js) @ '']}'' = CHR ''{'' # ?s @ ''}''"
    by (simp add: blocksOpen_def jkey_def)
  show "Parse (blocksOpen @ sepBy (map entryText js) @ '']}'') = Some (blocksDoc js)"
    unfolding eq by (rule object_exact(1) [OF r])
  show "strict_prefix p (blocksOpen @ sepBy (map entryText js) @ '']}'') \<Longrightarrow> Parse p = None"
    unfolding eq by (rule object_exact(2) [OF r])
qed

lemma entryAt_entries:
  "entryAt D (\<lambda>n h. textR (\<lambda>r. Marshal (js r)) (f n h)) n =
     bindR (entriesAt D f n) (\<lambda>xs. Inr (case xs of [] \<Rightarrow> None | x # _ \<Rightarrow> Some (entryText (js x))))"
proof (cases "db_GetBlockHashByHeight D (of_nat n)")
  case (Inr h)
  show ?thesis
  proof (cases h)
    case (Some b)
    show ?thesis
      by (cases "f (of_nat n) b") (simp_all add: entryAt_def entriesAt_def textR_def entryText_def Inr Some)
  qed (simp add: entryAt_def entriesAt_def Inr)
qed (simp add: entryAt_def entriesAt_def)

lemma entriesAt_single: "entriesAt D f n = Inr xs \<Longrightarrow> xs = [] \<or> (\<exists>x. xs = [x])"
  by (auto simp: entriesAt_def split: option.splits)

lemma streamed_entries:
  assumes "\<forall>n \<in> set ns. entriesAt D f n = Inr (g n)"
  shows "List.map_filter (\<lambda>n. case entryAt D (\<lambda>n h. textR (\<lambda>r. Marshal (js r)) (f n h)) n of
      Inr (Some t) \<Rightarrow> Some t | _ \<Rightarrow> None) ns = map (\<lambda>x. entryText (js x)) (concat (map g ns))"
  using assms
proof (induction ns)
  case (Cons n ns)
  have "g n = [] \<or> (\<exists>x. g n = [x])" using Cons.prems entriesAt_single [of D f n "g n"] by simp
  then show ?case using Cons by (auto simp: map_filter_simps entryAt_entries)
qed (simp add: map_filter_simps)

text \<open>A stream with the texts of typed entries: the client reads all of them or nothing, and it
  rejects every part of the stream.\<close>

lemma stream_client:
  fixes f :: "u32 \<Rightarrow> bytes \<Rightarrow> 'a res" and D :: db_api and s e :: u32
  assumes js: "\<And>x. clean_json (js x)"
  defines "text \<equiv> streamBlocks D s e (\<lambda>n h. textR (\<lambda>r. Marshal (js r)) (f n h))"
  shows "Parse text = clientView D f js s e \<and> (\<forall>p. strict_prefix p text \<longrightarrow> Parse p = None)"
proof -
  let ?enc = "\<lambda>n h. textR (\<lambda>r. Marshal (js r)) (f n h)"
  have clean: "list_all clean_json (map js xs)" for xs using js by (simp add: list_all_iff)
  show ?thesis
  proof (cases "\<forall>n. unat s \<le> n \<and> n \<le> unat e \<longrightarrow> (\<exists>t. entryAt D ?enc n = Inr t)")
    case True
    have "\<exists>xs. entriesAt D f n = Inr xs" if "n \<in> set [unat s..<Suc (unat e)]" for n
    proof -
      have "\<exists>t. entryAt D ?enc n = Inr t" using True that by auto
      then show ?thesis unfolding entryAt_entries by (cases "entriesAt D f n") auto
    qed
    then obtain g where g: "\<forall>n \<in> set [unat s..<Suc (unat e)]. entriesAt D f n = Inr (g n)" by metis
    then have m: "mapR (entriesAt D f) [unat s..<Suc (unat e)] = Inr (map g [unat s..<Suc (unat e)])"
      by (intro mapR_Inr) blast
    let ?xs = "concat (map g [unat s..<Suc (unat e)])"
    have "streamed D ?enc (unat s) (unat e) = map entryText (map js ?xs)"
      unfolding streamed_def using streamed_entries [OF g, of js] by (simp add: comp_def)
    then have "text = blocksOpen @ sepBy (map entryText (map js ?xs)) @ '']}''"
      using streamFrom_complete [OF True, of "[]" blocksOpen] by (simp add: text_def streamBlocks_def)
    then show ?thesis using stream_text_exact [OF clean [of ?xs]] m by (simp add: clientView_def)
  next
    case False
    then obtain n err where n: "unat s \<le> n" "n \<le> unat e" "entryAt D ?enc n = Inl err"
      "\<forall>m. unat s \<le> m \<and> m < n \<longrightarrow> (\<exists>t. entryAt D ?enc m = Inr t)" by (rule first_failure)
    obtain zs where zs: "text = blocksOpen @ sepBy zs"
      "\<forall>z \<in> set zs. \<exists>m. unat s \<le> m \<and> m < n \<and> entryAt D ?enc m = Inr (Some z)"
      unfolding text_def streamBlocks_def using streamFrom_cut [OF n, of "[]" blocksOpen, simplified] by blast
    have "\<exists>x. z = entryText (js x)" if "entryAt D ?enc m = Inr (Some z)" for z m
      using that unfolding entryAt_entries by (cases "entriesAt D f m") (auto split: list.splits)
    then have "\<forall>z \<in> set zs. \<exists>x. z = entryText (js x)" using zs(2) by blast
    then obtain g where g: "\<forall>z \<in> set zs. z = entryText (js (g z))" by metis
    define xs where "xs = map g zs"
    have xs: "zs = map entryText (map js xs)"
      using g by (intro nth_equalityI) (simp_all add: xs_def)
    have "strict_prefix text (blocksOpen @ sepBy zs @ '']}'')"
      unfolding zs(1) by (auto simp: strict_prefix_def prefix_def)
    then have none: "Parse p = None" if "prefix p text" for p
      using stream_text_exact(2) [OF clean [of xs], of p] that xs by (metis prefix_order.le_less_trans)
    have "entriesAt D f n = Inl err" using n(3) unfolding entryAt_entries by (cases "entriesAt D f n") auto
    then have "\<nexists>ys. mapR (entriesAt D f) [unat s..<Suc (unat e)] = Inr ys"
      using mapR_all [of "entriesAt D f" _ _ n] n(1,2) by fastforce
    then have "clientView D f js s e = None"
      by (auto simp: clientView_def simp del: upt_Suc split: sum.split)
    then show ?thesis using none by (auto simp: strict_prefix_def)
  qed
qed

section \<open>What clients read\<close>

definition clientReads :: "range_reply \<Rightarrow> doc option \<Rightarrow> bool" where
  "clientReads reply view \<longleftrightarrow>
     (\<exists>text. reply = Streamed text \<and> Parse text = view \<and> (\<forall>p. strict_prefix p text \<longrightarrow> Parse p = None))"

text \<open>C24. A client with a JSON parser never takes a part of a range for the range.  For a request that is
  accepted, what it reads of the stream of each of the four range endpoints is the document of all
  indexed blocks of the range, in order, each with the response of its height; and nothing at all
  when a block could not be read on the way or when any part of the stream is missing.\<close>

theorem client_reads_range_or_nothing:
  assumes "rangeParams m a b = Inr (s, e)" and "db_GetChainTip D = Inr (x, tip)"
  shows "clientReads (GetTweaksRange RC m D a b) (clientView D (tweaksEntry RC D) tweaksDoc s e) \<and>
    clientReads (GetSpentOutputsRange RC m D a b) (clientView D (spentEntry RC D) spentDoc s e) \<and>
    clientReads (GetComputeIndexRange RC m D a b) (clientView D (computeEntry RC D) computeDoc s e) \<and>
    (\<exists>reply. GetUtxosRange RC m D a b = Inr reply \<and>
       clientReads reply (clientView D (utxosEntry RC D tip) utxosDoc s e))"
  using stream_client [of tweaksDoc D s e "tweaksEntry RC D"] stream_client [of spentDoc D s e "spentEntry RC D"]
    stream_client [of computeDoc D s e "computeEntry RC D"] stream_client [of utxosDoc D s e "utxosEntry RC D tip"]
  by (simp add: clientReads_def GetTweaksRange_def GetSpentOutputsRange_def GetComputeIndexRange_def
      GetUtxosRange_def rangeReply_def assms texts_are_docs)

theorem client_reads_range_or_nothing_witness:
  "clientReads (GetTweaksRange rev 100 x_db (AppendUint 7) (AppendUint 8))
     (Some (blocksDoc (map (\<lambda>h. tweaksDoc
        \<lparr>tir_BlockIdentifier = \<lparr>bid_BlockHash = replicate 32 1, bid_BlockHeight = h\<rparr>,
         tir_Index = [replicate 33 3]\<rparr>) [7, 8]))) \<and>
   clientReads (GetTweaksRange rev 100 x_db (AppendUint 7) (AppendUint 9)) None"
proof -
  have tip: "db_GetChainTip x_db = Inr (Some (replicate 32 1), 8)" by (simp add: x_db_def)
  have p: "rangeParams 100 (AppendUint 7) (AppendUint b) = Inr (7, of_nat b)" if "b \<in> {8, 9}" for b
    using that rangeParams_accepts [of 100 "AppendUint 7" "AppendUint b" 7 "of_nat b"] by (auto simp: Parse_Append)
  have at: "entriesAt x_db (tweaksEntry rev x_db) n =
      Inr [\<lparr>tir_BlockIdentifier = \<lparr>bid_BlockHash = replicate 32 1, bid_BlockHeight = of_nat n\<rparr>,
            tir_Index = [replicate 33 3]\<rparr>]" if "n \<in> {7, 8}" for n
    using that by (auto simp: entriesAt_def x_db_def tweaksEntry_def blockIdentifier_def nilBytes_def)
  have fail: "entriesAt x_db (tweaksEntry rev x_db) 9 = Inl (Err ''io'')"
    by (simp add: entriesAt_def x_db_def)
  have "[7..<Suc 8] = [7, 8 :: nat]" "[7..<Suc 9] = [7, 8, 9 :: nat]" by (simp_all add: upt_rec)
  then have "clientView x_db (tweaksEntry rev x_db) tweaksDoc 7 8 =
      Some (blocksDoc (map (\<lambda>h. tweaksDoc
        \<lparr>tir_BlockIdentifier = \<lparr>bid_BlockHash = replicate 32 1, bid_BlockHeight = h\<rparr>,
         tir_Index = [replicate 33 3]\<rparr>) [7, 8]))"
    "clientView x_db (tweaksEntry rev x_db) tweaksDoc 7 9 = None"
    using at [of 7] at [of 8] fail by (simp_all add: clientView_def)
  then show ?thesis
    using client_reads_range_or_nothing [OF p [of 8] tip, of rev] client_reads_range_or_nothing [OF p [of 9] tip, of rev]
    by simp
qed

end
