(* ===== verification/Filters.thy ===== *)
theory Filters
  imports Prelude
begin

text \<open>
  The block filter (\<open>indexer/filters.go\<close>).  The filter itself is built by the package gcs of btcutil,
  which is a parameter, as is the derivation of its key; \<open>logging.L.Fatal\<close> ends the process and is a
  panic here.
\<close>

record 'f gcs_api =
  gcs_SetBytes :: "bytes \<Rightarrow> bytes res"
  gcs_DeriveKey :: "bytes \<Rightarrow> bytes"
  gcs_BuildGCSFilter :: "bytes \<Rightarrow> bytes list \<Rightarrow> 'f res"
  gcs_NBytes :: "'f \<Rightarrow> bytes res"

fun fatal :: "string \<Rightarrow> 'a res \<Rightarrow> 'a res" where
  "fatal m (Inl (Err e)) = Inl (Panic m)"
| "fatal m r = r"

definition BuildTaprootPubkeyFilter :: "'f gcs_api \<Rightarrow> bytes \<Rightarrow> bytes list \<Rightarrow> bytes res" where
  "BuildTaprootPubkeyFilter G blockhash taprootOutputs =
     bindR (fatal ''failed to set block hash'' (gcs_SetBytes G blockhash)) (\<lambda>c.
     bindR (fatal ''failed to build GCS filter'' (gcs_BuildGCSFilter G (gcs_DeriveKey G c) taprootOutputs)) (\<lambda>filter.
     fatal ''failed to get NBytes'' (gcs_NBytes G filter)))"

text \<open>No error is ever returned: the filter is built, or the process ends.\<close>


lemma fatal_not_Err [simp]: "fatal m r \<noteq> Inl (Err e)"
  by (cases "(m, r)" rule: fatal.cases) simp_all

lemma BuildTaprootPubkeyFilter_no_error: "BuildTaprootPubkeyFilter G blockhash outs \<noteq> Inl (Err e)"
  by (simp add: BuildTaprootPubkeyFilter_def bindR_split_Inl)

end
