(* ===== verification/Test_Vectors.thy ===== *)
theory Test_Vectors
  imports Hex
begin

text \<open>
  The loader of the BIP352 test vectors (\<open>testhelpers/testhelpers.go\<close>): a serialised witness is split
  into its items, and the inputs of a test case become the inputs of a transaction
  (\<open>types/types.go\<close>), and the loaders of test files over the standard library's reader and decoder.
\<close>

section \<open>Witnesses\<close>

text \<open>The loop over \<open>n\<close> items in the bytes from the index on; it ends early when the bytes end.\<close>

fun witnessLoop :: "nat \<Rightarrow> bytes \<Rightarrow> string list res" where
  "witnessLoop 0 data = Inr []"
| "witnessLoop (Suc n) [] = Inr []"
| "witnessLoop (Suc n) (l # data) =
     (if unat l > length data then Inl (Err ''invalid length for witness data item'')
      else bindR (witnessLoop n (drop (unat l) data)) (\<lambda>items.
           Inr (EncodeToString (take (unat l) data) # items)))"

definition parseWitnessScript :: "string \<Rightarrow> string list res" where
  "parseWitnessScript script =
     bindR (DecodeString script) (\<lambda>data.
     case data of
       [] \<Rightarrow> Inr []
     | itemCount # rest \<Rightarrow> bindR (witnessLoop (unat itemCount) rest) (\<lambda>witnessData.
         if length witnessData \<noteq> unat itemCount
         then Inl (Err ''actual item count does not match the expected count'')
         else Inr witnessData))"

section \<open>Test cases\<close>

record ScriptPubKeyDetail =
  spd_Hex :: string
  spd_Type :: string

record PrevoutDetail =
  pd_ScriptPubKey :: ScriptPubKeyDetail

record VinDetail =
  vd_Txid :: string
  vd_Vout :: u32
  vd_ScriptSig :: string
  vd_Txinwitness :: string
  vd_Prevout :: PrevoutDetail

text \<open>A test case.  The fields that the code leaves untyped (\<open>interface{}\<close>) have the type \<open>'j\<close> of decoded
  JSON values.\<close>

record 'j TestCaseGiven =
  tcg_Vin :: "VinDetail list"
  tcg_Recipients :: "'j list list"
  tcg_Outputs :: "string list"
  tcg_KeyMaterial :: 'j

record 'j TestCaseExpected =
  tce_Outputs :: 'j
  tce_Addresses :: "string list"
  tce_MoreData :: 'j
  tce_Tweak :: string

record 'j TestCaseDetail =
  tcd_Given :: "'j TestCaseGiven"
  tcd_Expected :: "'j TestCaseExpected"

record 'j TestCase =
  tc_Comment :: string
  tc_Sending :: "'j TestCaseDetail list"
  tc_Receiving :: "'j TestCaseDetail list"

text \<open>The transaction as the node's RPC describes it.  The amounts are floating-point numbers that the
  loader leaves zero, and are left out.\<close>

record ScriptSig =
  sig_ASM :: string
  sig_Hex :: string

record ScriptPubKey =
  spk_Asm :: string
  spk_Desc :: string
  spk_Hex :: string
  spk_Address :: string
  spk_Type :: string

record Prevout =
  po_Generated :: bool
  po_Height :: u32
  po_ScriptPubKey :: ScriptPubKey

record RpcVin =
  rv_Txid :: string
  rv_Vout :: u32
  rv_ScriptSig :: ScriptSig
  rv_Txinwitness :: "string list"
  rv_Sequence :: u32
  rv_Prevout :: "Prevout option"
  rv_Coinbase :: string

record RpcVout =
  ro_N :: u32
  ro_ScriptPubKey :: ScriptPubKey

record RpcTransaction =
  rt_Txid :: string
  rt_Hash :: string
  rt_Version :: int
  rt_Vin :: "RpcVin list"
  rt_Vout :: "RpcVout list"

record RpcBlock =
  rb_Hash :: string
  rb_Height :: u32
  rb_PreviousBlockHash :: string
  rb_Timestamp :: u64
  rb_Txs :: "RpcTransaction list"

record RPCResponseBlock =
  rrb_ID :: string
  rrb_Block :: RpcBlock
  rrb_Error :: string

definition prevoutOf :: "PrevoutDetail \<Rightarrow> Prevout" where
  "prevoutOf d =
     \<lparr>po_Generated = False, po_Height = 0,
      po_ScriptPubKey = \<lparr>spk_Asm = [], spk_Desc = [], spk_Hex = spd_Hex (pd_ScriptPubKey d), spk_Address = [],
                          spk_Type = spd_Type (pd_ScriptPubKey d)\<rparr>\<rparr>"

definition vinOf :: "VinDetail \<Rightarrow> RpcVin res" where
  "vinOf d = bindR (parseWitnessScript (vd_Txinwitness d)) (\<lambda>witnessScript.
     Inr \<lparr>rv_Txid = vd_Txid d, rv_Vout = vd_Vout d,
          rv_ScriptSig = \<lparr>sig_ASM = [], sig_Hex = vd_ScriptSig d\<rparr>,
          rv_Txinwitness = witnessScript, rv_Sequence = 0,
          rv_Prevout = Some (prevoutOf (vd_Prevout d)), rv_Coinbase = []\<rparr>)"

definition TransformTestCaseDetailToTransaction :: "'j TestCaseDetail \<Rightarrow> RpcTransaction res" where
  "TransformTestCaseDetailToTransaction detail =
     bindR (mapR vinOf (tcg_Vin (tcd_Given detail))) (\<lambda>vin.
       Inr \<lparr>rt_Txid = [], rt_Hash = [], rt_Version = 0, rt_Vin = vin, rt_Vout = []\<rparr>)"

section \<open>Files\<close>

text \<open>Reading a file (\<open>os.ReadFile\<close>) and decoding JSON into a value that is there (\<open>json.Unmarshal\<close>,
  which may have changed a part of it when it fails) are parameters.  The loaders of blocks give the
  error and the value that the pointer they are given has afterwards.\<close>

definition LoadCaseData ::
    "(string \<Rightarrow> bytes res) \<Rightarrow> (bytes \<Rightarrow> 'j TestCase list \<Rightarrow> 'j TestCase list \<times> unit res) \<Rightarrow> 'j TestCase list res" where
  "LoadCaseData ReadFile Unmarshal =
     bindR (ReadFile ''../../test_data/send_and_receive_test_vectors_with_type.json'') (\<lambda>data.
       case Unmarshal data [] of (testCases, r) \<Rightarrow> bindR r (\<lambda>_. Inr testCases))"

definition LoadBlockFromFile ::
    "(string \<Rightarrow> bytes res) \<Rightarrow> (bytes \<Rightarrow> RpcBlock \<Rightarrow> RpcBlock \<times> unit res) \<Rightarrow> string \<Rightarrow> RpcBlock \<Rightarrow> RpcBlock \<times> unit res" where
  "LoadBlockFromFile ReadFile Unmarshal filePath block =
     (case ReadFile filePath of Inl e \<Rightarrow> (block, Inl e) | Inr data \<Rightarrow> Unmarshal data block)"

definition emptyResponse :: RPCResponseBlock where
  "emptyResponse = \<lparr>rrb_ID = [],
     rrb_Block = \<lparr>rb_Hash = [], rb_Height = 0, rb_PreviousBlockHash = [], rb_Timestamp = 0, rb_Txs = []\<rparr>,
     rrb_Error = []\<rparr>"

definition LoadAndUnmarshalBlockFromFile ::
    "(string \<Rightarrow> bytes res) \<Rightarrow> (bytes \<Rightarrow> RPCResponseBlock \<Rightarrow> RPCResponseBlock \<times> unit res) \<Rightarrow> string \<Rightarrow> RpcBlock \<Rightarrow>
     RpcBlock \<times> unit res" where
  "LoadAndUnmarshalBlockFromFile ReadFile Unmarshal filePath block =
     (case ReadFile filePath of
        Inl e \<Rightarrow> (block, Inl e)
      | Inr data \<Rightarrow>
          (case Unmarshal data emptyResponse of
             (result, Inl e) \<Rightarrow> (block, Inl e)
           | (result, Inr u) \<Rightarrow> (rrb_Block result, Inr u)))"

text \<open>The loader of a node's response leaves the block alone unless it returns nil; the loader of a bare
  block may leave a part of a block that it could not decode.\<close>

lemma LoadAndUnmarshal_error_keeps:
  "LoadAndUnmarshalBlockFromFile ReadFile Unmarshal path block = (block', Inl e) \<Longrightarrow> block' = block"
  by (auto simp: LoadAndUnmarshalBlockFromFile_def split: sum.splits prod.splits)

section \<open>Reading back a witness\<close>

definition encWitness :: "bytes list \<Rightarrow> bytes" where
  "encWitness items = of_nat (length items) # concat (map (\<lambda>w. of_nat (length w) # w) items)"

lemma unat_small: "n < 256 \<Longrightarrow> unat (of_nat n :: byte) = n"
  by (simp add: unat_of_nat)

lemma witnessLoop_items:
  "list_all (\<lambda>w. length w < 256) items \<Longrightarrow>
    witnessLoop (length items) (concat (map (\<lambda>w. of_nat (length w) # w) items) @ rest) = Inr (map EncodeToString items)"
  by (induction items) (simp_all add: unat_small)

lemma witnessLoop_short:
  "list_all (\<lambda>w. length w < 256) items \<Longrightarrow>
    strict_prefix p (concat (map (\<lambda>w. of_nat (length w) # w) items)) \<Longrightarrow>
    (\<exists>e. witnessLoop (length items) p = Inl e) \<or>
    (\<exists>ws. witnessLoop (length items) p = Inr ws \<and> length ws < length items)"
proof (induction items arbitrary: p)
  case (Cons w items)
  let ?rest = "concat (map (\<lambda>w. of_nat (length w) # w) items)"
  show ?case
  proof (cases p)
    case (Cons l q)
    then have l: "l = of_nat (length w)" and q: "strict_prefix q (w @ ?rest)"
      using Cons.prems(2) by auto
    have u: "unat l = length w" using Cons.prems(1) l by (simp add: unat_small)
    show ?thesis
    proof (cases "length w \<le> length q")
      case True
      have "prefix q (w @ ?rest)" using q by (rule strict_prefixE) simp
      then have "prefix w q" using True by (rule prefix_length_prefix [OF prefixI [OF refl]])
      then obtain r where r: "q = w @ r" by (rule prefixE)
      then have "strict_prefix r ?rest" using q by (auto simp: strict_prefix_def)
      then show ?thesis using Cons.IH [of r] Cons.prems(1) True u r \<open>p = l # q\<close> by auto
    qed (use u \<open>p = l # q\<close> in simp)
  qed simp
qed simp

text \<open>A serialised witness of at most 255 items of at most 255 bytes each reads back as its items in
  hexadecimal, whatever follows it, and a serialised witness that is cut short is an error (the
  empty text is the empty witness).\<close>

theorem parseWitnessScript_roundtrip:
  assumes "length items < 256" and "list_all (\<lambda>w. length w < 256) items"
  shows "parseWitnessScript (EncodeToString (encWitness items @ rest)) = Inr (map EncodeToString items) \<and>
    (\<forall>p. strict_prefix p (encWitness items) \<and> p \<noteq> [] \<longrightarrow>
       (\<exists>e. parseWitnessScript (EncodeToString p) = Inl e))"
proof (intro conjI allI impI)
  show "parseWitnessScript (EncodeToString (encWitness items @ rest)) = Inr (map EncodeToString items)"
    using witnessLoop_items [OF assms(2), of rest] assms(1)
    by (simp add: parseWitnessScript_def encWitness_def unat_small del: EncodeToString.simps)
  fix p assume p: "strict_prefix p (encWitness items) \<and> p \<noteq> []"
  then obtain q where q: "p = of_nat (length items) # q"
    "strict_prefix q (concat (map (\<lambda>w. of_nat (length w) # w) items))"
    by (cases p) (auto simp: encWitness_def)
  then show "\<exists>e. parseWitnessScript (EncodeToString p) = Inl e"
    using witnessLoop_short [OF assms(2) q(2)] assms(1)
    by (auto simp: parseWitnessScript_def unat_small simp del: EncodeToString.simps)
qed

theorem parseWitnessScript_roundtrip_witness:
  "parseWitnessScript (EncodeToString (encWitness [[1, 2], []] @ [9])) = Inr [''0102'', '''']"
proof -
  have "EncodeToString [1, 2] = ''0102''" by code_simp
  then show ?thesis using parseWitnessScript_roundtrip [of "[[1, 2], []]" "[9]"] by (simp del: EncodeToString.simps(2))
qed

end
