(* ===== verification/Startup.thy ===== *)
theory Startup
  imports Service Explorer
begin

text \<open>
  From the command line to the commands (\<open>cmd/*/main.go\<close>, \<open>config/vars.go\<close>, \<open>dbpebble/new.go\<close>,
  \<open>server/v2/server.go\<close>): the flags with their defaults, what runs before every command, the path and
  the options of the database, and the start of the gRPC server.  Parsing the arguments is done by
  cobra: the flags are a record here.  \<open>utils.ResolvePath\<close>, the file system, the log file, the engine's
  open and the listener are parameters; \<open>logging.L.Fatal\<close> ends the process and is a panic.
\<close>

section \<open>Paths\<close>

text \<open>\<open>path.Clean\<close> and \<open>path.Join\<close> (\<open>filepath\<close> does the same where the separator is a slash).\<close>

fun segments_of :: "string \<Rightarrow> string list" where
  "segments_of [] = [[]]"
| "segments_of (c # s) =
     (if c = CHR ''/'' then [] # segments_of s
      else (case segments_of s of [] \<Rightarrow> [[c]] | x # xs \<Rightarrow> (c # x) # xs))"

fun pushSegment :: "bool \<Rightarrow> string list \<Rightarrow> string \<Rightarrow> string list" where
  "pushSegment rooted stack seg =
     (if seg = [] \<or> seg = ''.'' then stack
      else if seg = ''..''
      then (case stack of [] \<Rightarrow> (if rooted then [] else [seg])
            | t # ts \<Rightarrow> if t = ''..'' then seg # stack else ts)
      else seg # stack)"

fun joinSlash :: "string list \<Rightarrow> string" where
  "joinSlash [] = []"
| "joinSlash [x] = x"
| "joinSlash (x # y # zs) = x @ CHR ''/'' # joinSlash (y # zs)"

definition rooted :: "string \<Rightarrow> bool" where
  "rooted p \<longleftrightarrow> take 1 p = ''/''"

definition cleanSegments :: "string \<Rightarrow> string list" where
  "cleanSegments p = rev (foldl (pushSegment (rooted p)) [] (segments_of p))"

definition render :: "bool \<Rightarrow> string list \<Rightarrow> string" where
  "render r segs =
     (if r then CHR ''/'' # joinSlash segs else if segs = [] then ''.'' else joinSlash segs)"

definition Clean :: "string \<Rightarrow> string" where
  "Clean p = render (rooted p) (cleanSegments p)"

definition Join :: "string list \<Rightarrow> string" where
  "Join elems = (case filter (\<lambda>e. e \<noteq> []) elems of [] \<Rightarrow> [] | es \<Rightarrow> Clean (joinSlash es))"

text \<open>Plain names below a directory.\<close>

definition plainName :: "string \<Rightarrow> bool" where
  "plainName s \<longleftrightarrow> s \<noteq> [] \<and> s \<noteq> ''.'' \<and> s \<noteq> ''..'' \<and> CHR ''/'' \<notin> set s"

lemma segments_plain: "CHR ''/'' \<notin> set s \<Longrightarrow> segments_of s = [s]"
  by (induction s) auto

lemma segments_of_append: "segments_of (a @ CHR ''/'' # b) = segments_of a @ segments_of b"
proof (induction a)
  case (Cons c a)
  have "segments_of a \<noteq> []" by (cases a) (auto split: list.splits)
  then show ?case using Cons by (cases "segments_of a") auto
qed simp

lemma cleanSegments_below:
  assumes "p \<noteq> []" and "plainName x"
  shows "cleanSegments (p @ CHR ''/'' # x) = cleanSegments p @ [x]" and "rooted (p @ CHR ''/'' # x) = rooted p"
proof -
  show r: "rooted (p @ CHR ''/'' # x) = rooted p" using assms(1) by (cases p) (simp_all add: rooted_def)
  show "cleanSegments (p @ CHR ''/'' # x) = cleanSegments p @ [x]"
    using assms(2) by (simp add: cleanSegments_def r segments_of_append segments_plain plainName_def)
qed

lemma Join_below:
  assumes "p \<noteq> []" and "plainName x" and "plainName y"
  shows "Join [p, x] = render (rooted p) (cleanSegments p @ [x])"
    and "Join [p, x, y] = render (rooted p) (cleanSegments p @ [x, y])"
proof -
  have ne: "x \<noteq> []" "y \<noteq> []" using assms by (simp_all add: plainName_def)
  show "Join [p, x] = render (rooted p) (cleanSegments p @ [x])"
    using assms ne by (simp add: Join_def Clean_def cleanSegments_below)
  show "Join [p, x, y] = render (rooted p) (cleanSegments p @ [x, y])"
    using assms ne cleanSegments_below [of "p @ CHR ''/'' # x" y] cleanSegments_below [of p x]
    by (simp add: Join_def Clean_def)
qed

section \<open>The database and the gRPC server\<close>

record pebble_options =
  opt_CacheBytes :: int
  opt_BytesPerSync :: int
  opt_MaxConcurrentCompactions :: int

definition openOptions :: pebble_options where
  "openOptions = \<lparr>opt_CacheBytes = push_bit 23 512, opt_BytesPerSync = push_bit 22 1,
     opt_MaxConcurrentCompactions = 10\<rparr>"

definition OpenDB :: "(string \<Rightarrow> pebble_options \<Rightarrow> 'db res) \<Rightarrow> string \<Rightarrow> 'db res" where
  "OpenDB open BaseDirectory = open (Join [BaseDirectory, ''pebbledb'', ''db'']) openOptions"

lemma openOptions_sizes: "opt_CacheBytes openOptions = 4 * 1024 ^ 3" "opt_BytesPerSync openOptions = 4 * 1024 ^ 2"
  by (simp_all add: openOptions_def push_bit_eq_mult)

text \<open>The gRPC server ends only with a panic: \<open>Serve\<close> returns nil only after a graceful stop, which
  nothing in the program asks for.\<close>

definition panicOn :: "unit res \<Rightarrow> unit res" where
  "panicOn r = (case r of Inl (Err m) \<Rightarrow> Inl (Panic m) | _ \<Rightarrow> r)"

definition RunGRPCServer :: "(string \<Rightarrow> 'l res) \<Rightarrow> ('l \<Rightarrow> db_api \<Rightarrow> unit res) \<Rightarrow> Config \<Rightarrow> db_api \<Rightarrow> unit res" where
  "RunGRPCServer Listen Serve c db =
     (case Listen (cfg_GRPCHost c) of
        Inl (Err m) \<Rightarrow> Inl (Panic m)
      | Inl (Panic m) \<Rightarrow> Inl (Panic m)
      | Inr lis \<Rightarrow> panicOn (Serve lis db))"

section \<open>The flags of the service\<close>

record service_flags =
  sf_datadir :: string
  sf_configFile :: string
  sf_skipPrecheck :: bool
  sf_startHeight :: u32
  sf_endHeight :: u32

definition DefaultBaseDirectory :: string where
  "DefaultBaseDirectory = ''~/.blindbit-oracle''"

definition ConfigFileName :: string where
  "ConfigFileName = ''blindbit.toml''"

definition serviceDefaults :: service_flags where
  "serviceDefaults = \<lparr>sf_datadir = DefaultBaseDirectory, sf_configFile = [], sf_skipPrecheck = False,
     sf_startHeight = 0, sf_endHeight = 0\<rparr>"

text \<open>The flags as they are registered: the command, the name, and the default.\<close>

definition serviceFlags :: "(string \<times> string \<times> cfg_value) list" where
  "serviceFlags =
     [(''rootCmd'', ''datadir'', CText DefaultBaseDirectory), (''rootCmd'', ''config'', CText []),
      (''rootCmd'', ''skip-precheck'', CFlag False), (''syncCmd'', ''start-height'', CNum 0),
      (''syncCmd'', ''end-height'', CNum 0)]"

text \<open>What runs before every command: the base directory and the configuration.  Making the directory
  succeeds, finds that it exists, or fails.\<close>

datatype mkdir_result = Made | Exists | MkdirFailed string

definition SetDirectories :: "(string \<Rightarrow> string) \<Rightarrow> string \<Rightarrow> string" where
  "SetDirectories ResolvePath BaseDirectory = ResolvePath BaseDirectory"

definition configPath :: "string \<Rightarrow> string \<Rightarrow> string" where
  "configPath base configFile = (if configFile = [] then Join [base, ConfigFileName] else configFile)"

definition serviceStart ::
    "(string \<Rightarrow> string) \<Rightarrow> (string \<Rightarrow> mkdir_result) \<Rightarrow> (string \<Rightarrow> string \<Rightarrow> unit res) \<Rightarrow> (string \<Rightarrow> viper_api) \<Rightarrow>
     (string \<Rightarrow> string res) \<Rightarrow> Config \<Rightarrow> service_flags \<Rightarrow> (string \<times> Config) res" where
  "serviceStart ResolvePath Mkdir EnableFileLogging V readFile c fl =
     (let base = SetDirectories ResolvePath (sf_datadir fl)
      in case Mkdir base of
           MkdirFailed m \<Rightarrow> Inl (Panic ''error creating base directory'')
         | _ \<Rightarrow>
             (case EnableFileLogging base ''debug.log'' of
                Inl e \<Rightarrow> Inl (Panic ''error setting log file'')
              | Inr _ \<Rightarrow> bindR (LoadConfigs (V (configPath base (sf_configFile fl))) readFile c) (\<lambda>c'.
                  Inr (base, c'))))"

text \<open>The sync and server-only commands with the flags, on the database of the base directory.\<close>

definition syncMain ::
    "(string \<Rightarrow> pebble_options \<Rightarrow> 'db res) \<Rightarrow> sp_api \<Rightarrow> node_api \<Rightarrow> ('db, 'b) pebble_api \<Rightarrow> service_flags \<Rightarrow>
     string \<times> Config \<Rightarrow> unit res \<Rightarrow> 'db option \<Rightarrow> bool" where
  "syncMain open S N P fl started r db' \<longleftrightarrow>
     syncCmd (sf_skipPrecheck fl) (sf_startHeight fl) (sf_endHeight fl) (snd started) S N P
       (OpenDB open (fst started)) r db'"

definition serverMain ::
    "(string \<Rightarrow> pebble_options \<Rightarrow> 'db res) \<Rightarrow> (bytes \<Rightarrow> bytes) \<Rightarrow> ('db, 'b) pebble_api \<Rightarrow> string \<times> Config \<Rightarrow> db_api res" where
  "serverMain open RB P started = serverCmd RB P (OpenDB open (fst started))"

section \<open>The flags of the explorer\<close>

record explorer_flags =
  ef_datadir :: string
  ef_configFile :: string
  ef_dbPath :: string
  ef_startHeight :: u32
  ef_endHeight :: u32
  ef_keyType :: string
  ef_lookupKeyType :: string
  ef_lookupKey :: string
  ef_hexFormat :: bool
  ef_rangeKeyType :: string
  ef_rangeStartKey :: string
  ef_rangeLimit :: int
  ef_rangeShowValues :: bool
  ef_prefixScanKeyType :: string
  ef_prefixScanKey :: string
  ef_prefixScanLimit :: int
  ef_prefixScanShowValues :: bool

definition explorerDefaults :: explorer_flags where
  "explorerDefaults = \<lparr>ef_datadir = DefaultBaseDirectory, ef_configFile = [], ef_dbPath = [],
     ef_startHeight = 0, ef_endHeight = 0, ef_keyType = ''compute-index'',
     ef_lookupKeyType = [], ef_lookupKey = [], ef_hexFormat = True,
     ef_rangeKeyType = [], ef_rangeStartKey = [], ef_rangeLimit = 10, ef_rangeShowValues = False,
     ef_prefixScanKeyType = [], ef_prefixScanKey = [], ef_prefixScanLimit = 100, ef_prefixScanShowValues = False\<rparr>"

definition explorerFlags :: "(string \<times> string \<times> cfg_value) list" where
  "explorerFlags =
     [(''rootCmd'', ''datadir'', CText DefaultBaseDirectory), (''rootCmd'', ''config'', CText []),
      (''rootCmd'', ''db'', CText []),
      (''countCmd'', ''start-height'', CNum 0), (''countCmd'', ''end-height'', CNum 0),
      (''countCmd'', ''key-type'', CText ''compute-index''),
      (''lookupCmd'', ''key-type'', CText []), (''lookupCmd'', ''key'', CText []), (''lookupCmd'', ''hex'', CFlag True),
      (''rangeCmd'', ''key-type'', CText []), (''rangeCmd'', ''start-key'', CText []),
      (''rangeCmd'', ''limit'', CNum 10), (''rangeCmd'', ''show-values'', CFlag False),
      (''prefixScanCmd'', ''key-type'', CText []), (''prefixScanCmd'', ''prefix'', CText []),
      (''prefixScanCmd'', ''limit'', CNum 100), (''prefixScanCmd'', ''show-values'', CFlag False)]"

definition explorerStart ::
    "(string \<Rightarrow> string) \<Rightarrow> (string \<Rightarrow> viper_api) \<Rightarrow> (string \<Rightarrow> string res) \<Rightarrow> Config \<Rightarrow> explorer_flags \<Rightarrow> unit res" where
  "explorerStart ResolvePath V readFile c fl =
     (let base = SetDirectories ResolvePath (ef_datadir fl)
      in bindR (LoadConfigs (V (configPath base (ef_configFile fl))) readFile c) (\<lambda>_.
         if ef_dbPath fl = [] then Inl (Panic ''db path not provided'') else Inr ()))"

datatype explorer_command = Count | DbInfo | ListKeys | Lookup | Range | PrefixScan

definition explorerMain ::
    "(string \<Rightarrow> string) \<Rightarrow> (string \<Rightarrow> viper_api) \<Rightarrow> (string \<Rightarrow> string res) \<Rightarrow> Config \<Rightarrow> ('db, 'b) pebble_api \<Rightarrow>
     (string \<Rightarrow> 'db res) \<Rightarrow> ('db \<Rightarrow> metrics) \<Rightarrow> byte list \<Rightarrow> explorer_command \<Rightarrow> explorer_flags \<Rightarrow> unit out" where
  "explorerMain ResolvePath V readFile c P openDB getMetrics order cmd fl =
     quiet (explorerStart ResolvePath V readFile c fl) (\<lambda>_.
       case cmd of
         Count \<Rightarrow> countCmd P openDB (ef_dbPath fl) (ef_keyType fl) (ef_startHeight fl) (ef_endHeight fl)
       | DbInfo \<Rightarrow> infoCmd P openDB getMetrics (ef_dbPath fl) order
       | ListKeys \<Rightarrow> listKeysCmd P openDB (ef_dbPath fl) order
       | Lookup \<Rightarrow> lookupCmd P openDB (ef_dbPath fl) (ef_lookupKeyType fl) (ef_lookupKey fl) (ef_hexFormat fl)
       | Range \<Rightarrow> rangeCmd P openDB (ef_dbPath fl) (ef_rangeKeyType fl) (ef_rangeStartKey fl) (ef_rangeLimit fl)
           (ef_rangeShowValues fl)
       | PrefixScan \<Rightarrow> prefixScanCmd P openDB (ef_dbPath fl) (ef_prefixScanKeyType fl) (ef_prefixScanKey fl)
           (ef_prefixScanLimit fl) (ef_prefixScanShowValues fl))"

section \<open>Properties\<close>

text \<open>The service keeps its files in the base directory, in whatever form it was given: a start that
  succeeds has a configuration that \<open>LoadConfigs\<close> accepted from the file that was named, by default
  from \<open>blindbit.toml\<close> in the base directory, and the sync and server-only commands open the
  database \<open>pebbledb/db\<close> below it.  Without heights the sync goes to the tip.\<close>

theorem service_files_below_base:
  assumes "serviceStart ResolvePath Mkdir Log V readFile c fl = Inr started"
    and "ResolvePath (sf_datadir fl) \<noteq> []"
  shows "let base = ResolvePath (sf_datadir fl);
      below = (\<lambda>names. render (rooted base) (cleanSegments base @ names));
      cfgFile = (if sf_configFile fl = [] then below [''blindbit.toml''] else sf_configFile fl)
    in fst started = base \<and> Inr (snd started) = LoadConfigs (V cfgFile) readFile c \<and>
      OpenDB open (fst started) = open (below [''pebbledb'', ''db'']) openOptions \<and>
      serverMain open RB P started = serverCmd RB P (open (below [''pebbledb'', ''db'']) openOptions) \<and>
      (\<forall>r db'. syncMain open S N P (serviceDefaults\<lparr>sf_skipPrecheck := True\<rparr>) started r db' \<longleftrightarrow>
         (case wrapf ''failed opening db'' (open (below [''pebbledb'', ''db'']) openOptions) of
            Inl e \<Rightarrow> r = Inl e \<and> db' = None
          | Inr db \<Rightarrow> (\<exists>s'. wrapped ''initial sync failed'' (InitialSyncToTip (snd started) S N P None)
                (NewStore P db) r s' \<and> db' = Some (closedDB P r s'))))"
proof -
  let ?base = "ResolvePath (sf_datadir fl)"
  have names: "plainName ''blindbit.toml''" "plainName ''pebbledb''" "plainName ''db''"
    by (simp_all add: plainName_def)
  have cfg: "configPath ?base (sf_configFile fl) =
      (if sf_configFile fl = [] then render (rooted ?base) (cleanSegments ?base @ [''blindbit.toml'']) else sf_configFile fl)"
    using Join_below(1) [OF assms(2) names(1,2)] by (simp add: configPath_def ConfigFileName_def)
  have db: "OpenDB open ?base = open (render (rooted ?base) (cleanSegments ?base @ [''pebbledb'', ''db''])) openOptions"
    using Join_below(2) [OF assms(2) names(2,3)] by (simp add: OpenDB_def)
  have st: "fst started = ?base \<and> Inr (snd started) = LoadConfigs (V (configPath ?base (sf_configFile fl))) readFile c"
    using assms(1) by (auto simp: serviceStart_def SetDirectories_def Let_def split: mkdir_result.splits sum.splits)
  have steps: "andThen (performDBIntegrityCheck True c' S N P None)
      (andThen R (performDBIntegrityCheck True c' S N P None)) s0 r s' \<longleftrightarrow> R s0 r s'" for c' R s0 r s'
    by (cases r) (auto simp: andThen_def performDBIntegrityCheck_def)
  show ?thesis
    using st unfolding Let_def cfg
    by (simp add: db serverMain_def syncMain_def syncCmd_def serviceDefaults_def steps syncIndex_def cong: sum.case_cong)
qed

theorem service_files_below_base_witness:
  "\<exists>started. serviceStart (\<lambda>p. ''/srv/oracle/'') (\<lambda>p. Exists) (\<lambda>p f. Inr ()) (\<lambda>f. x_viper) (\<lambda>_. Inr [])
       (initialConfig 4) serviceDefaults = Inr started \<and>
     OpenDB (\<lambda>path opts. if path = ''/srv/oracle/pebbledb/db'' then Inr [] else Inl (Err path)) (fst started) =
       Inr ([] :: kv list)"
proof -
  obtain c where c: "LoadConfigs x_viper (\<lambda>_. Inr []) (initialConfig 4) = Inr c"
    by (simp add: LoadConfigs_def readChain_def credentials_def readValues_def x_viper_def Let_def)
  then have s: "serviceStart (\<lambda>p. ''/srv/oracle/'') (\<lambda>p. Exists) (\<lambda>p f. Inr ()) (\<lambda>f. x_viper) (\<lambda>_. Inr [])
      (initialConfig 4) serviceDefaults = Inr (''/srv/oracle/'', c)"
    by (simp add: serviceStart_def SetDirectories_def)
  have "render (rooted ''/srv/oracle/'') (cleanSegments ''/srv/oracle/'' @ [''pebbledb'', ''db'']) =
      ''/srv/oracle/pebbledb/db''" by code_simp
  then show ?thesis
    using service_files_below_base [OF s,
        of "\<lambda>path opts. if path = ''/srv/oracle/pebbledb/db'' then Inr [] else Inl (Err path)" rev mem_pebble x_sp x_node1] s
    by (simp add: Let_def)
qed

text \<open>The explorer needs the path of a database: without it no command runs, whatever else is given.\<close>

theorem explorer_needs_db:
  assumes "ef_dbPath fl = []"
  shows "\<exists>e. explorerMain ResolvePath V readFile c P openDB getMetrics order cmd fl = ([], Inl e)"
  using assms
  by (cases "LoadConfigs (V (configPath (SetDirectories ResolvePath (ef_datadir fl)) (ef_configFile fl))) readFile c")
    (simp_all add: explorerMain_def explorerStart_def quiet_def)

theorem explorer_needs_db_witness:
  "\<exists>e. explorerMain id V readFile c mem_pebble (\<lambda>path. Inr []) getMetrics order Count explorerDefaults = ([], Inl e)"
  by (rule explorer_needs_db) (simp add: explorerDefaults_def)

end
