(* ===== verification/Payments.thy ===== *)
theory Payments
  imports Sync_Spec Scan
begin

text \<open>
  What the index is for: a receiver who scans the compute index of a synced database finds the
  payments to it.  This composes the sync (\<open>indexer/builder.go\<close>), the rows that the store writes
  (\<open>dbpebble/store.go\<close>) and the scan (\<open>dbpebble/compute.go\<close>).
\<close>

section \<open>The scan of a stored transaction\<close>



section \<open>The rows of a range of heights\<close>





section \<open>No payment is missed\<close>









end
