(* ===== verification/Spec2Isabelle.thy ===== *)
theory Spec2Isabelle
  imports Scan Pairs Service Continuous Explorer Range_Spec Router Client Filters Test_Vectors Startup Payments
begin

text \<open>
  \<^bold>\<open>Blindbit oracle: an index server for silent payments (BIP352).\<close>

  The oracle pulls blocks from a Bitcoin node, computes for every transaction with taproot outputs
  the public tweak of BIP352, stores outputs, spends and tweaks in a key-value database, and serves
  them to light clients over HTTP and gRPC.  Paths below are under \<open>src/internal/\<close>,
  those of the commands under \<open>src/\<close>.

  \<^bold>\<open>Parts and theories.\<close>

  \<^item> Prelude: the result type (\<open>Inl\<close> an error or a panic), byte strings, words and byte orders,
    monadic maps over lists.
  \<^item> Pebble: the storage engine.  It is third-party code, so it is a parameter (\<open>pebble_api\<close>); what
    is relied on is stated as the locales \<open>pebble\<close> (what reads return after writes) and
    \<open>pebble_reliable\<close> (no call fails), which an in-memory instance satisfies.
  \<^item> Encoders (\<open>dbpebble/encoders.go\<close>, \<open>prefixes.go\<close>, \<open>helpers.go\<close>): keys, bounds and values as bytes.
    The keys are injective and the order of the bytes is the order of the fields.
  \<^item> Database (\<open>database/specifications.go\<close>, \<open>serialisations.go\<close>): the records of the store.
  \<^item> Block_Store (\<open>dbpebble/store.go\<close>): writing blocks through a batch that is rotated and
    committed in the background.  The batches in flight are a list in the state, and a step may
    commit any of them.
  \<^item> Reads, Read_Spec (\<open>dbpebble/read.go\<close>): the reads with their optimised scans, and the proof that
    they return what the per-transaction lookups return, what was written, and what is unspent.
  \<^item> Compute_Index (\<open>dbpebble/compute_index.go\<close>) and Scan (\<open>dbpebble/compute.go\<close>): the compact index
    of tweaks, its sequential scan, and its parallel scan as a step relation of workers on a queue.
    The curve operations are a parameter.  Compute_Range: the rebuild of the index of an interval
    (\<open>BuildComputeIndexByRange\<close>) with its sender, its workers and their channel, where attaching
    entries to the batch and committing it are steps of their own.  Range_Spec: what a rebuild
    leaves in the database.
  \<^item> Node (\<open>indexer/rest.go\<close>, \<open>spentoutputs.go\<close>): the REST client of the node and the parser of the
    spent outputs.  The transport and the decoders are parameters; the variable-length integers of
    the wire format are the locale \<open>wire_codec\<close>.
  \<^item> Hex and Pairs (\<open>types/*.go\<close>): the stored pairs as instances of one codec interface.
  \<^item> Indexer (\<open>indexer/types.go\<close>, \<open>pubkeyextract.go\<close>, \<open>compute.go\<close>, \<open>builder.go\<close>, \<open>pull.go\<close>): from a
    block of the node to the rows of the store; the functions of the BIP352 library are a parameter
    (\<open>sp_api\<close>) whose results have the documented lengths (\<open>sp_ok\<close>).
  \<^item> Gap_Check, Sync, Sync_Spec, Continuous (\<open>indexer/cleanup.go\<close>, \<open>pull.go\<close>, \<open>builder.go\<close>): finding
    and filling gaps, following a reorganisation, the sync pipeline of pullers, handlers and a
    writer, and the continuous sync with its writer, as step relations over their channels.  The
    drivers take what the node answers (\<open>node_api\<close>); \<open>rest_node\<close> of Node gives it for the client.
  \<^item> Json, Server_Types, Config, Server, Server_Spec (\<open>server/types.go\<close>, \<open>handler.go\<close>, \<open>range.go\<close>,
    \<open>config/*.go\<close>): the HTTP server over the database interface, with the text of its responses.
    The interface is the locale \<open>oracle_db\<close>; a store with typed contents is an instance of it.
  \<^item> Grpc (\<open>server/v2/service.go\<close>): the gRPC service over the same interface.
  \<^item> Service (\<open>cmd/blindbit-oracle/main.go\<close>): the sync, run and server-only commands as compositions of
    the parts above.  Explorer (\<open>cmd/db/explorer.go\<close>, \<open>cmd/db/main.go\<close>): the database explorer, with
    the text that it prints.

  \<^item> Router (\<open>server/run.go\<close>, \<open>responses.go\<close>): which handler answers which path; the matching of a path is
    gin's, the locale \<open>gin_paths\<close>.  Filters (\<open>indexer/filters.go\<close>): the block filter over the builder
    of btcutil.  Test_Vectors (\<open>testhelpers/testhelpers.go\<close>): splitting a serialised witness and
    turning the inputs of a test case into those of a transaction, and the loaders of test files.
  \<^item> Json_Reader, Client: the client's side of the HTTP server.  A JSON parser (RFC 8259) that is the
    specification of what the responses and streams are to be read as.
  \<^item> Startup (\<open>cmd/*/main.go\<close>, \<open>dbpebble/new.go\<close>, \<open>server/v2/server.go\<close>): the flags with their
    defaults, what runs before a command, the paths of the files, opening the database, and the start
    of the gRPC server.
  \<^item> Payments: the composition of sync, compute index and scan, the end-to-end property of a receiver.

  \<^bold>\<open>What the lemmas show.\<close>  Block_Store: no applied block is lost, a flush writes it to the database (readable; the code commits with
  \<open>pebble.NoSync\<close>, and a crash is not modelled), the
  batch counters stay within their bounds, and the two ways in which a block stays unwritten (close,
  and a flush right after a rotation).  Read_Spec: every optimised read equals its reference and
  reads back what the blocks contain (on a chain without two blocks at one height); cut-through drops
  exactly what is spent.  Compute_Index and
  Scan: the index reads back the tweaks, and the parallel scan finds what the sequential one finds
  under every schedule.  Indexer: the rows of a transaction are its taproot outputs and inputs,
  and its tweak is the one of BIP352 when its inputs are standard.
  Range_Spec: a rebuild ends under every schedule, returns nil, and then the index has the rows of
  the blocks of the interval.
  Sync_Spec: a sync applies every block of its interval once under every schedule, and ends.
  Continuous: from its start on the index catches up with the node, reorganised blocks included, under
  every schedule of all its steps, further ticks included; the compute-index rows of a block that was
  replaced at its height stay.  Node: the parser inverts the encoding and rejects every truncated body.
  Service: what a sync command has stored is served after a restart.  Explorer: counts, lookups,
  listings and the height range against the typed contents of the database.
  Server_Spec and Grpc: a range is answered in full or visibly cut, the endpoints agree with each
  other.  Client: a JSON parser reads a streamed range as the document of all its blocks, and rejects
  it when a block failed or any part is missing.  Payments: a scan after a sync
  finds every payment in the synced blocks and nothing else.  Startup: the files of the service lie in
  its base directory.  Server_Types: the written JSON is the reference JSON.  Router: every path reaches its handler,
  and the range endpoints keep to the limit that the info endpoint announces.  Test_Vectors: a
  serialised witness reads back, and one that is cut short is an error.

  \<^bold>\<open>Bounds.\<close>  Machine integers have their width (\<open>u32\<close>, \<open>u64\<close>) wherever the code computes with them;
  lengths and loop counters that cannot overflow are natural numbers.  No definition of the code uses
  fuel (the JSON parser of the specification does, and \<open>readDoc_enough\<close> shows it is enough): a loop is
  a function with a termination proof, or a \<open>partial_function (option)\<close> where the loop of the code may run forever (\<open>uint32\<close> and \<open>uint64\<close> counters at their largest value, following the
  chain below height zero); there, that it ends is a theorem.

  \<^bold>\<open>Not modelled.\<close>  The HTTP transport and the middleware of both servers, parsing the command
  line, logging and progress output, the generated protocol messages beyond the fields that the
  service sets, and the RPC structs of \<open>types.go\<close> that no code uses.  These are calls of third-party
  packages or of the standard library without logic of their own.  The memory reuse of the reads
  (slabs, pooled buffers) has no effect on values here.
\<close>

section \<open>From the node to the client\<close>

text \<open>C1. End to end: the oracle syncs the heights \<open>a\<close> to \<open>e\<close> of a chain that the node serves into an
  empty database, the sync returns nil and the background commits have ended.  Then the tweaks
  endpoint answers the height \<open>h\<close> of that interval with status 200, the hash of the block that the
  node has at \<open>h\<close>, and the tweaks computed for its transactions, in block order.  The number of
  blocks must not be a multiple of 201, for which the last block stays in the batch.\<close>

theorem synced_tweaks_are_served:
  assumes "pebble_reliable P entries writes" and "entries db0 = []"
    and "SyncBlocks c S N P None a e (NewStore P db0) (Inr ()) s'"
    and "0 < cfg_MaxParallelTweakComputations c"
    and "servable S N a e" and "proper_chain (chain_blocks S N a e)"
    and "int (length [a..e]) mod 201 \<noteq> 0" and "WaitForPendingCommits P s' = (Inr (), s2)"
    and "0 \<le> a" and "a \<le> h" and "h \<le> e" and "e < 2 ^ 32" and "indexedAt S N h = Some d"
  shows "GetTweaks RC (store_db RB P s2) (AppendUint (nat h)) =
    JSON 200 (BTweaks \<lparr>tir_BlockIdentifier = \<lparr>bid_BlockHash = RC (blk_Hash d), bid_BlockHeight = of_int h\<rparr>,
                       tir_Index = map row_Tweak (block_tweaks d)\<rparr>)"
proof -
  let ?bs = "chain_blocks S N a e"
  have hb: "holds_blocks (entries (st_DB s2)) ?bs"
    by (rule pebble_reliable.sync_holds [OF assms(1,3,4,2,5) _ assms(7,8)])
      (use assms(6) in \<open>simp add: proper_chain_def\<close>)
  have d: "d \<in> set ?bs"
    using assms(10,11,13) by (auto simp: chain_blocks_def intro!: image_eqI [of _ _ h])
  have ht: "blk_Height d = of_nat (nat h)" using indexedAt_height [OF assms(13)] assms(9,10) by simp
  have "nat h < 2 ^ 32" using assms(9-12) by (simp add: nat_less_iff)
  from pebble_reliable.served_tweaks [OF assms(1) hb assms(6) d ht this] show ?thesis
    using assms(9,10) by simp
qed

theorem synced_tweaks_are_served_witness:
  "\<exists>s' s2. SyncBlocks (initialConfig 4) x_sp x_node1 mem_pebble None 10 10 (NewStore mem_pebble []) (Inr ()) s' \<and>
     GetTweaks rev (store_db rev mem_pebble s2) ''10'' =
       JSON 200 (BTweaks \<lparr>tir_BlockIdentifier = \<lparr>bid_BlockHash = replicate 32 4, bid_BlockHeight = 10\<rparr>,
                          tir_Index = map row_Tweak (block_tweaks x_block)\<rparr>)"
proof -
  have e: "mem_entries [] = []" by (simp add: mem_entries_def)
  then have t: "typed (set (mem_entries []))" by (simp add: typed_def)
  obtain s' where s': "SyncBlocks (initialConfig 4) x_sp x_node1 mem_pebble None 10 10
      (NewStore mem_pebble []) (Inr ()) s'"
    using mem.SyncBlocks_ok [OF store_run.start _ t x_servable1 x_config] by auto
  obtain s2 where s2: "WaitForPendingCommits mem_pebble s' = (Inr (), s2)"
    using mem.drain_ok [of "pending s'" "st_DB s'"] by (auto simp: WaitForPendingCommits_def)
  have "AppendUint (nat 10) = ''10''" "blk_Hash x_block = replicate 32 4"
    by (simp_all add: AppendUint.simps digit_def x_block_def char_of_def bit_0)
  then have "GetTweaks rev (store_db rev mem_pebble s2) ''10'' =
       JSON 200 (BTweaks \<lparr>tir_BlockIdentifier = \<lparr>bid_BlockHash = replicate 32 4, bid_BlockHeight = 10\<rparr>,
                          tir_Index = map row_Tweak (block_tweaks x_block)\<rparr>)"
    using synced_tweaks_are_served [OF mem_reliable e s' x_config(2) x_servable1 _ _ s2 _ _ _ _ x_at, of rev rev]
      x_proper by (simp add: x_chain1)
  then show ?thesis using s' by blast
qed

text \<open>The heights of a range, as the loop of the stream counts them.\<close>

lemma heights_of_range:
  assumes "0 \<le> i" and "i \<le> j"
  shows "concat (map (\<lambda>n. [g (int n)]) [nat i..<Suc (nat j)]) = map g [i..j]"
proof -
  have "map int [nat i..<Suc (nat j)] = [i..j]"
    using assms by (intro nth_equalityI) (auto simp del: upt_Suc simp add: nth_upto nth_upt)
  moreover have "concat (map (\<lambda>n. [g (int n)]) ns) = map g (map int ns)" for ns
    by (induction ns) simp_all
  ultimately show ?thesis by metis
qed

text \<open>The entry of a synced height in a range.\<close>

lemma synced_entries:
  assumes "pebble_reliable P entries writes" and "holds_blocks (entries (st_DB s)) (chain_blocks S N a e)"
    and "proper_chain (chain_blocks S N a e)" and "servable S N a e"
    and "0 \<le> a" and "a \<le> int n" and "int n \<le> e"
  shows "entriesAt (store_db RB P s) (tweaksEntry RC (store_db RB P s)) n =
    Inr [\<lparr>tir_BlockIdentifier =
            \<lparr>bid_BlockHash = RC (blk_Hash (the (indexedAt S N (int n)))), bid_BlockHeight = of_nat n\<rparr>,
          tir_Index = map row_Tweak (block_tweaks (the (indexedAt S N (int n))))\<rparr>]"
proof -
  obtain d where d: "indexedAt S N (int n) = Some d" using assms(4,6,7) by (auto simp: servable_def)
  have mem: "d \<in> set (chain_blocks S N a e)"
    using assms(6,7) d by (auto simp: chain_blocks_def intro!: image_eqI [of _ _ "int n"])
  have "blk_Height d = of_nat n" using indexedAt_height [OF d] by simp
  from pebble_reliable.served_entry(1) [OF assms(1-3) mem this, of RB] pebble_reliable.served_entry(2) [OF assms(1-3) mem this, of RC RB] show ?thesis
    using d by (simp add: entriesAt_def)
qed

text \<open>C2. End to end, a range: after a sync as above, a client that asks for the tweaks of the heights \<open>i\<close> to
  \<open>j\<close> of the synced interval, within the limit of blocks, reads with its JSON parser the document of
  exactly these blocks in the order of their heights, each with the hash of the node's block and the
  tweaks of its transactions; it reads nothing when any part of the answer is missing.\<close>

theorem synced_range_is_read:
  assumes "pebble_reliable P entries writes" and "entries db0 = []"
    and "SyncBlocks c S N P None a e (NewStore P db0) (Inr ()) s'"
    and "0 < cfg_MaxParallelTweakComputations c"
    and "servable S N a e" and "proper_chain (chain_blocks S N a e)"
    and "int (length [a..e]) mod 201 \<noteq> 0" and "WaitForPendingCommits P s' = (Inr (), s2)"
    and "0 \<le> a" and "a \<le> i" and "i \<le> j" and "j \<le> e" and "e < 2 ^ 32"
    and "nat j - nat i + 1 \<le> unat m"
  shows "clientReads (GetTweaksRange RC m (store_db RB P s2) (AppendUint (nat i)) (AppendUint (nat j)))
    (Some (blocksDoc (map (\<lambda>h. tweaksDoc
       \<lparr>tir_BlockIdentifier =
          \<lparr>bid_BlockHash = RC (blk_Hash (the (indexedAt S N h))), bid_BlockHeight = of_int h\<rparr>,
        tir_Index = map row_Tweak (block_tweaks (the (indexedAt S N h)))\<rparr>) [i..j])))"
proof -
  let ?D = "store_db RB P s2"
  have hb: "holds_blocks (entries (st_DB s2)) (chain_blocks S N a e)"
    by (rule pebble_reliable.sync_holds [OF assms(1,3,4,2,5) _ assms(7,8)])
      (use assms(6) in \<open>simp add: proper_chain_def\<close>)
  have b: "nat i \<le> nat j" "nat j < 2 ^ 32" using assms(9-13) by (simp_all add: nat_less_iff)
  then have u: "unat (of_nat (nat i) :: u32) = nat i" "unat (of_nat (nat j) :: u32) = nat j"
    by (simp_all add: unat_of_nat)
  have params: "rangeParams m (AppendUint (nat i)) (AppendUint (nat j)) = Inr (of_nat (nat i), of_nat (nat j))"
    using b u assms(14) by (simp add: rangeParams_accepts Parse_Append word_le_nat_alt)
  let ?r = "\<lambda>h. \<lparr>tir_BlockIdentifier =
      \<lparr>bid_BlockHash = RC (blk_Hash (the (indexedAt S N h))), bid_BlockHeight = of_int h\<rparr>,
    tir_Index = map row_Tweak (block_tweaks (the (indexedAt S N h)))\<rparr>"
  have "entriesAt ?D (tweaksEntry RC ?D) n = Inr [?r (int n)]" if "n \<in> set [nat i..<Suc (nat j)]" for n
    using synced_entries [OF assms(1) hb assms(6,5,9), of n RB RC] that assms(9-12) by auto
  then have "mapR (entriesAt ?D (tweaksEntry RC ?D)) [nat i..<Suc (nat j)] =
      Inr (map (\<lambda>n. [?r (int n)]) [nat i..<Suc (nat j)])"
    by (rule mapR_Inr)
  moreover have "concat (map (\<lambda>n. [?r (int n)]) [nat i..<Suc (nat j)]) = map ?r [i..j]"
    by (rule heights_of_range) (use assms(9-11) in simp_all)
  ultimately have "clientView ?D (tweaksEntry RC ?D) tweaksDoc (of_nat (nat i)) (of_nat (nat j)) =
      Some (blocksDoc (map (\<lambda>h. tweaksDoc (?r h)) [i..j]))"
    unfolding clientView_def u by (simp add: comp_def del: upt_Suc)
  then show ?thesis
    using stream_client [of tweaksDoc ?D "of_nat (nat i)" "of_nat (nat j)" "tweaksEntry RC ?D"]
    by (simp add: clientReads_def GetTweaksRange_def rangeReply_def params texts_are_docs)
qed

theorem synced_range_is_read_witness:
  "\<exists>s' s2. SyncBlocks (initialConfig 4) x_sp x_node1 mem_pebble None 10 10 (NewStore mem_pebble []) (Inr ()) s' \<and>
     clientReads (GetTweaksRange rev 100 (store_db rev mem_pebble s2) (AppendUint 10) (AppendUint 10))
       (Some (blocksDoc [tweaksDoc
          \<lparr>tir_BlockIdentifier = \<lparr>bid_BlockHash = replicate 32 4, bid_BlockHeight = 10\<rparr>,
           tir_Index = map row_Tweak (block_tweaks x_block)\<rparr>]))"
proof -
  have e: "mem_entries [] = []" by (simp add: mem_entries_def)
  then have t: "typed (set (mem_entries []))" by (simp add: typed_def)
  obtain s' where s': "SyncBlocks (initialConfig 4) x_sp x_node1 mem_pebble None 10 10
      (NewStore mem_pebble []) (Inr ()) s'"
    using mem.SyncBlocks_ok [OF store_run.start _ t x_servable1 x_config] by auto
  obtain s2 where s2: "WaitForPendingCommits mem_pebble s' = (Inr (), s2)"
    using mem.drain_ok [of "pending s'" "st_DB s'"] by (auto simp: WaitForPendingCommits_def)
  have "blk_Hash x_block = replicate 32 4" by (simp add: x_block_def)
  then have "clientReads (GetTweaksRange rev 100 (store_db rev mem_pebble s2) (AppendUint 10) (AppendUint 10))
       (Some (blocksDoc [tweaksDoc
          \<lparr>tir_BlockIdentifier = \<lparr>bid_BlockHash = replicate 32 4, bid_BlockHeight = 10\<rparr>,
           tir_Index = map row_Tweak (block_tweaks x_block)\<rparr>]))"
    using synced_range_is_read [OF mem_reliable e s' x_config(2) x_servable1 _ _ s2, of 10 10 100 rev rev]
      x_proper by (simp add: x_chain1 x_at)
  then show ?thesis using s' by blast
qed

end
